(* ===== verification/Prelude.thy ===== *)
theory Prelude
  imports Main "HOL-Library.Word"
begin

unbundle bit_operations_syntax

text \<open>
  What every component of the development shares: the machine integer types, the result
  type of operations that may throw, the byte order of integers in buffers, and the generic
  lemmas on lists and words that the component proofs use.

  An operation of the source that may throw returns a \<^typ>\<open>'e + 'a\<close>; the error side is
  the datatype \<open>failure\<close>. Its constructor \<open>Throw\<close> is a C++ exception (its standard class
  and its message); \<open>Undefined_behaviour\<close> is an access the C++ standard leaves undefined, kept
  as a value of its own so that its absence can be proved and its presence exhibited.
\<close>

section \<open>Machine integers and results\<close>

type_synonym byte = "8 word"
type_synonym u16 = "16 word"
type_synonym u32 = "32 word"
type_synonym u64 = "64 word"

datatype ex_kind = Invalid_argument | Length_error | Logic_error | Runtime_error | Out_of_range

datatype failure = Throw ex_kind string | Undefined_behaviour string

type_synonym 'a result = "failure + 'a"

named_theorems result_simps \<open>unfolding of the sequencing of fallible operations\<close>
named_theorems bytes_simps \<open>reading and writing positions of a buffer\<close>

definition bindr :: "'a result \<Rightarrow> ('a \<Rightarrow> 'b result) \<Rightarrow> 'b result" where
  "bindr m f = (case m of Inl e \<Rightarrow> Inl e | Inr x \<Rightarrow> f x)"

lemma bindr_simps [simp]:
  "bindr (Inl e) f = Inl e"
  "bindr (Inr x) f = f x"
  by (simp_all add: bindr_def)

lemma bindr_assoc [simp]: "bindr (bindr m f) g = bindr m (\<lambda>x. bindr (f x) g)"
  by (cases m) simp_all

lemma bindr_Inr_iff [result_simps]: "bindr m f = Inr y \<longleftrightarrow> (\<exists>x. m = Inr x \<and> f x = Inr y)"
  by (cases m) simp_all

lemma bindr_Inl_iff [result_simps]:
  "bindr m f = Inl e \<longleftrightarrow> m = Inl e \<or> (\<exists>x. m = Inr x \<and> f x = Inl e)"
  by (cases m) simp_all

lemma bindr_cong [fundef_cong]:
  "m = n \<Longrightarrow> (\<And>x. n = Inr x \<Longrightarrow> f x = g x) \<Longrightarrow> bindr m f = bindr n g"
  by (cases n) simp_all

lemma bindr_if [simp]:
  "bindr (if c then m else n) f = (if c then bindr m f else bindr n f)"
  by simp

text \<open>An operation is safe on an input when its outcome is not undefined behaviour.\<close>

fun is_ub :: "'a result \<Rightarrow> bool" where
  "is_ub (Inl (Undefined_behaviour _)) = True"
| "is_ub _ = False"

lemma is_ub_Inr [simp]: "\<not> is_ub (Inr x)"
  by simp

lemma is_ub_bindr [simp]:
  "is_ub (bindr m f) \<longleftrightarrow> is_ub m \<or> (\<exists>x. m = Inr x \<and> is_ub (f x))"
proof (cases m)
  case (Inl e)
  then show ?thesis by (cases e) simp_all
qed simp

section \<open>Lists\<close>

text \<open>A vector of bytes resized to \<open>n\<close>: cut, or extended with zero bytes.\<close>

definition resize :: "nat \<Rightarrow> byte list \<Rightarrow> byte list" where
  "resize n xs = take n xs @ replicate (n - length xs) 0"

lemma length_resize [simp]: "length (resize n xs) = n"
  by (simp add: resize_def)

lemma resize_id [simp]: "length xs = n \<Longrightarrow> resize n xs = xs"
  by (simp add: resize_def)

lemma resize_0 [simp]: "resize 0 xs = []"
  by (simp add: resize_def)

lemma resize_idem [simp]: "resize n (resize n xs) = resize n xs"
  by simp

text \<open>Overwriting the bytes from position \<open>p\<close> on with the bytes \<open>ys\<close>.\<close>

definition overwrite :: "nat \<Rightarrow> byte list \<Rightarrow> byte list \<Rightarrow> byte list" where
  "overwrite p ys xs = take p xs @ ys @ drop (p + length ys) xs"

lemma length_overwrite [simp]:
  "p + length ys \<le> length xs \<Longrightarrow> length (overwrite p ys xs) = length xs"
  by (simp add: overwrite_def)

lemma overwrite_Nil [simp]: "overwrite p [] xs = xs"
  by (simp add: overwrite_def)

lemma take_overwrite:
  "p \<le> length xs \<Longrightarrow> take (p + length ys) (overwrite p ys xs) = take p xs @ ys"
  by (simp add: overwrite_def)

lemma drop_overwrite:
  "p \<le> length xs \<Longrightarrow> q = p + length ys \<Longrightarrow> drop q (overwrite p ys xs) = drop q xs"
  by (simp add: overwrite_def)

text \<open>Writing a run of bytes and then the next one is writing their concatenation.\<close>

lemma overwrite_append:
  assumes "p + length ys + length zs \<le> length xs"
  shows "overwrite (p + length ys) zs (overwrite p ys xs) = overwrite p (ys @ zs) xs"
  using assms by (auto simp: overwrite_def ac_simps)

lemma overwrite_all: "length ys = length xs \<Longrightarrow> overwrite 0 ys xs = ys"
  by (simp add: overwrite_def)

lemma drop_take_split:
  "drop p xs = ys @ zs \<Longrightarrow> take (length ys) (drop p xs) = ys \<and> drop (p + length ys) xs = zs"
  by (metis add.commute append_eq_conv_conj drop_drop)

section \<open>Byte order\<close>

lemma ucast_up_down:
  "LENGTH('a) \<le> LENGTH('b) \<Longrightarrow> ucast (ucast (w::'a::len word) :: 'b::len word) = w"
  by (rule bit_eqI) (auto simp: bit_ucast_iff)

lemma unat_bound: "unat (w::'a::len word) < 2 ^ LENGTH('a)"
  by (rule unsigned_less)

lemma unat_word_of_nat: "n < 2 ^ LENGTH('a) \<Longrightarrow> unat (word_of_nat n :: 'a::len word) = n"
  by (simp add: unsigned_of_nat take_bit_nat_eq_self)

text \<open>
  The little-endian bytes of a word (how the supported hosts store a \<open>std::uintN_t\<close>), its
  big-endian bytes (how \<open>boost::endian::big_uintN_t\<close> stores it), and the words they are
  read back as.
\<close>

definition le_of_word :: "'a::len word \<Rightarrow> byte list" where
  "le_of_word w = map (\<lambda>i. ucast (drop_bit (8 * i) w)) [0..<LENGTH('a) div 8]"

fun word_of_le :: "byte list \<Rightarrow> 'a::len word" where
  "word_of_le [] = 0"
| "word_of_le (b # bs) = ucast b OR push_bit 8 (word_of_le bs)"

definition be_of_word :: "'a::len word \<Rightarrow> byte list" where
  "be_of_word w = rev (le_of_word w)"

definition word_of_be :: "byte list \<Rightarrow> 'a::len word" where
  "word_of_be bs = word_of_le (rev bs)"

lemma length_le_of_word [simp]: "length (le_of_word (w::'a::len word)) = LENGTH('a) div 8"
  by (simp add: le_of_word_def)

lemma length_be_of_word [simp]: "length (be_of_word (w::'a::len word)) = LENGTH('a) div 8"
  by (simp add: be_of_word_def)

lemma bit_word_of_le:
  "bit (word_of_le bs :: 'a::len word) n \<longleftrightarrow>
     n < LENGTH('a) \<and> n div 8 < length bs \<and> bit (bs ! (n div 8)) (n mod 8)"
proof (induction bs arbitrary: n)
  case Nil
  then show ?case by simp
next
  case (Cons b bs)
  show ?case
  proof (cases "n < 8")
    case True
    then show ?thesis
      by (auto simp: bit_or_iff bit_push_bit_iff bit_ucast_iff)
  next
    case False
    then have div: "n div 8 = Suc ((n - 8) div 8)" and "mod": "n mod 8 = (n - 8) mod 8"
      by (simp_all add: le_div_geq le_mod_geq)
    have nb: "\<not> bit b n"
      using False bit_imp_le_length [of b n] by auto
    show ?thesis
      using False Cons.IH [of "n - 8"] nb
      by (auto simp: bit_or_iff bit_push_bit_iff bit_ucast_iff div "mod" dest: bit_imp_le_length)
  qed
qed

lemma word_of_le_of_word:
  assumes "8 dvd LENGTH('a::len)"
  shows "word_of_le (le_of_word (w::'a word)) = w"
proof (rule bit_eqI)
  fix n
  assume n: "possible_bit TYPE('a word) n"
  then have lt: "n < LENGTH('a)" by simp
  with assms have "n div 8 < LENGTH('a) div 8"
    by (metis dvd_div_mult_self less_mult_imp_div_less)
  moreover have "8 * (n div 8) + n mod 8 = n" by simp
  ultimately show "bit (word_of_le (le_of_word w) :: 'a word) n = bit w n"
    using lt by (simp add: bit_word_of_le le_of_word_def bit_ucast_iff bit_drop_bit_eq)
qed

lemma le_of_word_of_le:
  assumes "length bs = LENGTH('a::len) div 8"
  shows "le_of_word (word_of_le bs :: 'a word) = bs"
proof (rule nth_equalityI)
  show "length (le_of_word (word_of_le bs :: 'a word)) = length bs"
    using assms by simp
  fix i
  assume i: "i < length (le_of_word (word_of_le bs :: 'a word))"
  show "le_of_word (word_of_le bs :: 'a word) ! i = bs ! i"
  proof (rule bit_eqI)
    fix n
    assume "possible_bit TYPE(8 word) n"
    then have n: "n < 8" by simp
    with i assms have "8 * i + n < LENGTH('a)" by simp
    moreover have "(8 * i + n) div 8 = i" "(8 * i + n) mod 8 = n"
      using n by simp_all
    ultimately show "bit (le_of_word (word_of_le bs :: 'a word) ! i) n = bit (bs ! i) n"
      using i assms n
      by (simp add: le_of_word_def bit_ucast_iff bit_drop_bit_eq bit_word_of_le)
  qed
qed

lemma word_of_be_of_word:
  "8 dvd LENGTH('a::len) \<Longrightarrow> word_of_be (be_of_word (w::'a word)) = w"
  by (simp add: word_of_be_def be_of_word_def word_of_le_of_word)

lemma be_of_word_of_be:
  "length bs = LENGTH('a::len) div 8 \<Longrightarrow> be_of_word (word_of_be bs :: 'a word) = bs"
  by (simp add: word_of_be_def be_of_word_def le_of_word_of_le)

lemma word_of_be_be [simp]:
  "word_of_be (be_of_word (a::byte)) = a"
  "word_of_be (be_of_word (b::u16)) = b"
  "word_of_be (be_of_word (c::u32)) = c"
  "word_of_be (be_of_word (d::u64)) = d"
  by (simp_all add: word_of_be_of_word)

lemma word_of_le_le [simp]:
  "word_of_le (le_of_word (a::byte)) = a"
  "word_of_le (le_of_word (b::u16)) = b"
  "word_of_le (le_of_word (c::u32)) = c"
  "word_of_le (le_of_word (d::u64)) = d"
  by (simp_all add: word_of_le_of_word)

section \<open>Randomness\<close>

text \<open>
  The bytes a call of the random generator returns are an argument of the operation that
  makes the call: an arbitrary infinite stream, of which the call takes what it needs.
\<close>

type_synonym rng = "nat \<Rightarrow> byte"

definition rand_bytes :: "rng \<Rightarrow> nat \<Rightarrow> byte list" where
  "rand_bytes r n = map r [0..<n]"

lemma length_rand_bytes [simp]: "length (rand_bytes r n) = n"
  by (simp add: rand_bytes_def)

lemma rand_bytes_0 [simp]: "rand_bytes r 0 = []"
  by (simp add: rand_bytes_def)

end
