(* ===== verification/Exceptions.thy ===== *)
theory Exceptions
  imports Prelude
begin

text \<open>
  The exception helper of \<open>src/exception/exception.h\<close>: a class name and a function name, and
  the two overloads of \<open>throw_ex\<close> that build the message of the standard exception thrown.
\<close>

record exception =
  class_str :: string
  func_str :: string

abbreviation Ex :: "string \<Rightarrow> string \<Rightarrow> exception" where
  "Ex c f \<equiv> \<lparr>class_str = c, func_str = f\<rparr>"

text \<open>
  The text of a Noise error: \<open>noise_strerror\<close> fills a buffer of 64 characters, which is cut
  after its first null character when it has one. No text when the error number is zero.
\<close>

definition noise_err_text :: "(int \<Rightarrow> string) \<Rightarrow> int \<Rightarrow> string" where
  "noise_err_text strerr err_n =
     (if err_n = 0 then []
      else (let b = strerr err_n; t = takeWhile (\<lambda>c. c \<noteq> CHR 0x00) b
            in if length t < length b then t @ [CHR 0x00] else b))"

definition throw_ex_err ::
  "(int \<Rightarrow> string) \<Rightarrow> exception \<Rightarrow> ex_kind \<Rightarrow> string \<Rightarrow> int \<Rightarrow> 'a result" where
  "throw_ex_err strerr ex k msg err_n =
     (let noise_err = noise_err_text strerr err_n
      in Inl (Throw k (class_str ex @ '': ''
           @ (if func_str ex = [] then [] else func_str ex @ '': '') @ msg
           @ (if noise_err = [] then [] else '': '' @ noise_err))))"

text \<open>The common call, with the default error number 0.\<close>

definition throw_ex :: "exception \<Rightarrow> ex_kind \<Rightarrow> string \<Rightarrow> 'a result" where
  "throw_ex ex k msg = throw_ex_err (\<lambda>_. []) ex k msg 0"

text \<open>The overload for C strings, where a null message is itself an error.\<close>

definition throw_ex_cstr :: "exception \<Rightarrow> ex_kind \<Rightarrow> string option \<Rightarrow> 'a result" where
  "throw_ex_cstr ex k msg =
     (case msg of None \<Rightarrow> throw_ex ex Invalid_argument ''null exception message.''
      | Some m \<Rightarrow> throw_ex ex k m)"

definition thrown :: "exception \<Rightarrow> ex_kind \<Rightarrow> string \<Rightarrow> failure" where
  "thrown ex k msg =
     Throw k (class_str ex @ '': '' @ (if func_str ex = [] then [] else func_str ex @ '': '') @ msg)"

lemma throw_ex_eq: "throw_ex ex k msg = Inl (thrown ex k msg)"
  by (simp add: throw_ex_def throw_ex_err_def noise_err_text_def thrown_def)

lemma throw_ex_not_Inr [simp]: "throw_ex ex k msg \<noteq> Inr y" "Inr y \<noteq> throw_ex ex k msg"
  by (simp_all add: throw_ex_eq)

lemma bindr_throw_ex [simp]: "bindr (throw_ex ex k msg) f = throw_ex ex k msg"
  by (simp add: throw_ex_eq)

lemma is_ub_throw_ex [simp]: "\<not> is_ub (throw_ex ex k msg)"
  by (simp add: throw_ex_eq thrown_def)

lemma throw_ex_err_kind:
  "\<exists>t. throw_ex_err strerr ex k msg n = Inl (Throw k t)"
  by (simp add: throw_ex_err_def Let_def)

end
