(* ===== verification/Bytes.thy ===== *)
theory Bytes
  imports Exceptions
begin

text \<open>
  The buffer cursor of \<open>src/bytes.h\<close>: the base class \<open>Bytes\<close>, its reader \<open>BytesReader\<close> and
  its writer \<open>BytesWriter\<close>. The iterators of the class are positions: \<open>cbegin_\<close>/\<open>begin_\<close> is
  position 0, \<open>cend_\<close>/\<open>end_\<close> the length of the buffer, \<open>cpos_\<close>/\<open>pos_\<close> the field \<open>spos\<close>.
  The class keeps the two triples apart only for constness; both branches of each method do
  the same, so one record stands for a reader and for a writer. A writer's buffer is the
  buffer it was created on, read back from \<open>sbuf\<close> when the writer is done.
\<close>

record bytes =
  sbuf :: "byte list"
  spos :: nat

text \<open>The constructors: a cursor at the beginning of a buffer.\<close>

definition bytes_on :: "byte list \<Rightarrow> bytes" where
  "bytes_on b = \<lparr>sbuf = b, spos = 0\<rparr>"

section \<open>Raw access through an iterator\<close>

text \<open>
  The free functions \<open>read_bytes\<close> and \<open>write_bytes\<close>. An iterator is the list of the bytes
  from it to the end of its buffer, or \<open>None\<close> for the null iterator. Bounds checking is the
  caller's: past the end of the buffer the copy is undefined.
\<close>

definition raw_read_bytes :: "nat \<Rightarrow> byte list option \<Rightarrow> byte list result" where
  "raw_read_bytes n it =
     (case it of
        None \<Rightarrow> throw_ex (Ex ''Bytes'' ''read_bytes'') Invalid_argument ''invalid iterator.''
      | Some bs \<Rightarrow> if n \<le> length bs then Inr (take n bs)
                   else Inl (Undefined_behaviour ''read past the end of the buffer''))"

definition raw_write_bytes :: "byte list \<Rightarrow> byte list option \<Rightarrow> byte list result" where
  "raw_write_bytes ys it =
     (case it of
        None \<Rightarrow> throw_ex (Ex ''Bytes'' ''write_bytes'') Invalid_argument ''invalid iterator.''
      | Some bs \<Rightarrow> if length ys \<le> length bs then Inr (ys @ drop (length ys) bs)
                   else Inl (Undefined_behaviour ''write past the end of the buffer''))"

section \<open>The cursor\<close>

text \<open>The pointer to the data of the buffer: null for an empty one.\<close>

definition data_ptr :: "bytes \<Rightarrow> byte list option" where
  "data_ptr s = (if sbuf s = [] then None else Some (sbuf s))"

text \<open>The iterator at the current position.\<close>

definition pos_it :: "bytes \<Rightarrow> byte list option" where
  "pos_it s = (if sbuf s = [] then None else Some (drop (spos s) (sbuf s)))"

definition count :: "bytes \<Rightarrow> nat" where
  "count s = spos s"

definition gcount :: "bytes \<Rightarrow> nat" where
  "gcount s = length (sbuf s) - spos s"

definition bytes_size :: "bytes \<Rightarrow> nat" where
  "bytes_size s = length (sbuf s)"

definition reset :: "bytes \<Rightarrow> bytes" where
  "reset s = s\<lparr>spos := 0\<rparr>"

definition check_buf :: "nat \<Rightarrow> exception \<Rightarrow> bytes \<Rightarrow> unit result" where
  "check_buf n ex s =
     (if spos s + n > length (sbuf s)
      then throw_ex ex Runtime_error ''param overflows buffer.'' else Inr ())"

definition advance :: "nat \<Rightarrow> exception \<Rightarrow> bytes \<Rightarrow> bytes result" where
  "advance n ex s =
     (if spos s + n > length (sbuf s)
      then throw_ex ex Length_error ''position overflows buffer.''
      else Inr (s\<lparr>spos := spos s + n\<rparr>))"

definition regress :: "nat \<Rightarrow> exception \<Rightarrow> bytes \<Rightarrow> bytes result" where
  "regress n ex s =
     (if int (spos s) - int n < 0
      then throw_ex ex Length_error ''position underflows buffer.''
      else Inr (s\<lparr>spos := spos s - n\<rparr>))"

definition skip_bytes :: "nat \<Rightarrow> bytes \<Rightarrow> bytes result" where
  "skip_bytes n s = advance n (Ex ''Bytes'' ''skip_bytes'') s"

definition skip_back :: "nat \<Rightarrow> bytes \<Rightarrow> bytes result" where
  "skip_back n s = regress n (Ex ''Bytes'' ''skip_back'') s"

section \<open>Reader and writer\<close>

text \<open>
  \<open>read_data\<close> fills a buffer of a given size; \<open>read_bytes\<close> fills an integer of a given width
  (the object representation, whose byte order the caller's type decides: see \<open>read_be\<close> and
  \<open>read_le\<close>). The writer's methods are their mirror images.
\<close>

definition read_data :: "nat \<Rightarrow> bytes \<Rightarrow> (byte list \<times> bytes) result" where
  "read_data n s =
     (let ex = Ex ''ReadBytes'' ''read_data'' in
      bindr (check_buf n ex s) (\<lambda>_.
      let bs = take n (drop (spos s) (sbuf s)) in
      bindr (advance n ex s) (\<lambda>s'. Inr (bs, s'))))"

definition read_bytes :: "nat \<Rightarrow> bytes \<Rightarrow> (byte list \<times> bytes) result" where
  "read_bytes n s =
     (let ex = Ex ''ReadBytes'' ''read_bytes'' in
      bindr (check_buf n ex s) (\<lambda>_.
      bindr (raw_read_bytes n (pos_it s)) (\<lambda>bs.
      bindr (advance n ex s) (\<lambda>s'. Inr (bs, s')))))"

definition write_data :: "byte list \<Rightarrow> bytes \<Rightarrow> bytes result" where
  "write_data ys s =
     (let ex = Ex ''WriteBytes'' ''write_data'' in
      bindr (check_buf (length ys) ex s) (\<lambda>_.
      advance (length ys) ex (s\<lparr>sbuf := overwrite (spos s) ys (sbuf s)\<rparr>)))"

definition write_bytes :: "byte list \<Rightarrow> bytes \<Rightarrow> bytes result" where
  "write_bytes ys s =
     (let ex = Ex ''WriteBytes'' ''write_bytes'' in
      bindr (check_buf (length ys) ex s) (\<lambda>_.
      bindr (raw_write_bytes ys (pos_it s)) (\<lambda>bs.
      advance (length ys) ex (s\<lparr>sbuf := take (spos s) (sbuf s) @ bs\<rparr>))))"

text \<open>Integers: \<open>big_uintN_t\<close> fields are big-endian, plain ones in the host's order.\<close>

definition read_be :: "bytes \<Rightarrow> ('a::len word \<times> bytes) result" where
  "read_be s = bindr (read_bytes (LENGTH('a) div 8) s) (\<lambda>(bs, s'). Inr (word_of_be bs, s'))"

definition read_le :: "bytes \<Rightarrow> ('a::len word \<times> bytes) result" where
  "read_le s = bindr (read_bytes (LENGTH('a) div 8) s) (\<lambda>(bs, s'). Inr (word_of_le bs, s'))"

definition write_be :: "'a::len word \<Rightarrow> bytes \<Rightarrow> bytes result" where
  "write_be w s = write_bytes (be_of_word w) s"

definition write_le :: "'a::len word \<Rightarrow> bytes \<Rightarrow> bytes result" where
  "write_le w s = write_bytes (le_of_word w) s"

section \<open>Canonical cursors\<close>

text \<open>
  A reader that has consumed \<open>pre\<close> and has \<open>rest\<close> before it, and a writer that has filled
  the front of the buffer \<open>b\<close> with \<open>ys\<close>. Every composite operation of the development is
  evaluated on these two forms.
\<close>

definition reading :: "byte list \<Rightarrow> byte list \<Rightarrow> bytes" where
  "reading pre rest = \<lparr>sbuf = pre @ rest, spos = length pre\<rparr>"

definition written :: "byte list \<Rightarrow> byte list \<Rightarrow> bytes" where
  "written ys b = \<lparr>sbuf = overwrite 0 ys b, spos = length ys\<rparr>"

lemma bytes_on_reading [bytes_simps]: "bytes_on b = reading [] b"
  by (simp add: bytes_on_def reading_def)

lemma bytes_on_written: "bytes_on b = written [] b"
  by (simp add: bytes_on_def written_def)

lemma reading_sel [bytes_simps]:
  "spos (reading pre rest) = length pre"
  "sbuf (reading pre rest) = pre @ rest"
  "count (reading pre rest) = length pre"
  "gcount (reading pre rest) = length rest"
  "bytes_size (reading pre rest) = length pre + length rest"
  by (simp_all add: reading_def count_def gcount_def bytes_size_def)

lemma written_sel [bytes_simps]:
  "spos (written ys b) = length ys"
  "count (written ys b) = length ys"
  "sbuf (written ys b) = ys @ drop (length ys) b"
  by (simp_all add: written_def count_def overwrite_def)

lemma be_of_byte [simp]: "be_of_word (b::byte) = [b]"
  by (simp add: be_of_word_def le_of_word_def)

lemma le_of_byte [simp]: "le_of_word (b::byte) = [b]"
  by (simp add: le_of_word_def)

lemma word_of_byte [simp]: "word_of_be [b] = (b::byte)" "word_of_le [b] = (b::byte)"
  by (simp_all add: word_of_be_def)

lemma check_buf_reading [bytes_simps]:
  "check_buf n ex (reading pre rest) =
     (if length rest < n then throw_ex ex Runtime_error ''param overflows buffer.'' else Inr ())"
  by (simp add: check_buf_def reading_def)

lemma advance_reading [bytes_simps]:
  "advance n ex (reading pre rest) =
     (if length rest < n then throw_ex ex Length_error ''position overflows buffer.''
      else Inr (reading (pre @ take n rest) (drop n rest)))"
  by (simp add: advance_def reading_def)

lemma skip_bytes_reading [bytes_simps]:
  "skip_bytes n (reading pre rest) =
     (if length rest < n
      then throw_ex (Ex ''Bytes'' ''skip_bytes'') Length_error ''position overflows buffer.''
      else Inr (reading (pre @ take n rest) (drop n rest)))"
  by (simp add: skip_bytes_def advance_reading)

lemma skip_back_reading [bytes_simps]:
  "skip_back n (reading pre rest) =
     (if length pre < n
      then throw_ex (Ex ''Bytes'' ''skip_back'') Length_error ''position underflows buffer.''
      else Inr (reading (take (length pre - n) pre) (drop (length pre - n) pre @ rest)))"
  by (auto simp: skip_back_def regress_def reading_def)

lemma read_data_reading [bytes_simps]:
  "read_data n (reading pre rest) =
     (if length rest < n
      then throw_ex (Ex ''ReadBytes'' ''read_data'') Runtime_error ''param overflows buffer.''
      else Inr (take n rest, reading (pre @ take n rest) (drop n rest)))"
  by (simp add: read_data_def check_buf_reading advance_reading reading_sel Let_def)

lemma read_bytes_reading [bytes_simps]:
  "0 < n \<Longrightarrow> read_bytes n (reading pre rest) =
     (if length rest < n
      then throw_ex (Ex ''ReadBytes'' ''read_bytes'') Runtime_error ''param overflows buffer.''
      else Inr (take n rest, reading (pre @ take n rest) (drop n rest)))"
  by (auto simp: read_bytes_def check_buf_reading advance_reading pos_it_def raw_read_bytes_def
        reading_sel)

lemma read_be_reading [bytes_simps]:
  "0 < LENGTH('a::len) div 8 \<Longrightarrow> (read_be (reading pre rest) :: ('a word \<times> bytes) result) =
     (let n = LENGTH('a) div 8 in
      if length rest < n
      then throw_ex (Ex ''ReadBytes'' ''read_bytes'') Runtime_error ''param overflows buffer.''
      else Inr (word_of_be (take n rest), reading (pre @ take n rest) (drop n rest)))"
  by (simp add: read_be_def read_bytes_reading Let_def)

lemma read_le_reading [bytes_simps]:
  "0 < LENGTH('a::len) div 8 \<Longrightarrow> (read_le (reading pre rest) :: ('a word \<times> bytes) result) =
     (let n = LENGTH('a) div 8 in
      if length rest < n
      then throw_ex (Ex ''ReadBytes'' ''read_bytes'') Runtime_error ''param overflows buffer.''
      else Inr (word_of_le (take n rest), reading (pre @ take n rest) (drop n rest)))"
  by (simp add: read_le_def read_bytes_reading Let_def)

lemma write_data_written [bytes_simps]:
  "write_data zs (written ys b) =
     (if length (overwrite 0 ys b) < length ys + length zs
      then throw_ex (Ex ''WriteBytes'' ''write_data'') Runtime_error ''param overflows buffer.''
      else Inr (written (ys @ zs) b))"
proof (cases "length (overwrite 0 ys b) < length ys + length zs")
  case False
  then have fits: "length ys + length zs \<le> length b \<or> zs = []"
    by (cases zs) (auto simp: overwrite_def)
  then have "overwrite (length ys) zs (overwrite 0 ys b) = overwrite 0 (ys @ zs) b"
    using overwrite_append [of 0 ys zs b] by auto
  then show ?thesis
    using False fits
    by (auto simp: write_data_def check_buf_def advance_def written_def overwrite_def)
qed (simp add: write_data_def check_buf_def written_def)

lemma write_bytes_eq_write_data:
  "zs \<noteq> [] \<Longrightarrow> spos s + length zs \<le> length (sbuf s) \<Longrightarrow> write_bytes zs s = write_data zs s"
  by (auto simp: write_bytes_def write_data_def check_buf_def pos_it_def raw_write_bytes_def
        overwrite_def advance_def add.commute)

lemma write_bytes_written [bytes_simps]:
  assumes "zs \<noteq> []"
  shows "write_bytes zs (written ys b) =
     (if length (overwrite 0 ys b) < length ys + length zs
      then throw_ex (Ex ''WriteBytes'' ''write_bytes'') Runtime_error ''param overflows buffer.''
      else Inr (written (ys @ zs) b))"
proof (cases "length (overwrite 0 ys b) < length ys + length zs")
  case True
  then show ?thesis by (simp add: write_bytes_def check_buf_def written_def)
next
  case False
  then have "write_bytes zs (written ys b) = write_data zs (written ys b)"
    using assms by (intro write_bytes_eq_write_data) (simp_all add: written_def)
  with False show ?thesis by (simp add: write_data_written)
qed

lemma length_overwrite_0: "length (overwrite 0 ys b) = max (length ys) (length b)"
  by (simp add: overwrite_def max_def)

text \<open>The forms the proofs of the serializers use: a buffer with room enough.\<close>

lemma write_data_fits [bytes_simps]:
  "length ys + length zs \<le> length b \<Longrightarrow> write_data zs (written ys b) = Inr (written (ys @ zs) b)"
  by (simp add: write_data_written length_overwrite_0)

lemma write_be_fits [bytes_simps]:
  "8 \<le> LENGTH('a::len) \<Longrightarrow> length ys + LENGTH('a) div 8 \<le> length b \<Longrightarrow>
     write_be (w::'a word) (written ys b) = Inr (written (ys @ be_of_word w) b)"
  by (simp add: write_be_def write_bytes_written length_overwrite_0 be_of_word_def le_of_word_def
        div_greater_zero_iff)

lemma write_le_fits [bytes_simps]:
  "8 \<le> LENGTH('a::len) \<Longrightarrow> length ys + LENGTH('a) div 8 \<le> length b \<Longrightarrow>
     write_le (w::'a word) (written ys b) = Inr (written (ys @ le_of_word w) b)"
  by (simp add: write_le_def write_bytes_written length_overwrite_0 le_of_word_def
        div_greater_zero_iff)

section \<open>Safety of the cursor\<close>

text \<open>
  The position never leaves the buffer: every method either throws or keeps \<open>stream_ok\<close>,
  and none of them reads or writes outside the buffer.
\<close>

definition stream_ok :: "bytes \<Rightarrow> bool" where
  "stream_ok s \<longleftrightarrow> spos s \<le> length (sbuf s)"

datatype stream_op =
    Skip nat | Back nat | Reset | ReadData nat | ReadInt nat
  | WriteData "byte list" | WriteInt "byte list"

fun stream_step :: "stream_op \<Rightarrow> bytes \<Rightarrow> bytes result" where
  "stream_step (Skip n) s = skip_bytes n s"
| "stream_step (Back n) s = skip_back n s"
| "stream_step Reset s = Inr (reset s)"
| "stream_step (ReadData n) s = bindr (read_data n s) (\<lambda>(_, s'). Inr s')"
| "stream_step (ReadInt n) s = bindr (read_bytes n s) (\<lambda>(_, s'). Inr s')"
| "stream_step (WriteData ys) s = write_data ys s"
| "stream_step (WriteInt ys) s = write_bytes ys s"

fun stream_steps :: "stream_op list \<Rightarrow> bytes \<Rightarrow> bytes result" where
  "stream_steps [] s = Inr s"
| "stream_steps (x # xs) s = bindr (stream_step x s) (stream_steps xs)"

lemma stream_step_ok:
  "stream_ok s \<Longrightarrow> stream_step x s = Inr s' \<Longrightarrow>
     stream_ok s' \<and> length (sbuf s') = length (sbuf s)"
  by (cases x)
    (auto simp: stream_ok_def skip_bytes_def skip_back_def advance_def regress_def reset_def
      read_data_def read_bytes_def write_data_def write_bytes_def check_buf_def Let_def
      raw_write_bytes_def pos_it_def result_simps split: if_splits option.splits)

lemma stream_step_safe:
  assumes "stream_ok s" and "\<And>n. x = ReadInt n \<Longrightarrow> 0 < n" and "\<And>ys. x = WriteInt ys \<Longrightarrow> ys \<noteq> []"
  shows "\<not> is_ub (stream_step x s)"
  using assms
  by (cases x)
    (auto simp: stream_ok_def skip_bytes_def skip_back_def advance_def regress_def reset_def
      read_data_def read_bytes_def write_data_def write_bytes_def check_buf_def Let_def pos_it_def
      raw_read_bytes_def raw_write_bytes_def result_simps split: if_splits)

section \<open>Integer fields\<close>

text \<open>
  What a component relies on when it writes an integer field and another reads it: a width,
  an encoding of that width, a writer that appends it and a reader that takes it off again.
  The four integer types, in either byte order, are the instances.
\<close>

locale int_field =
  fixes enc :: "'a \<Rightarrow> byte list"
    and put :: "'a \<Rightarrow> bytes \<Rightarrow> bytes result"
    and get :: "bytes \<Rightarrow> ('a \<times> bytes) result"
    and width :: nat
  assumes enc_length: "length (enc x) = width"
    and put_written: "length ys + width \<le> length b \<Longrightarrow> put x (written ys b) = Inr (written (ys @ enc x) b)"
    and get_reading: "get (reading pre (enc x @ rest)) = Inr (x, reading (pre @ enc x) rest)"
    and get_short: "length rest < width \<Longrightarrow>
      get (reading pre rest) =
        throw_ex (Ex ''ReadBytes'' ''read_bytes'') Runtime_error ''param overflows buffer.''"
begin

lemma enc_inject: "enc x = enc y \<Longrightarrow> x = y"
  using get_reading [of "[]" x "[]"] get_reading [of "[]" y "[]"] by simp

lemma put_get:
  assumes "width \<le> length b"
  shows "\<exists>s'. put x (bytes_on b) = Inr s' \<and> length (sbuf s') = length b
     \<and> get (bytes_on (sbuf s')) = Inr (x, reading (enc x) (drop width b))"
  using assms put_written [of "[]" b x] get_reading [of "[]" x "drop width b"]
  by (simp add: bytes_on_written written_sel enc_length)
    (simp add: bytes_on_written [symmetric] bytes_on_reading)

end

lemma get_be_append:
  fixes w :: "'a::len word"
  assumes "8 dvd LENGTH('a)"
  shows "read_be (reading pre (be_of_word w @ rest)) = Inr (w, reading (pre @ be_of_word w) rest)"
proof -
  have "0 < LENGTH('a) div 8"
    using assms by (metis dvd_div_eq_0_iff len_not_eq_0 neq0_conv)
  then show ?thesis
    using assms by (simp add: read_be_reading Let_def word_of_be_of_word)
qed

lemma get_le_append:
  fixes w :: "'a::len word"
  assumes "8 dvd LENGTH('a)"
  shows "read_le (reading pre (le_of_word w @ rest)) = Inr (w, reading (pre @ le_of_word w) rest)"
proof -
  have "0 < LENGTH('a) div 8"
    using assms by (metis dvd_div_eq_0_iff len_not_eq_0 neq0_conv)
  then show ?thesis
    using assms by (simp add: read_le_reading Let_def word_of_le_of_word)
qed

interpretation be8: int_field "be_of_word :: byte \<Rightarrow> _" write_be read_be 1
  by unfold_locales (simp_all add: bytes_simps get_be_append Let_def del: be_of_byte)

interpretation be16: int_field "be_of_word :: u16 \<Rightarrow> _" write_be read_be 2
  by unfold_locales (simp_all add: bytes_simps get_be_append Let_def)

interpretation be32: int_field "be_of_word :: u32 \<Rightarrow> _" write_be read_be 4
  by unfold_locales (simp_all add: bytes_simps get_be_append Let_def)

interpretation be64: int_field "be_of_word :: u64 \<Rightarrow> _" write_be read_be 8
  by unfold_locales (simp_all add: bytes_simps get_be_append Let_def)

interpretation le16: int_field "le_of_word :: u16 \<Rightarrow> _" write_le read_le 2
  by unfold_locales (simp_all add: bytes_simps get_le_append Let_def)

interpretation le64: int_field "le_of_word :: u64 \<Rightarrow> _" write_le read_le 8
  by unfold_locales (simp_all add: bytes_simps get_le_append Let_def)

lemma get_byte_Cons: "read_be (reading pre (b # rest)) = Inr (b::byte, reading (pre @ [b]) rest)"
  using be8.get_reading [of pre b rest] by simp

lemmas field_get = be16.get_reading be32.get_reading be64.get_reading
  le16.get_reading le64.get_reading get_byte_Cons

lemmas field_short = be8.get_short be16.get_short be32.get_short be64.get_short
  le16.get_short le64.get_short

end
