(* ===== verification/SecBytes.thy ===== *)
theory SecBytes
  imports Bytes
begin

text \<open>
  The secure buffers of \<open>src/crypto/sec_bytes.h\<close> and the fixed-size key and signature classes
  over them (\<open>src/crypto/keys.h\<close>, \<open>src/crypto/signature.h\<close>). A \<open>SecBytes\<close> is its list of bytes;
  a \<open>FixedSecBytes<N>\<close> (and a \<open>Key<N>\<close>, a \<open>Signature<N>\<close>) a list of length N, which the
  constructors below establish.
\<close>

section \<open>Variable size: SecBytes\<close>

definition sec_zero :: "byte list \<Rightarrow> byte list" where
  "sec_zero b = replicate (length b) 0"

definition sec_clear :: "byte list \<Rightarrow> byte list" where
  "sec_clear b = []"

definition sec_front :: "byte list \<Rightarrow> byte result" where
  "sec_front b = (case b of [] \<Rightarrow> Inl (Undefined_behaviour ''front of an empty buffer'')
                  | x # _ \<Rightarrow> Inr x)"

text \<open>
  Indexing: the guard of the source is \<open>idx > size\<close>, so the index one past the end passes
  it and reaches the unchecked subscript of the underlying buffer.
\<close>

definition sec_index :: "byte list \<Rightarrow> nat \<Rightarrow> byte result" where
  "sec_index b idx =
     (if idx > length b
      then throw_ex (Ex ''SecBytes'' ''operator[]'') Invalid_argument ''out-of-bounds access.''
      else if idx = length b then Inl (Undefined_behaviour ''subscript past the end'')
      else Inr (b ! idx))"

definition sec_resize :: "nat \<Rightarrow> byte list \<Rightarrow> byte list" where
  "sec_resize n b = resize n b"

text \<open>
  Constructors of a given size: zero bytes, copies of one byte, the bytes at a pointer
  (\<open>std::copy_n\<close>, undefined when fewer than \<open>size\<close> bytes are there).
\<close>

definition sec_of_size :: "nat \<Rightarrow> byte list" where
  "sec_of_size n = replicate n 0"

definition sec_fill :: "nat \<Rightarrow> byte \<Rightarrow> byte list" where
  "sec_fill n v = replicate n v"

definition sec_of_ptr :: "byte list \<Rightarrow> nat \<Rightarrow> byte list result" where
  "sec_of_ptr data n =
     (if n \<le> length data then Inr (overwrite 0 (take n data) (sec_of_size n))
      else Inl (Undefined_behaviour ''copy past the end of the input''))"

text \<open>
  Inserting a range: the range must not be empty, and the position (an offset from the
  beginning of the buffer) must lie in the buffer or at its end.
\<close>

definition sec_insert :: "int \<Rightarrow> byte list \<Rightarrow> byte list \<Rightarrow> byte list result" where
  "sec_insert p ys b =
     (let ex = Ex ''SecBytes'' ''insert'' in
      if length ys \<le> 0 then throw_ex ex Invalid_argument ''invalid range.''
      else if p < 0 \<or> p > int (length b)
      then throw_ex ex Invalid_argument ''invalid starting position.''
      else Inr (take (nat p) b @ ys @ drop (nat p) b))"

text \<open>
  \<open>std::equal\<close> with three iterators: it compares every byte of the first buffer with the
  byte at the same place of the second, stops at the first difference, and runs past the end
  of a second buffer that is a proper prefix of the first.
\<close>

fun std_equal3 :: "byte list \<Rightarrow> byte list \<Rightarrow> bool result" where
  "std_equal3 [] ys = Inr True"
| "std_equal3 (x # xs) [] = Inl (Undefined_behaviour ''comparison past the end'')"
| "std_equal3 (x # xs) (y # ys) = (if x = y then std_equal3 xs ys else Inr False)"

definition sec_eq :: "byte list \<Rightarrow> byte list \<Rightarrow> bool result" where
  "sec_eq a b = std_equal3 a b"

definition sec_neq :: "byte list \<Rightarrow> byte list \<Rightarrow> bool result" where
  "sec_neq a b = bindr (sec_eq a b) (\<lambda>e. Inr (\<not> e))"

section \<open>Fixed size: FixedSecBytes, Key, Signature\<close>

definition fixed_default :: "nat \<Rightarrow> byte list" where
  "fixed_default N = replicate N 0"

definition fixed_of_ptr :: "nat \<Rightarrow> byte list option \<Rightarrow> nat \<Rightarrow> byte list result" where
  "fixed_of_ptr N data sz =
     (case data of
        None \<Rightarrow> throw_ex (Ex ''FixedSecBytes'' []) Invalid_argument ''null input.''
      | Some bs \<Rightarrow>
         if sz = 0 then throw_ex (Ex ''FixedSecBytes'' []) Invalid_argument ''null input.''
         else (let n = (if sz > N then N else sz) in
               if n \<le> length bs then Inr (overwrite 0 (take n bs) (fixed_default N))
               else Inl (Undefined_behaviour ''copy past the end of the input'')))"

text \<open>From an iterator range, given as the bytes between the iterators.\<close>

definition fixed_of_range :: "nat \<Rightarrow> byte list \<Rightarrow> byte list" where
  "fixed_of_range N bs =
     (if length bs > N then overwrite 0 (take N bs) (fixed_default N)
      else overwrite 0 bs (fixed_default N))"

definition fixed_of_init :: "nat \<Rightarrow> byte list \<Rightarrow> byte list result" where
  "fixed_of_init N bs =
     (if length bs > N
      then throw_ex (Ex ''FixedSecBytes'' []) Invalid_argument ''invalid initializer list size.''
      else Inr (overwrite 0 bs (fixed_default N)))"

definition fixed_of_sec :: "nat \<Rightarrow> byte list \<Rightarrow> byte list" where
  "fixed_of_sec N bs =
     (if length bs > N then overwrite 0 (take N bs) (fixed_default N)
      else overwrite 0 bs (fixed_default N))"

definition fixed_eq :: "byte list \<Rightarrow> byte list \<Rightarrow> bool result" where
  "fixed_eq a b = std_equal3 a b"

definition key_eq :: "byte list \<Rightarrow> byte list \<Rightarrow> bool result" where
  "key_eq a b = std_equal3 a b"

text \<open>
  \<open>KeyHasher\<close>: the hashes of the bytes, each shifted left by its index, XORed together in a
  64-bit \<open>std::size_t\<close>. The hash of a byte is the standard library's.
\<close>

fun key_hash_from :: "(byte \<Rightarrow> u64) \<Rightarrow> nat \<Rightarrow> u64 \<Rightarrow> byte list \<Rightarrow> u64" where
  "key_hash_from h i s [] = s"
| "key_hash_from h i s (kb # k) = key_hash_from h (Suc i) (s XOR push_bit i (h kb)) k"

definition key_hash :: "(byte \<Rightarrow> u64) \<Rightarrow> byte list \<Rightarrow> u64" where
  "key_hash h k = key_hash_from h 0 0 k"

section \<open>Facts\<close>

lemma overwrite_zeros: "length bs \<le> n \<Longrightarrow> overwrite 0 bs (replicate n 0) = resize n bs"
  by (simp add: overwrite_def resize_def)

lemma fixed_of_sec_eq: "fixed_of_sec N bs = resize N bs"
  by (simp add: fixed_of_sec_def fixed_default_def overwrite_zeros) (simp add: resize_def overwrite_def)

lemma fixed_of_range_eq: "fixed_of_range N bs = resize N bs"
  using fixed_of_sec_eq [of N bs] by (simp add: fixed_of_range_def fixed_of_sec_def)

lemma length_fixed:
  "length (fixed_default N) = N"
  "length (fixed_of_sec N bs) = N"
  "length (fixed_of_range N bs) = N"
  "fixed_of_init N bs = Inr x \<Longrightarrow> length x = N"
  "fixed_of_ptr N d n = Inr x \<Longrightarrow> length x = N"
  by (auto simp: fixed_default_def fixed_of_sec_eq fixed_of_range_eq fixed_of_init_def
      fixed_of_ptr_def Let_def split: if_splits option.splits)

lemma sec_of_ptr_all: "sec_of_ptr bs (length bs) = Inr bs"
  by (simp add: sec_of_ptr_def sec_of_size_def overwrite_all)

lemma sec_insert_front: "bs \<noteq> [] \<Longrightarrow> sec_insert 0 bs b = Inr (bs @ b)"
  by (simp add: sec_insert_def)

lemma sec_insert_empty:
  "sec_insert p [] b = throw_ex (Ex ''SecBytes'' ''insert'') Invalid_argument ''invalid range.''"
  by (simp add: sec_insert_def)

lemma length_sec_insert: "sec_insert p ys b = Inr c \<Longrightarrow> length c = length ys + length b"
  by (auto simp: sec_insert_def Let_def split: if_splits)

lemma std_equal3_same_length:
  "length a = length b \<Longrightarrow> std_equal3 a b = Inr (a = b)"
  by (induction a b rule: std_equal3.induct) auto

lemma std_equal3_True_iff: "std_equal3 a b = Inr True \<longleftrightarrow> (\<exists>zs. b = a @ zs)"
  by (induction a b rule: std_equal3.induct) auto

lemma std_equal3_ub_iff: "is_ub (std_equal3 a b) \<longleftrightarrow> (\<exists>z zs. a = b @ z # zs)"
  by (induction a b rule: std_equal3.induct) auto

lemma key_eq_iff: "length a = length b \<Longrightarrow> key_eq a b = Inr (a = b)"
  by (simp add: key_eq_def std_equal3_same_length)

lemma sec_index_in: "i < length b \<Longrightarrow> sec_index b i = Inr (b ! i)"
  by (simp add: sec_index_def)

lemma sec_index_ub_iff: "is_ub (sec_index b i) \<longleftrightarrow> i = length b"
  by (simp add: sec_index_def)

lemma key_hash_from_xor: "key_hash_from h i s k = s XOR key_hash_from h i 0 k"
proof (induction k arbitrary: i s)
  case (Cons b k)
  show ?case
    using Cons.IH [of "Suc i" "s XOR push_bit i (h b)"] Cons.IH [of "Suc i" "push_bit i (h b)"]
    by (simp add: xor.assoc)
qed simp

end
