(* ===== verification/Hkdf.thy ===== *)
theory Hkdf
  imports SecBytes
begin

text \<open>
  Key derivation: the context of \<open>src/crypto/kdf_context.h\<close>, the two hashers a derivation can
  be instantiated with (\<open>HmacSha256\<close> of \<open>src/crypto/sha.h\<close>, \<open>Blake2b\<close> of
  \<open>src/crypto/blake.h\<close>), and HKDF (\<open>src/crypto/hkdf.h\<close>). The hash primitives themselves are
  libsodium's, and arguments of the model.
\<close>

section \<open>Hashers\<close>

text \<open>
  What \<open>HKDF\<close> uses of its template parameter: the constants, the hash of the extraction step
  (input key material, salt) and the hash of the expansion rounds (data, pseudo-random key).
\<close>

record hasher =
  DigestLen :: nat
  SaltLen :: nat
  MinKeyMaterialLen :: nat
  MaxKeyMaterialLen :: nat
  DefaultContextLen :: nat
  MaxContextLen :: nat
  hash_extract :: "byte list \<Rightarrow> byte list \<Rightarrow> byte list result"
  hash_expand :: "byte list \<Rightarrow> byte list \<Rightarrow> byte list result"

text \<open>\<open>crypto_auth_hmacsha256\<close>: the digest of an input under a key.\<close>

definition HmacSha256 :: "(byte list \<Rightarrow> byte list \<Rightarrow> byte list) \<Rightarrow> hasher" where
  "HmacSha256 hmac = \<lparr>DigestLen = 32, SaltLen = 32, MinKeyMaterialLen = 32,
     MaxKeyMaterialLen = 32 * 16, DefaultContextLen = 8, MaxContextLen = 16,
     hash_extract = (\<lambda>inp salt. Inr (hmac inp salt)),
     hash_expand = (\<lambda>data prk. Inr (hmac data prk))\<rparr>"

text \<open>
  Blake2b with a key, a salt and a personalisation: libsodium reads exactly 16 bytes of each of
  the last two from the pointers it is given, whatever the size of the buffers. An absent
  message is hashed as \<open>DigestLen\<close> zero bytes.
\<close>

type_synonym blake2b_prim = "nat \<Rightarrow> byte list \<Rightarrow> byte list \<Rightarrow> byte list \<Rightarrow> byte list \<Rightarrow> byte list"

definition blake2b_hash ::
  "blake2b_prim \<Rightarrow> nat \<Rightarrow> byte list option \<Rightarrow> byte list \<Rightarrow> byte list \<Rightarrow> byte list \<Rightarrow> byte list result" where
  "blake2b_hash blake ko_size data key_in salt ctx =
     (if ko_size < 16 \<or> ko_size > 64
      then throw_ex (Ex ''Blake2b'' '''') Invalid_argument ''invalid output key length.''
      else if length salt < 16 \<or> length ctx < 16
      then Inl (Undefined_behaviour ''salt or personalisation shorter than 16 bytes'')
      else Inr (blake ko_size key_in (take 16 salt) (take 16 ctx)
             (case data of None \<Rightarrow> replicate 32 0 | Some d \<Rightarrow> if d = [] then replicate 32 0 else d)))"

section \<open>KDFContext\<close>

definition context_default :: "hasher \<Rightarrow> byte list" where
  "context_default H = replicate (DefaultContextLen H) 0"

definition context_of :: "hasher \<Rightarrow> byte list \<Rightarrow> byte list" where
  "context_of H info =
     (if length info \<le> MaxContextLen H then resize (length info) info
      else take (MaxContextLen H) info)"

text \<open>
  The Blake2b instance: the extraction step hashes no data under the input key material, both
  steps with the hash's own default context and the expansion with the default (zero) salt.
\<close>

definition Blake2b :: "blake2b_prim \<Rightarrow> hasher" where
  "Blake2b blake = \<lparr>DigestLen = 32, SaltLen = 16, MinKeyMaterialLen = 32,
     MaxKeyMaterialLen = 64, DefaultContextLen = 8, MaxContextLen = 16,
     hash_extract = (\<lambda>inp salt. blake2b_hash blake 32 None inp salt (replicate 8 0)),
     hash_expand = (\<lambda>data prk. blake2b_hash blake 32 (Some data) prk (replicate 16 0) (replicate 8 0))\<rparr>"

section \<open>HKDF\<close>

text \<open>
  The rounds of \<open>ExpandKeyMaterial\<close>, on one buffer laid out as previous digest, context,
  round number: the first round leaves the place of the digest out of what it hashes.
\<close>

fun expand_loop ::
  "hasher \<Rightarrow> byte list \<Rightarrow> byte list \<Rightarrow> nat \<Rightarrow> nat \<Rightarrow> bytes \<Rightarrow> byte list list \<Rightarrow> byte list list result" where
  "expand_loop H prk ctx 0 round w digests = Inr digests"
| "expand_loop H prk ctx (Suc k) round w digests =
     bindr (if round = 0
            then bindr (skip_bytes (DigestLen H) w) (write_data ctx)
            else bindr (write_data (digests ! (round - 1)) w) (skip_bytes (length ctx))) (\<lambda>w.
     bindr (write_be (word_of_nat (round + 1) :: byte) w) (\<lambda>w.
     bindr (hash_expand H (if round = 0 then drop (DigestLen H) (sbuf w) else sbuf w) prk) (\<lambda>d.
       expand_loop H prk ctx k (round + 1) (reset w) (digests @ [d]))))"

text \<open>Copying the digests to the output; a \<open>std::copy_n\<close> past its end is undefined.\<close>

fun copy_digests :: "nat \<Rightarrow> bool \<Rightarrow> nat \<Rightarrow> byte list list \<Rightarrow> byte list \<Rightarrow> byte list result" where
  "copy_digests dlen is_short wr [] out = Inr out"
| "copy_digests dlen is_short wr (d # ds) out =
     (let n = (if is_short \<and> ds = [] then length out - wr else dlen) in
      if wr + n > length out \<or> n > length d then Inl (Undefined_behaviour ''copy past the end of the output'')
      else copy_digests dlen is_short (wr + dlen) ds (overwrite wr (take n d) out))"

definition ExpandKeyMaterial ::
  "hasher \<Rightarrow> byte list \<Rightarrow> byte list \<Rightarrow> byte \<Rightarrow> byte list \<Rightarrow> byte list result" where
  "ExpandKeyMaterial H key_out prk rounds ctx =
     (let w = bytes_on (sec_of_size (DigestLen H + length ctx + 1)) in
      bindr (expand_loop H prk ctx (unat rounds) 0 w []) (\<lambda>digests.
        copy_digests (DigestLen H) (length key_out < unat rounds * DigestLen H) 0 digests key_out))"

text \<open>
  \<open>key_out\<close> is the output buffer as it is before the call. The number of rounds is the ceiling
  of an integer division, which has already dropped the fraction.
\<close>

definition Derive ::
  "hasher \<Rightarrow> byte list \<Rightarrow> byte list \<Rightarrow> byte list \<Rightarrow> byte list \<Rightarrow> byte list result" where
  "Derive H key_out key_in salt ctx =
     (let ex = Ex ''HKDF'' '''' in
      if length key_in < MinKeyMaterialLen H \<or> length key_in > MaxKeyMaterialLen H
      then throw_ex ex Invalid_argument ''invalid input key material length.''
      else if length key_out < MinKeyMaterialLen H \<or> length key_out > MaxKeyMaterialLen H
      then throw_ex ex Invalid_argument ''invalid output key material length.''
      else bindr (hash_extract H key_in salt) (\<lambda>prk.
             ExpandKeyMaterial H key_out prk (word_of_nat (length key_out div DigestLen H)) ctx))"

section \<open>The specification: RFC 5869\<close>

text \<open>\<open>T(0)\<close> is empty, \<open>T(n+1) = HMAC(PRK, T(n) || info || n+1)\<close>; the output is cut from their concatenation.\<close>

fun rfc_T :: "(byte list \<Rightarrow> byte list \<Rightarrow> byte list) \<Rightarrow> byte list \<Rightarrow> byte list \<Rightarrow> nat \<Rightarrow> byte list" where
  "rfc_T hmac prk info 0 = []"
| "rfc_T hmac prk info (Suc n) = hmac (rfc_T hmac prk info n @ info @ [word_of_nat (Suc n)]) prk"

definition rfc_expand :: "(byte list \<Rightarrow> byte list \<Rightarrow> byte list) \<Rightarrow> byte list \<Rightarrow> byte list \<Rightarrow> nat \<Rightarrow> byte list" where
  "rfc_expand hmac prk info L =
     take L (concat (map (rfc_T hmac prk info) [1..<(L + 31) div 32 + 1]))"

definition rfc_hkdf :: "(byte list \<Rightarrow> byte list \<Rightarrow> byte list) \<Rightarrow> byte list \<Rightarrow> byte list \<Rightarrow> byte list \<Rightarrow> nat \<Rightarrow> byte list" where
  "rfc_hkdf hmac ikm salt info L = rfc_expand hmac (hmac ikm salt) info L"

text \<open>One round of the loop computes the next block.\<close>

lemma written_reset: "length ys \<le> length b \<Longrightarrow> reset (written ys b) = written [] (ys @ drop (length ys) b)"
  by (simp add: reset_def written_def overwrite_def)

lemma skip_written:
  "length ys + n \<le> length b \<Longrightarrow> skip_bytes n (written ys b) = Inr (written (ys @ take n (drop (length ys) b)) b)"
  by (auto simp: skip_bytes_def advance_def written_def overwrite_def add.commute
      simp flip: take_add append_assoc) (metis add.commute append_assoc append_take_drop_id drop_drop)

lemma expand_step_first:
  assumes "length b = 32 + length ctx + 1"
  shows "bindr (skip_bytes 32 (written [] b)) (\<lambda>w. bindr (write_data ctx w) (write_be (r :: byte))) =
    Inr (written (take 32 b @ ctx @ [r]) b)"
  using assms by (simp add: skip_written write_data_fits write_be_fits)

lemma expand_step_next:
  assumes "length b = 32 + length ctx + 1" "length d = 32"
  shows "bindr (write_data d (written [] b)) (\<lambda>w. bindr (skip_bytes (length ctx) w) (write_be (r :: byte))) =
    Inr (written (d @ take (length ctx) (drop 32 b) @ [r]) b)"
  using assms by (simp add: skip_written write_data_fits write_be_fits)

lemma rfc_T_length: "(\<And>d k. length (hmac d k) = 32) \<Longrightarrow> length (rfc_T hmac prk info (Suc n)) = 32"
  by simp

lemma expand_loop_hmac:
  assumes len: "\<And>d k. length (hmac d k) = 32"
    and "length b = 32 + length ctx + 1"
    and "0 < round \<Longrightarrow> take (length ctx) (drop 32 b) = ctx"
    and "ds = map (rfc_T hmac prk ctx) [1..<round + 1]"
  shows "expand_loop (HmacSha256 hmac) prk ctx k round (written [] b) ds =
    Inr (map (rfc_T hmac prk ctx) [1..<round + k + 1])"
  using assms(2-)
proof (induction k arbitrary: round b ds)
  case (Suc k)
  let ?T = "rfc_T hmac prk ctx" and ?r = "word_of_nat (round + 1) :: byte"
  let ?b = "(if round = 0 then take 32 b else ?T round) @ ctx @ [?r]"
  have nxt: "expand_loop (HmacSha256 hmac) prk ctx k (round + 1) (written [] ?b) (ds @ [?T (Suc round)]) =
      Inr (map ?T [1..<(round + 1) + k + 1])"
    using Suc.prems by (intro Suc.IH) (auto simp: len gr0_conv_Suc)
  have lenb: "length ?b = length b"
    using Suc.prems(1) by (auto simp: len gr0_conv_Suc)
  have rst: "reset (written ?b b) = written [] ?b"
    using lenb by (simp add: written_reset)
  show ?case
  proof (cases "round = 0")
    case True
    have "bindr (skip_bytes 32 (written [] b)) (\<lambda>w. bindr (write_data ctx w) (write_be ?r)) = Inr (written ?b b)"
      using expand_step_first [OF Suc.prems(1), of ?r] True by simp
    moreover have "drop 32 (sbuf (written ?b b)) = ctx @ [?r]"
      using Suc.prems(1) True by (simp add: written_sel)
    ultimately show ?thesis
      using nxt True rst by (auto simp: HmacSha256_def result_simps)
  next
    case False
    have dr: "ds ! (round - 1) = ?T round"
      using Suc.prems(3) False by (simp add: nth_append)
    have "bindr (write_data (?T round) (written [] b)) (\<lambda>w. bindr (skip_bytes (length ctx) w) (write_be ?r)) = Inr (written ?b b)"
      using expand_step_next [OF Suc.prems(1), of "?T round" ?r] False Suc.prems(2) len by (auto simp: gr0_conv_Suc)
    moreover have "sbuf (written ?b b) = ?T round @ ctx @ [?r]"
      using lenb False by (simp add: written_sel)
    ultimately show ?thesis
      using nxt False rst dr by (auto simp: HmacSha256_def result_simps)
  qed
qed simp


lemma copy_digests_all:
  "list_all (\<lambda>d. length d = n) ds \<Longrightarrow> wr + n * length ds \<le> length out \<Longrightarrow>
     copy_digests n False wr ds out = Inr (overwrite wr (concat ds) out)"
proof (induction ds arbitrary: wr out)
  case (Cons d ds)
  have len: "list_all (\<lambda>d. length d = n) ds \<Longrightarrow> length (concat ds) = n * length ds"
    by (induction ds) auto
  have fits: "wr + n + n * length ds \<le> length out" "length d = n"
    using Cons.prems by simp_all
  then have "overwrite (wr + n) (concat ds) (overwrite wr d out) = overwrite wr (d @ concat ds) out"
    using overwrite_append [of wr d "concat ds" out] Cons.prems(1) len by simp
  then show ?case
    using Cons.IH [of "wr + n" "overwrite wr d out"] Cons.prems(1) fits by (simp add: Let_def)
qed simp

lemma digests_length:
  "(\<And>d k. length (hmac d k) = 32) \<Longrightarrow> list_all (\<lambda>d. length d = 32) (map (rfc_T hmac prk ctx) [1..<n])"
  by (auto simp: list_all_iff gr0_conv_Suc Suc_le_eq)

text \<open>
  What \<open>Derive\<close> computes with \<open>HmacSha256\<close>: the whole blocks of the specification's output,
  as many as fit; the rest of the output buffer is left as it was.
\<close>

lemma Derive_hmac:
  assumes len: "\<And>d k. length (hmac d k) = 32"
    and "32 \<le> length key_in" "length key_in \<le> 512" "32 \<le> length key_out" "length key_out \<le> 512"
  shows "Derive (HmacSha256 hmac) key_out key_in salt ctx =
    Inr (overwrite 0 (concat (map (rfc_T hmac (hmac key_in salt) ctx) [1..<length key_out div 32 + 1])) key_out)"
proof -
  let ?n = "length key_out div 32" and ?T = "rfc_T hmac (hmac key_in salt) ctx"
  have n: "?n < 2 ^ LENGTH(8)" using assms(5) by simp
  have u: "unat (word_of_nat ?n :: byte) = ?n" by (rule unat_word_of_nat [OF n])
  have ds: "expand_loop (HmacSha256 hmac) (hmac key_in salt) ctx ?n 0
      (bytes_on (sec_of_size (32 + length ctx + 1))) [] = Inr (map ?T [1..<?n + 1])"
    using expand_loop_hmac [of hmac "sec_of_size (32 + length ctx + 1)" ctx 0 "[]" "hmac key_in salt" ?n] len
    by (simp add: bytes_on_written sec_of_size_def)
  have "copy_digests 32 False 0 (map ?T [1..<?n + 1]) key_out = Inr (overwrite 0 (concat (map ?T [1..<?n + 1])) key_out)"
    using digests_length [of hmac "hmac key_in salt" ctx "?n + 1"] len
    by (intro copy_digests_all) (simp_all del: upt_Suc)
  moreover have "\<not> length key_out < ?n * 32" by simp
  ultimately show ?thesis
    using assms ds u by (simp add: Derive_def ExpandKeyMaterial_def HmacSha256_def del: upt_Suc)
qed

lemma concat_T_length:
  assumes "\<And>d k. length (hmac d k) = 32"
  shows "length (concat (map (rfc_T hmac prk ctx) [1..<n + 1])) = 32 * n"
proof (induction n)
  case (Suc n)
  then show ?case using assms by (simp add: rfc_T_length [OF assms])
qed simp

lemma Derive_rfc:
  assumes len: "\<And>d k. length (hmac d k) = 32"
    and "32 \<le> length key_in" "length key_in \<le> 512" "32 \<le> length key_out" "length key_out \<le> 512"
    and "32 dvd length key_out"
  shows "Derive (HmacSha256 hmac) key_out key_in salt ctx = Inr (rfc_hkdf hmac key_in salt ctx (length key_out))"
proof -
  obtain n where n: "length key_out = 32 * n" using assms(6) by (auto simp: dvd_def)
  then show ?thesis
    using Derive_hmac [OF assms(1-5)] concat_T_length [of hmac "hmac key_in salt" ctx n] len
    by (simp add: rfc_hkdf_def rfc_expand_def overwrite_all div_add1_eq del: upt_Suc)
qed

lemma length_rfc_hkdf:
  assumes len: "\<And>d k. length (hmac d k) = 32" and "32 dvd n"
  shows "length (rfc_hkdf hmac ikm salt ctx n) = n"
proof -
  obtain m where n: "n = 32 * m" using assms(2) by (auto simp: dvd_def)
  then show ?thesis using concat_T_length [of hmac "hmac ikm salt" ctx m] len
    by (simp add: rfc_hkdf_def rfc_expand_def div_add1_eq del: upt_Suc)
qed

text \<open>
  With Blake2b the derivation always reads past a context: the extraction passes the hash's
  default context of 8 bytes to a primitive that reads 16.
\<close>

lemma Derive_blake_ub:
  assumes "32 \<le> length key_in" "length key_in \<le> 64" "32 \<le> length key_out" "length key_out \<le> 64"
  shows "is_ub (Derive (Blake2b blake) key_out key_in salt ctx)"
  using assms by (simp add: Derive_def Blake2b_def blake2b_hash_def)

end
