(* ===== verification/Nonce.thy ===== *)
theory Nonce
  imports SecBytes
begin

text \<open>
  The counter nonce of \<open>src/crypto/nonce.h\<close>: a 16-bit counter and the 12-byte buffer that
  carries it to the cipher, the counter in its first two bytes in the host's byte order.
\<close>

definition NonceLen :: nat where "NonceLen = 12"

record nonce =
  nonce_buf :: "byte list"
  nonce_n :: u16

text \<open>\<open>tini2p::write_bytes(buf_.data(), n_)\<close>: the counter over the front of the buffer.\<close>

definition nonce_put :: "u16 \<Rightarrow> byte list \<Rightarrow> byte list" where
  "nonce_put k b = overwrite 0 (le_of_word k) b"

definition nonce_default :: nonce where
  "nonce_default = \<lparr>nonce_buf = fixed_default NonceLen, nonce_n = 0\<rparr>"

definition nonce_of_int :: "u16 \<Rightarrow> nonce" where
  "nonce_of_int k = \<lparr>nonce_buf = nonce_put k (fixed_default NonceLen), nonce_n = k\<rparr>"

definition nonce_of_buf :: "byte list \<Rightarrow> nonce" where
  "nonce_of_buf b = \<lparr>nonce_buf = b, nonce_n = word_of_le (take 2 b)\<rparr>"

text \<open>Setting a new value: refused unless it is greater than the current one.\<close>

definition nonce_set :: "u16 \<Rightarrow> nonce \<Rightarrow> nonce result" where
  "nonce_set k x =
     (if k \<le> nonce_n x
      then throw_ex (Ex ''Nonce'' ''operator()'') Logic_error ''nonce is strictly increasing.''
      else Inr (x\<lparr>nonce_n := k, nonce_buf := nonce_put k (nonce_buf x)\<rparr>))"

text \<open>The increments: the value returned and the nonce after it.\<close>

definition nonce_preinc :: "nonce \<Rightarrow> u16 \<times> nonce" where
  "nonce_preinc x =
     (let k = nonce_n x + 1
      in (k, x\<lparr>nonce_n := k, nonce_buf := nonce_put k (nonce_buf x)\<rparr>))"

definition nonce_postinc :: "nonce \<Rightarrow> u16 \<times> nonce" where
  "nonce_postinc x =
     (let tmp = nonce_n x; k = nonce_n x + 1
      in (tmp, x\<lparr>nonce_n := k, nonce_buf := nonce_put k (nonce_buf x)\<rparr>))"

text \<open>
  The invariant: the buffer has its length, and its first two bytes are the counter. The
  rest of the buffer stays what it was.
\<close>

definition nonce_ok :: "nonce \<Rightarrow> bool" where
  "nonce_ok x \<longleftrightarrow> length (nonce_buf x) = NonceLen \<and> take 2 (nonce_buf x) = le_of_word (nonce_n x)"

lemma le16_zero: "le_of_word (0::u16) = [0, 0]"
  by (simp add: le_of_word_def upt_rec)

lemma length_nonce_put [simp]: "2 \<le> length b \<Longrightarrow> length (nonce_put k b) = length b"
  by (simp add: nonce_put_def)

lemma take_nonce_put [simp]: "take 2 (nonce_put k b) = le_of_word k"
  by (simp add: nonce_put_def overwrite_def)

lemma drop_nonce_put [simp]: "drop 2 (nonce_put k b) = drop 2 b"
  by (simp add: nonce_put_def overwrite_def numeral_2_eq_2)

lemma nonce_ok_default: "nonce_ok nonce_default"
  by (simp add: nonce_ok_def nonce_default_def fixed_default_def NonceLen_def le16_zero numeral_2_eq_2
      replicate_eq_replicate)

lemma nonce_ok_of_int: "nonce_ok (nonce_of_int k)"
  by (simp add: nonce_ok_def nonce_of_int_def fixed_default_def NonceLen_def)

lemma nonce_ok_of_buf: "length b = NonceLen \<Longrightarrow> nonce_ok (nonce_of_buf b)"
  by (simp add: nonce_ok_def nonce_of_buf_def NonceLen_def le_of_word_of_le)

lemma nonce_ok_set: "nonce_ok x \<Longrightarrow> nonce_set k x = Inr y \<Longrightarrow> nonce_ok y \<and> nonce_n y = k"
  by (auto simp: nonce_ok_def nonce_set_def NonceLen_def split: if_splits)

lemma nonce_ok_preinc: "nonce_ok x \<Longrightarrow> nonce_ok (snd (nonce_preinc x))"
  by (simp add: nonce_ok_def nonce_preinc_def NonceLen_def Let_def)

lemma nonce_ok_postinc: "nonce_ok x \<Longrightarrow> nonce_ok (snd (nonce_postinc x))"
  by (simp add: nonce_ok_def nonce_postinc_def NonceLen_def Let_def)

text \<open>\<open>k\<close> increments in a row.\<close>

fun nonce_incs :: "nat \<Rightarrow> nonce \<Rightarrow> nonce" where
  "nonce_incs 0 x = x"
| "nonce_incs (Suc k) x = nonce_incs k (snd (nonce_preinc x))"

lemma nonce_incs_n: "nonce_n (nonce_incs k x) = nonce_n x + of_nat k"
  by (induction k arbitrary: x) (simp_all add: nonce_preinc_def Let_def add.assoc)

lemma nonce_incs_ok: "nonce_ok x \<Longrightarrow> nonce_ok (nonce_incs k x)"
  by (induction k arbitrary: x) (simp_all add: nonce_ok_preinc)

lemma nonce_incs_tail: "drop 2 (nonce_buf (nonce_incs k x)) = drop 2 (nonce_buf x)"
  by (induction k arbitrary: x) (simp_all add: nonce_preinc_def Let_def)

lemma nonce_buf_eq_iff:
  assumes "nonce_ok x" "nonce_ok y" "drop 2 (nonce_buf x) = drop 2 (nonce_buf y)"
  shows "nonce_buf x = nonce_buf y \<longleftrightarrow> nonce_n x = nonce_n y"
proof
  assume "nonce_buf x = nonce_buf y"
  then have "le_of_word (nonce_n x) = le_of_word (nonce_n y)"
    using assms by (simp add: nonce_ok_def)
  then show "nonce_n x = nonce_n y" by (rule le16.enc_inject)
next
  assume "nonce_n x = nonce_n y"
  then have "take 2 (nonce_buf x) = take 2 (nonce_buf y)"
    using assms by (simp add: nonce_ok_def)
  then show "nonce_buf x = nonce_buf y"
    using assms(3) by (metis append_take_drop_id)
qed

lemma of_nat_u16_eq_iff: "(of_nat i :: u16) = of_nat j \<longleftrightarrow> i mod 65536 = j mod 65536"
  by (simp add: word_of_nat_eq_iff take_bit_eq_mod)

lemma nonce_incs_buf_eq_iff:
  assumes "nonce_ok x"
  shows "nonce_buf (nonce_incs i x) = nonce_buf (nonce_incs j x) \<longleftrightarrow> i mod 65536 = j mod 65536"
  using nonce_buf_eq_iff [OF nonce_incs_ok [OF assms, of i] nonce_incs_ok [OF assms, of j]]
  by (simp add: nonce_incs_tail nonce_incs_n of_nat_u16_eq_iff)

end
