(* ===== verification/Ecies.thy ===== *)
theory Ecies
  imports Hkdf Nonce
begin

text \<open>
  The ECIES-X25519 ratchet: the key exchange of \<open>src/crypto/x25519.h\<close> and
  \<open>src/crypto/dh/x3dh.h\<close>, the authenticated cipher of \<open>src/crypto/chacha_poly1305.h\<close>, and the
  state and the operations of \<open>src/crypto/ecies/x25519.h\<close>. The primitives are libsodium's:
  a record of functions, \<open>None\<close> where the C function reports an error.
\<close>

record prims =
  base_mult :: "byte list \<Rightarrow> byte list option"
  scalar_mult :: "byte list \<Rightarrow> byte list \<Rightarrow> byte list option"
  sha256 :: "byte list \<Rightarrow> byte list"
  aead_enc :: "byte list \<Rightarrow> byte list \<Rightarrow> byte list \<Rightarrow> byte list \<Rightarrow> byte list option"
  aead_dec :: "byte list \<Rightarrow> byte list \<Rightarrow> byte list \<Rightarrow> byte list \<Rightarrow> byte list option"

section \<open>X25519\<close>

definition KeyLen :: nat where "KeyLen = 32"

record keypair =
  pubkey :: "byte list"
  pvtkey :: "byte list"

definition keypair_default :: keypair where
  "keypair_default = \<lparr>pubkey = fixed_default KeyLen, pvtkey = fixed_default KeyLen\<rparr>"

definition create_keys :: "prims \<Rightarrow> rng \<Rightarrow> keypair result" where
  "create_keys P r =
     (let sk = rand_bytes r KeyLen in
      case base_mult P sk of
        None \<Rightarrow> throw_ex (Ex ''X25519'' ''create_keys'') Runtime_error ''unable to create keys.''
      | Some pk \<Rightarrow> Inr \<lparr>pubkey = pk, pvtkey = sk\<rparr>)"

definition DeriveEphemeralKeys :: "prims \<Rightarrow> hasher \<Rightarrow> keypair \<Rightarrow> keypair \<Rightarrow> byte list \<Rightarrow> keypair result" where
  "DeriveEphemeralKeys P H id_keys ep_keys ctx =
     bindr (Derive H (pvtkey ep_keys) (pvtkey id_keys) (replicate (SaltLen H) 0) ctx) (\<lambda>sk.
       case base_mult P sk of
         None \<Rightarrow> throw_ex (Ex ''X25519'' ''DeriveEphemeralKeys'') Runtime_error
                   ''unable to derive ephemeral keys.''
       | Some pk \<Rightarrow> Inr \<lparr>pubkey = pk, pvtkey = sk\<rparr>)"

definition PrivateToPublic :: "prims \<Rightarrow> keypair \<Rightarrow> keypair result" where
  "PrivateToPublic P k =
     (case base_mult P (pvtkey k) of
        None \<Rightarrow> throw_ex (Ex ''X25519'' ''PrivateToPublic'') Runtime_error ''error deriving public key.''
      | Some pk \<Rightarrow> Inr (k\<lparr>pubkey := pk\<rparr>))"

definition DH :: "prims \<Rightarrow> byte list \<Rightarrow> byte list \<Rightarrow> byte list result" where
  "DH P sk pk =
     (case scalar_mult P sk pk of
        None \<Rightarrow> throw_ex (Ex ''X25519'' '''') Runtime_error ''error computing shared key.''
      | Some k \<Rightarrow> Inr k)"

section \<open>X3DH\<close>

definition x3dh_material ::
  "prims \<Rightarrow> byte list \<Rightarrow> byte list \<Rightarrow> keypair \<Rightarrow> keypair \<Rightarrow> byte list result" where
  "x3dh_material P bob_static bob_ephemeral alice_static alice_ephemeral =
     bindr (DH P (pvtkey alice_static) bob_ephemeral) (\<lambda>out1.
     bindr (DH P (pvtkey alice_ephemeral) bob_static) (\<lambda>out2.
     bindr (DH P (pvtkey alice_ephemeral) bob_ephemeral) (\<lambda>out3.
     let w = bytes_on (fixed_default (KeyLen * 4)) in
     bindr (write_data (replicate 32 0xFF) w) (\<lambda>w.
     bindr (write_data out1 w) (\<lambda>w.
     bindr (write_data out2 w) (\<lambda>w.
     bindr (write_data out3 w) (\<lambda>w. Inr (sbuf w))))))))"

definition X3DH ::
  "prims \<Rightarrow> hasher \<Rightarrow> byte list \<Rightarrow> byte list \<Rightarrow> byte list \<Rightarrow> keypair \<Rightarrow> keypair \<Rightarrow> byte list \<Rightarrow> byte list result" where
  "X3DH P H out bob_static bob_ephemeral alice_static alice_ephemeral ctx =
     (if length out \<noteq> KeyLen
      then throw_ex (Ex ''X3DH'' ''DH'') Invalid_argument ''invalid output key length.''
      else bindr (x3dh_material P bob_static bob_ephemeral alice_static alice_ephemeral)
             (\<lambda>kdf_in. Derive H out kdf_in (replicate (SaltLen H) 0) ctx))"

section \<open>ChaCha20-Poly1305\<close>

definition MACLen :: nat where "MACLen = 16"

definition Poly1305_Hash :: "byte list \<Rightarrow> byte list result" where
  "Poly1305_Hash data = throw_ex (Ex ''Poly1305'' ''Hash'') Runtime_error ''unimplemented.''"

text \<open>
  The output buffer is made larger when it may be too small, and never smaller; the cipher's
  output goes to its front. (\<open>std::vector::resize\<close> to the size that a short ciphertext
  underflows to throws \<open>std::length_error\<close>.)
\<close>

definition AEADEncrypt ::
  "prims \<Rightarrow> byte list \<Rightarrow> nonce \<Rightarrow> byte list \<Rightarrow> byte list \<Rightarrow> byte list \<Rightarrow> byte list result" where
  "AEADEncrypt P key n message ad ciphertext =
     (let ct = (if length message + length ad + MACLen > length ciphertext
                then sec_resize (length message + MACLen) ciphertext else ciphertext) in
      case aead_enc P key (nonce_buf n) ad message of
        None \<Rightarrow> throw_ex (Ex ''ChaChaPoly1305'' ''AEADEncrypt'') Runtime_error ''error encrypting message: -1''
      | Some c \<Rightarrow> Inr (overwrite 0 c ct))"

definition AEADDecrypt ::
  "prims \<Rightarrow> byte list \<Rightarrow> nonce \<Rightarrow> byte list \<Rightarrow> byte list \<Rightarrow> byte list \<Rightarrow> byte list result" where
  "AEADDecrypt P key n message ad ciphertext =
     (if length ciphertext < MACLen
      then Inl (Throw Length_error ''vector::_M_default_append'')
      else
        (let message_size = length ciphertext - MACLen;
             m = (if length message < message_size then sec_resize message_size message else message) in
         case aead_dec P key (nonce_buf n) ad ciphertext of
           None \<Rightarrow> throw_ex (Ex ''ChaChaPoly1305'' ''AEADDecrypt'') Runtime_error ''error decrypting message: -1''
         | Some p \<Rightarrow> Inr (overwrite 0 p m)))"

section \<open>The ratchet state\<close>

definition MsgKeyCacheSize :: nat where "MsgKeyCacheSize = 32"

record ecies_state =
  id_keys :: keypair
  ep_keys :: keypair
  remote_id_key :: "byte list"
  remote_ep_key :: "byte list"
  root_key :: "byte list"
  chain_key :: "byte list"
  st_n :: nonce
  pn :: u16
  st_salt :: "byte list"
  msg_keys :: "byte list list"
  requires_remote_key :: bool
  requires_dh_ratchet :: bool
  requires_chain_ratchet :: bool

definition dh_ctx :: "hasher \<Rightarrow> byte list" where
  "dh_ctx H = context_of H (map of_char ''eciesxdh'')"

definition ck_ctx :: "hasher \<Rightarrow> byte list" where
  "ck_ctx H = context_of H (map of_char ''eciesxchain'')"

definition kdf_ctx :: "hasher \<Rightarrow> byte list" where
  "kdf_ctx H = context_of H (map of_char ''eciesxkdf'')"

text \<open>The members no constructor names: zero keys, a zero nonce, a zero salt.\<close>

definition state_members :: "hasher \<Rightarrow> keypair \<Rightarrow> ecies_state" where
  "state_members H keys =
     \<lparr>id_keys = keys, ep_keys = keypair_default, remote_id_key = fixed_default KeyLen,
      remote_ep_key = fixed_default KeyLen, root_key = fixed_default KeyLen,
      chain_key = fixed_default KeyLen, st_n = nonce_default, pn = 0,
      st_salt = replicate (SaltLen H) 0, msg_keys = replicate MsgKeyCacheSize (fixed_default KeyLen),
      requires_remote_key = True, requires_dh_ratchet = True, requires_chain_ratchet = True\<rparr>"

definition derive_ep :: "prims \<Rightarrow> hasher \<Rightarrow> ecies_state \<Rightarrow> ecies_state result" where
  "derive_ep P H s =
     bindr (DeriveEphemeralKeys P H (id_keys s) (ep_keys s) (kdf_ctx H)) (\<lambda>k. Inr (s\<lparr>ep_keys := k\<rparr>))"

definition state_of_keys :: "prims \<Rightarrow> hasher \<Rightarrow> keypair \<Rightarrow> ecies_state result" where
  "state_of_keys P H keys = derive_ep P H (state_members H keys)"

definition state_default :: "prims \<Rightarrow> hasher \<Rightarrow> rng \<Rightarrow> ecies_state result" where
  "state_default P H r = bindr (create_keys P r) (state_of_keys P H)"

definition state_of_pvtkey :: "prims \<Rightarrow> hasher \<Rightarrow> byte list \<Rightarrow> ecies_state result" where
  "state_of_pvtkey P H sk =
     bindr (PrivateToPublic P (keypair_default\<lparr>pvtkey := sk\<rparr>)) (state_of_keys P H)"

definition state_full ::
  "prims \<Rightarrow> hasher \<Rightarrow> keypair \<Rightarrow> byte list \<Rightarrow> byte list \<Rightarrow> ecies_state result" where
  "state_full P H keys rid rep =
     derive_ep P H ((state_members H keys)\<lparr>remote_id_key := rid, remote_ep_key := rep,
       requires_remote_key := False\<rparr>)"

definition state_of_remote ::
  "prims \<Rightarrow> hasher \<Rightarrow> rng \<Rightarrow> byte list \<Rightarrow> byte list \<Rightarrow> ecies_state result" where
  "state_of_remote P H r rid rep = bindr (create_keys P r) (\<lambda>k. state_full P H k rid rep)"

text \<open>
  A copy constructs the contexts anew, which are the same for every state, and copies the other
  members; an assignment keeps its own contexts.
\<close>

definition state_copy :: "ecies_state \<Rightarrow> ecies_state" where
  "state_copy oth =
     \<lparr>id_keys = id_keys oth, ep_keys = ep_keys oth, remote_id_key = remote_id_key oth, remote_ep_key = remote_ep_key oth,
      root_key = root_key oth, chain_key = chain_key oth, st_n = st_n oth, pn = pn oth, st_salt = st_salt oth,
      msg_keys = msg_keys oth, requires_remote_key = requires_remote_key oth,
      requires_dh_ratchet = requires_dh_ratchet oth, requires_chain_ratchet = requires_chain_ratchet oth\<rparr>"

definition state_assign :: "ecies_state \<Rightarrow> ecies_state \<Rightarrow> ecies_state" where
  "state_assign oth s =
     s\<lparr>id_keys := id_keys oth, ep_keys := ep_keys oth, remote_id_key := remote_id_key oth, remote_ep_key := remote_ep_key oth,
       root_key := root_key oth, chain_key := chain_key oth, st_n := st_n oth, pn := pn oth, st_salt := st_salt oth,
       requires_remote_key := requires_remote_key oth, requires_dh_ratchet := requires_dh_ratchet oth,
       requires_chain_ratchet := requires_chain_ratchet oth, msg_keys := msg_keys oth\<rparr>"

lemma state_copied: "state_copy s = s" "state_assign s t = s"
  by (simp_all add: state_copy_def state_assign_def)

section \<open>The ratchet\<close>

datatype ratchet_t = Ratchet_DH | Ratchet_Chain

text \<open>Writing the key derived for nonce \<open>i\<close> in the array of message keys, which has 32 places.\<close>

definition msg_key_put :: "nat \<Rightarrow> byte list \<Rightarrow> ecies_state \<Rightarrow> ecies_state result" where
  "msg_key_put i k s =
     (if i < length (msg_keys s) then Inr (s\<lparr>msg_keys := (msg_keys s)[i := k]\<rparr>)
      else Inl (Undefined_behaviour ''message key index out of range''))"

definition msg_key_at :: "nat \<Rightarrow> ecies_state \<Rightarrow> byte list result" where
  "msg_key_at i s =
     (if i < length (msg_keys s) then Inr (msg_keys s ! i)
      else Inl (Undefined_behaviour ''message key index out of range''))"

definition Ratchet :: "prims \<Rightarrow> hasher \<Rightarrow> ratchet_t \<Rightarrow> ecies_state \<Rightarrow> ecies_state result" where
  "Ratchet P H ratchet s =
     (let is_dh = (ratchet = Ratchet_DH);
          required = (if is_dh then requires_dh_ratchet s else requires_chain_ratchet s);
          set_required = (\<lambda>b s. if is_dh then s\<lparr>requires_dh_ratchet := b\<rparr>
                                else s\<lparr>requires_chain_ratchet := b\<rparr>)
      in if \<not> required then Inr (set_required True s)
         else
           bindr (if is_dh
                  then bindr (X3DH P H (root_key s) (remote_id_key s) (remote_ep_key s) (id_keys s)
                                (ep_keys s) (dh_ctx H)) (\<lambda>k. Inr (s\<lparr>root_key := k\<rparr>))
                  else Inr s) (\<lambda>s.
           let master = (if is_dh then root_key s else chain_key s);
               s = s\<lparr>st_salt := overwrite 0 (le_of_word (nonce_n (st_n s))) (st_salt s)\<rparr> in
           bindr (Derive H (sec_of_size (KeyLen * 2)) master (st_salt s) (ck_ctx H)) (\<lambda>kdf_out.
           let (n, nn) = nonce_preinc (st_n s); s = s\<lparr>st_n := nn\<rparr> in
           bindr (read_data KeyLen (bytes_on kdf_out)) (\<lambda>(mk, r).
           bindr (read_data KeyLen r) (\<lambda>(sk, r).
           bindr (if is_dh then Inr (s\<lparr>root_key := mk, chain_key := sk\<rparr>)
                  else msg_key_put (unat n) sk (s\<lparr>chain_key := mk\<rparr>)) (\<lambda>s.
             Inr (set_required False s)))))))"

definition GenerateAD :: "prims \<Rightarrow> ecies_state \<Rightarrow> byte list result" where
  "GenerateAD P s =
     (let w = bytes_on (fixed_default (KeyLen + NonceLen)) in
      bindr (msg_key_at (unat (nonce_n (st_n s))) s) (\<lambda>k.
      bindr (write_data k w) (\<lambda>w.
      bindr (write_data (nonce_buf (st_n s)) w) (\<lambda>w. Inr (sha256 P (sbuf w))))))"

definition check_remote_key :: "exception \<Rightarrow> ecies_state \<Rightarrow> unit result" where
  "check_remote_key ex s =
     (if requires_remote_key s then throw_ex ex Logic_error ''remote DH public key(s) required.''
      else Inr ())"

section \<open>Operations\<close>

definition ecies_of_remote ::
  "prims \<Rightarrow> hasher \<Rightarrow> rng \<Rightarrow> byte list \<Rightarrow> byte list \<Rightarrow> ecies_state result" where
  "ecies_of_remote P H r rid rep = bindr (state_of_remote P H r rid rep) (Ratchet P H Ratchet_DH)"

definition ecies_full ::
  "prims \<Rightarrow> hasher \<Rightarrow> keypair \<Rightarrow> byte list \<Rightarrow> byte list \<Rightarrow> ecies_state result" where
  "ecies_full P H keys rid rep = bindr (state_full P H keys rid rep) (Ratchet P H Ratchet_DH)"

definition ecies_encrypt ::
  "prims \<Rightarrow> hasher \<Rightarrow> byte list \<Rightarrow> byte list \<Rightarrow> ecies_state \<Rightarrow> (byte list \<times> ecies_state) result" where
  "ecies_encrypt P H message ciphertext s =
     bindr (check_remote_key (Ex ''EciesX25519'' ''Encrypt'') s) (\<lambda>_.
     bindr (if requires_chain_ratchet s then Ratchet P H Ratchet_Chain s else Inr s) (\<lambda>s.
     bindr (GenerateAD P s) (\<lambda>ad.
     bindr (msg_key_at (unat (nonce_n (st_n s))) s) (\<lambda>key.
     bindr (AEADEncrypt P key (st_n s) message ad ciphertext) (\<lambda>c. Inr (c, s))))))"

definition ecies_decrypt ::
  "prims \<Rightarrow> hasher \<Rightarrow> byte list \<Rightarrow> byte list \<Rightarrow> ecies_state \<Rightarrow> (byte list \<times> ecies_state) result" where
  "ecies_decrypt P H message ciphertext s =
     bindr (check_remote_key (Ex ''EciesX25519'' ''Decrypt'') s) (\<lambda>_.
     bindr (if requires_chain_ratchet s then Ratchet P H Ratchet_Chain s else Inr s) (\<lambda>s.
     bindr (GenerateAD P s) (\<lambda>ad.
     bindr (msg_key_at (unat (nonce_n (st_n s))) s) (\<lambda>key.
     bindr (AEADDecrypt P key (st_n s) message ad ciphertext) (\<lambda>m. Inr (m, s))))))"

definition ecies_rekey_id :: "byte list \<Rightarrow> ecies_state \<Rightarrow> ecies_state" where
  "ecies_rekey_id rid s = s\<lparr>remote_id_key := rid\<rparr>"

definition ecies_rekey_remote :: "byte list \<Rightarrow> byte list \<Rightarrow> ecies_state \<Rightarrow> ecies_state" where
  "ecies_rekey_remote rid rep s =
     s\<lparr>requires_remote_key := False, remote_id_key := rid, remote_ep_key := rep\<rparr>"

text \<open>
  Setting the local keys: the arguments of the derivation are the ephemeral keys first, so
  the keys derived go to \<open>id_keys\<close>.
\<close>

definition ecies_rekey_keys :: "prims \<Rightarrow> hasher \<Rightarrow> keypair \<Rightarrow> ecies_state \<Rightarrow> ecies_state result" where
  "ecies_rekey_keys P H keys s =
     (let s = s\<lparr>id_keys := keys\<rparr> in
      bindr (DeriveEphemeralKeys P H (ep_keys s) (id_keys s) (kdf_ctx H)) (\<lambda>k. Inr (s\<lparr>id_keys := k\<rparr>)))"

section \<open>What a ratchet step computes\<close>

text \<open>The lengths the primitives are documented to return.\<close>

definition prims_ok :: "prims \<Rightarrow> bool" where
  "prims_ok P \<longleftrightarrow> (\<forall>sk pk. base_mult P sk = Some pk \<longrightarrow> length pk = 32)
     \<and> (\<forall>sk pk k. scalar_mult P sk pk = Some k \<longrightarrow> length k = 32)"

definition hmac_ok :: "(byte list \<Rightarrow> byte list \<Rightarrow> byte list) \<Rightarrow> bool" where
  "hmac_ok hmac \<longleftrightarrow> (\<forall>d k. length (hmac d k) = 32)"

definition keypair_ok :: "keypair \<Rightarrow> bool" where
  "keypair_ok k \<longleftrightarrow> length (pubkey k) = 32 \<and> length (pvtkey k) = 32"

definition ecies_ok :: "ecies_state \<Rightarrow> bool" where
  "ecies_ok s \<longleftrightarrow> keypair_ok (id_keys s) \<and> keypair_ok (ep_keys s)
     \<and> length (remote_id_key s) = 32 \<and> length (remote_ep_key s) = 32
     \<and> length (root_key s) = 32 \<and> length (chain_key s) = 32 \<and> length (st_salt s) = 32
     \<and> length (msg_keys s) = 32 \<and> list_all (\<lambda>k. length k = 32) (msg_keys s)
     \<and> nonce_ok (st_n s) \<and> nonce_n (st_n s) \<le> 2
     \<and> (requires_chain_ratchet s \<longrightarrow> nonce_n (st_n s) \<le> 1)"

definition next_salt :: "ecies_state \<Rightarrow> byte list" where
  "next_salt s = overwrite 0 (le_of_word (nonce_n (st_n s))) (st_salt s)"

definition chain_step :: "(byte list \<Rightarrow> byte list \<Rightarrow> byte list) \<Rightarrow> ecies_state \<Rightarrow> ecies_state" where
  "chain_step hmac s =
     (let out = rfc_hkdf hmac (chain_key s) (next_salt s) (ck_ctx (HmacSha256 hmac)) 64;
          n = nonce_n (st_n s) + 1
      in s\<lparr>st_salt := next_salt s, st_n := snd (nonce_preinc (st_n s)), chain_key := take 32 out,
           msg_keys := (msg_keys s)[unat n := drop 32 out], requires_chain_ratchet := False\<rparr>)"

lemma Derive_hmac_length:
  assumes "hmac_ok hmac" and "Derive (HmacSha256 hmac) out k salt ctx = Inr o'"
  shows "length o' = length out"
proof -
  have len: "\<And>d k. length (hmac d k) = 32" using assms(1) by (simp add: hmac_ok_def)
  have "32 \<le> length k" "length k \<le> 512" "32 \<le> length out" "length out \<le> 512"
    using assms(2) by (auto simp: Derive_def HmacSha256_def Let_def split: if_splits)
  then show ?thesis
    using assms(2) Derive_hmac [of hmac k out salt ctx] len concat_T_length [of hmac "hmac k salt" ctx "length out div 32"] len
    by (auto simp del: upt_Suc)
qed

lemma Derive_hmac_safe:
  assumes "hmac_ok hmac"
  shows "\<not> is_ub (Derive (HmacSha256 hmac) out k salt ctx)"
proof (cases "32 \<le> length k \<and> length k \<le> 512 \<and> 32 \<le> length out \<and> length out \<le> 512")
  case True
  then show ?thesis using Derive_hmac [of hmac k out salt ctx] assms by (simp add: hmac_ok_def)
next
  case False
  then show ?thesis by (auto simp: Derive_def HmacSha256_def Let_def)
qed

lemma Derive_64:
  assumes "hmac_ok hmac" and "length k = 32"
  shows "Derive (HmacSha256 hmac) (sec_of_size (KeyLen * 2)) k salt ctx = Inr (rfc_hkdf hmac k salt ctx 64)"
    and "length (rfc_hkdf hmac k salt ctx 64) = 64"
proof -
  have len: "\<And>d k. length (hmac d k) = 32" using assms(1) by (simp add: hmac_ok_def)
  show "Derive (HmacSha256 hmac) (sec_of_size (KeyLen * 2)) k salt ctx = Inr (rfc_hkdf hmac k salt ctx 64)"
    using Derive_rfc [of hmac k "sec_of_size (KeyLen * 2)" salt ctx] len assms(2)
    by (simp add: sec_of_size_def KeyLen_def)
  show "length (rfc_hkdf hmac k salt ctx 64) = 64"
    using length_rfc_hkdf [of hmac 64 k salt ctx] len by simp
qed

lemma read_two_keys:
  "length out = 64 \<Longrightarrow> read_data KeyLen (bytes_on out) = Inr (take 32 out, reading (take 32 out) (drop 32 out))
     \<and> read_data KeyLen (reading (take 32 out) (drop 32 out)) = Inr (drop 32 out, reading out [])"
  by (simp add: bytes_on_reading bytes_simps KeyLen_def)

lemma unat_next_n: "(n::u16) \<le> 1 \<Longrightarrow> unat (n + 1) = unat n + 1 \<and> n + 1 \<le> 2 \<and> unat n \<le> 1"
  by (auto simp: word_le_nat_alt unat_word_ariths)

lemma Ratchet_Chain_eq:
  assumes "hmac_ok hmac" "ecies_ok s" "requires_chain_ratchet s"
  shows "Ratchet P (HmacSha256 hmac) Ratchet_Chain s = Inr (chain_step hmac s)"
proof -
  let ?out = "rfc_hkdf hmac (chain_key s) (next_salt s) (ck_ctx (HmacSha256 hmac)) 64"
  have ck: "length (chain_key s) = 32" and idx: "unat (nonce_n (st_n s) + 1) < length (msg_keys s)"
    using assms(2,3) unat_next_n [of "nonce_n (st_n s)"] by (auto simp: ecies_ok_def)
  show ?thesis
    using idx assms(3) read_two_keys [OF Derive_64(2) [OF assms(1) ck]]
    by (simp add: Ratchet_def Let_def next_salt_def [symmetric] Derive_64 [OF assms(1) ck] nonce_preinc_def
        msg_key_put_def chain_step_def)
qed

lemma chain_step_ok:
  assumes "hmac_ok hmac" "ecies_ok s" "requires_chain_ratchet s"
  shows "ecies_ok (chain_step hmac s)" "\<not> requires_chain_ratchet (chain_step hmac s)"
    and "requires_remote_key (chain_step hmac s) = requires_remote_key s"
proof -
  have ck: "length (chain_key s) = 32" "nonce_n (st_n s) \<le> 1" using assms(2,3) by (auto simp: ecies_ok_def)
  show "ecies_ok (chain_step hmac s)"
    using assms(2) Derive_64(2) [OF assms(1) ck(1)] unat_next_n [OF ck(2)]
    by (auto simp: ecies_ok_def chain_step_def Let_def next_salt_def nonce_preinc_def nonce_ok_def
        NonceLen_def list_all_iff dest!: set_mp [OF set_update_subset_insert])
qed (simp_all add: chain_step_def Let_def)


section \<open>Constructors and steps keep the invariant\<close>

lemma x3dh_material_eq:
  assumes "prims_ok P" "scalar_mult P (pvtkey as) be = Some k1" "scalar_mult P (pvtkey ae) bs = Some k2"
    and "scalar_mult P (pvtkey ae) be = Some k3"
  shows "x3dh_material P bs be as ae = Inr (replicate 32 0xFF @ k1 @ k2 @ k3)"
proof -
  have "length k1 = 32" "length k2 = 32" "length k3 = 32"
    using assms by (auto simp: prims_ok_def)
  then show ?thesis
    using assms by (simp add: x3dh_material_def DH_def Let_def bytes_on_written write_data_fits KeyLen_def
        fixed_default_def written_sel)
qed

lemma x3dh_material_safe: "prims_ok P \<Longrightarrow> \<not> is_ub (x3dh_material P bs be as ae)"
  by (auto simp: x3dh_material_def DH_def Let_def bytes_on_written write_data_fits KeyLen_def
      fixed_default_def prims_ok_def split: option.splits)

lemma X3DH_safe: "prims_ok P \<Longrightarrow> hmac_ok hmac \<Longrightarrow> \<not> is_ub (X3DH P (HmacSha256 hmac) out bs be as ae ctx)"
  by (auto simp: X3DH_def x3dh_material_safe Derive_hmac_safe)

lemma X3DH_length:
  "hmac_ok hmac \<Longrightarrow> X3DH P (HmacSha256 hmac) out bs be as ae ctx = Inr k \<Longrightarrow> length k = 32"
  by (auto simp: X3DH_def result_simps KeyLen_def dest: Derive_hmac_length split: if_splits)

lemma Derive_eph:
  assumes "prims_ok P" "hmac_ok hmac" "length (pvtkey ep) = 32"
  shows "\<not> is_ub (DeriveEphemeralKeys P (HmacSha256 hmac) idk ep ctx)"
    and "DeriveEphemeralKeys P (HmacSha256 hmac) idk ep ctx = Inr k \<Longrightarrow> keypair_ok k"
  using assms Derive_hmac_safe [OF assms(2)] Derive_hmac_length [OF assms(2)]
  by (auto simp: DeriveEphemeralKeys_def result_simps keypair_ok_def prims_ok_def split: option.splits)

lemma state_members_ok: "keypair_ok keys \<Longrightarrow> ecies_ok (state_members (HmacSha256 hmac) keys)"
  by (simp add: ecies_ok_def state_members_def keypair_default_def fixed_default_def KeyLen_def
      MsgKeyCacheSize_def nonce_ok_default HmacSha256_def list_all_iff keypair_ok_def nonce_default_def)
    (simp add: nonce_ok_default [unfolded nonce_default_def fixed_default_def])

lemma derive_ep_ok:
  "prims_ok P \<Longrightarrow> hmac_ok hmac \<Longrightarrow> ecies_ok s \<Longrightarrow> derive_ep P (HmacSha256 hmac) s = Inr s' \<Longrightarrow>
     ecies_ok s' \<and> requires_chain_ratchet s' = requires_chain_ratchet s \<and> st_n s' = st_n s
     \<and> chain_key s' = chain_key s \<and> st_salt s' = st_salt s \<and> msg_keys s' = msg_keys s"
  by (auto simp: derive_ep_def result_simps ecies_ok_def keypair_ok_def dest!: Derive_eph(2) [rotated -1])

lemma Ratchet_DH_ok:
  assumes "hmac_ok hmac" "ecies_ok s" "nonce_n (st_n s) = 0"
    and "Ratchet P (HmacSha256 hmac) Ratchet_DH s = Inr s'"
  shows "ecies_ok s'"
proof (cases "requires_dh_ratchet s")
  case True
  then obtain k where k: "X3DH P (HmacSha256 hmac) (root_key s) (remote_id_key s) (remote_ep_key s)
      (id_keys s) (ep_keys s) (dh_ctx (HmacSha256 hmac)) = Inr k"
    using assms(4) by (auto simp: Ratchet_def Let_def result_simps)
  note k32 = X3DH_length [OF assms(1) k]
  show ?thesis
    using assms k k32 True Derive_64(2) [OF assms(1) k32] read_two_keys [OF Derive_64(2) [OF assms(1) k32]]
    by (auto simp: Ratchet_def Let_def Derive_64 [OF assms(1) k32] nonce_preinc_def ecies_ok_def
        nonce_ok_def NonceLen_def)
next
  case False
  then show ?thesis using assms(2,4) by (auto simp: Ratchet_def Let_def ecies_ok_def)
qed

lemma create_keys_ok: "prims_ok P \<Longrightarrow> create_keys P r = Inr k \<Longrightarrow> keypair_ok k"
  by (auto simp: create_keys_def keypair_ok_def prims_ok_def KeyLen_def Let_def split: option.splits)

lemma PrivateToPublic_ok:
  "prims_ok P \<Longrightarrow> length sk = 32 \<Longrightarrow> PrivateToPublic P (keypair_default\<lparr>pvtkey := sk\<rparr>) = Inr k \<Longrightarrow> keypair_ok k"
  by (auto simp: PrivateToPublic_def keypair_ok_def prims_ok_def KeyLen_def split: option.splits)

lemma keys_ok:
  "prims_ok P \<Longrightarrow> hmac_ok hmac \<Longrightarrow> keypair_ok k \<Longrightarrow> state_of_keys P (HmacSha256 hmac) k = Inr s \<Longrightarrow> ecies_ok s"
  unfolding state_of_keys_def by (blast dest: derive_ep_ok [OF _ _ state_members_ok])

lemma full_ok:
  assumes "prims_ok P" "hmac_ok hmac" "keypair_ok k" "length rid = 32" "length rep = 32"
    and "ecies_full P (HmacSha256 hmac) k rid rep = Inr s"
  shows "ecies_ok s"
proof -
  let ?m = "(state_members (HmacSha256 hmac) k)\<lparr>remote_id_key := rid, remote_ep_key := rep,
      requires_remote_key := False\<rparr>"
  have "ecies_ok ?m"
    using state_members_ok [OF assms(3), of hmac] assms(4,5) by (simp add: ecies_ok_def)
  moreover obtain s1 where s1: "derive_ep P (HmacSha256 hmac) ?m = Inr s1"
    "Ratchet P (HmacSha256 hmac) Ratchet_DH s1 = Inr s"
    using assms(6) by (auto simp: ecies_full_def state_full_def result_simps)
  moreover have "nonce_n (st_n ?m) = 0"
    by (simp add: state_members_def nonce_default_def)
  ultimately show ?thesis
    using derive_ep_ok [OF assms(1,2), of ?m s1] Ratchet_DH_ok [OF assms(2) _ _ s1(2)] by simp
qed

datatype ecies_op =
    Op_Encrypt "byte list" "byte list" | Op_Decrypt "byte list" "byte list"
  | Op_RekeyId "byte list" | Op_RekeyRemote "byte list" "byte list" | Op_RekeyKeys keypair

fun ecies_step :: "prims \<Rightarrow> hasher \<Rightarrow> ecies_op \<Rightarrow> ecies_state \<Rightarrow> ecies_state result" where
  "ecies_step P H (Op_Encrypt m c) s = bindr (ecies_encrypt P H m c s) (\<lambda>(_, s'). Inr s')"
| "ecies_step P H (Op_Decrypt m c) s = bindr (ecies_decrypt P H m c s) (\<lambda>(_, s'). Inr s')"
| "ecies_step P H (Op_RekeyId k) s = Inr (ecies_rekey_id k s)"
| "ecies_step P H (Op_RekeyRemote k e) s = Inr (ecies_rekey_remote k e s)"
| "ecies_step P H (Op_RekeyKeys k) s = ecies_rekey_keys P H k s"

text \<open>The arguments are keys of the fixed size of their types.\<close>

fun ecies_op_ok :: "ecies_op \<Rightarrow> bool" where
  "ecies_op_ok (Op_RekeyId k) \<longleftrightarrow> length k = 32"
| "ecies_op_ok (Op_RekeyRemote k e) \<longleftrightarrow> length k = 32 \<and> length e = 32"
| "ecies_op_ok (Op_RekeyKeys k) \<longleftrightarrow> keypair_ok k"
| "ecies_op_ok _ \<longleftrightarrow> True"

inductive ecies_reach :: "prims \<Rightarrow> hasher \<Rightarrow> ecies_state \<Rightarrow> bool" for P H where
  new_default: "state_default P H r = Inr s \<Longrightarrow> ecies_reach P H s"
| new_pvtkey: "length sk = 32 \<Longrightarrow> state_of_pvtkey P H sk = Inr s \<Longrightarrow> ecies_reach P H s"
| new_keys: "keypair_ok k \<Longrightarrow> state_of_keys P H k = Inr s \<Longrightarrow> ecies_reach P H s"
| new_remote: "length rid = 32 \<Longrightarrow> length rep = 32 \<Longrightarrow> ecies_of_remote P H r rid rep = Inr s \<Longrightarrow>
    ecies_reach P H s"
| new_full: "keypair_ok k \<Longrightarrow> length rid = 32 \<Longrightarrow> length rep = 32 \<Longrightarrow>
    ecies_full P H k rid rep = Inr s \<Longrightarrow> ecies_reach P H s"
| step: "ecies_reach P H s \<Longrightarrow> ecies_op_ok x \<Longrightarrow> ecies_step P H x s = Inr s' \<Longrightarrow> ecies_reach P H s'"

inductive_cases ecies_reachE: "ecies_reach P H s"

text \<open>After the first message the state no longer changes with messages.\<close>

definition after_ratchet :: "(byte list \<Rightarrow> byte list \<Rightarrow> byte list) \<Rightarrow> ecies_state \<Rightarrow> ecies_state" where
  "after_ratchet hmac s = (if requires_chain_ratchet s then chain_step hmac s else s)"

lemma after_ratchet_ok:
  "hmac_ok hmac \<Longrightarrow> ecies_ok s \<Longrightarrow> ecies_ok (after_ratchet hmac s) \<and> \<not> requires_chain_ratchet (after_ratchet hmac s)
     \<and> requires_remote_key (after_ratchet hmac s) = requires_remote_key s"
  by (simp add: after_ratchet_def chain_step_ok)

definition msg_key :: "ecies_state \<Rightarrow> byte list" where
  "msg_key s = msg_keys s ! unat (nonce_n (st_n s))"

definition msg_ad :: "prims \<Rightarrow> ecies_state \<Rightarrow> byte list" where
  "msg_ad P s = sha256 P (msg_key s @ nonce_buf (st_n s))"

lemma msg_key_ok:
  assumes "ecies_ok s"
  shows "msg_key_at (unat (nonce_n (st_n s))) s = Inr (msg_key s)" "length (msg_key s) = 32"
    "GenerateAD P s = Inr (msg_ad P s)"
proof -
  have i: "unat (nonce_n (st_n s)) < length (msg_keys s)"
    using assms by (auto simp: ecies_ok_def word_le_nat_alt)
  then show k: "msg_key_at (unat (nonce_n (st_n s))) s = Inr (msg_key s)" "length (msg_key s) = 32"
    using assms by (auto simp: msg_key_at_def msg_key_def ecies_ok_def list_all_length)
  then show "GenerateAD P s = Inr (msg_ad P s)"
    using assms by (simp add: GenerateAD_def msg_ad_def Let_def bytes_on_written write_data_fits
        fixed_default_def KeyLen_def NonceLen_def ecies_ok_def nonce_ok_def written_sel)
qed

lemma ecies_encrypt_eq:
  assumes "hmac_ok hmac" "ecies_ok s"
  shows "ecies_encrypt P (HmacSha256 hmac) m ct s =
    (if requires_remote_key s
     then throw_ex (Ex ''EciesX25519'' ''Encrypt'') Logic_error ''remote DH public key(s) required.''
     else bindr (AEADEncrypt P (msg_key (after_ratchet hmac s)) (st_n (after_ratchet hmac s)) m
            (msg_ad P (after_ratchet hmac s)) ct) (\<lambda>c. Inr (c, after_ratchet hmac s)))"
  using assms after_ratchet_ok [OF assms] Ratchet_Chain_eq [OF assms] msg_key_ok [of "after_ratchet hmac s"]
  by (auto simp: ecies_encrypt_def check_remote_key_def after_ratchet_def)

lemma ecies_decrypt_eq:
  assumes "hmac_ok hmac" "ecies_ok s"
  shows "ecies_decrypt P (HmacSha256 hmac) m ct s =
    (if requires_remote_key s
     then throw_ex (Ex ''EciesX25519'' ''Decrypt'') Logic_error ''remote DH public key(s) required.''
     else bindr (AEADDecrypt P (msg_key (after_ratchet hmac s)) (st_n (after_ratchet hmac s)) m
            (msg_ad P (after_ratchet hmac s)) ct) (\<lambda>c. Inr (c, after_ratchet hmac s)))"
  using assms after_ratchet_ok [OF assms] Ratchet_Chain_eq [OF assms] msg_key_ok [of "after_ratchet hmac s"]
  by (auto simp: ecies_decrypt_def check_remote_key_def after_ratchet_def)

lemma AEAD_safe: "\<not> is_ub (AEADEncrypt P k n m ad c)" "\<not> is_ub (AEADDecrypt P k n m ad c)"
  by (auto simp: AEADEncrypt_def AEADDecrypt_def Let_def split: option.splits)

lemma rekey_ok:
  assumes "ecies_ok s" "length k = 32"
  shows "ecies_ok (ecies_rekey_id k s)"
    and "length e = 32 \<Longrightarrow> ecies_ok (ecies_rekey_remote k e s)"
  using assms by (simp_all add: ecies_rekey_id_def ecies_rekey_remote_def ecies_ok_def)

lemma rekey_keys_ok:
  assumes "prims_ok P" "hmac_ok hmac" "ecies_ok s" "keypair_ok k" "ecies_rekey_keys P (HmacSha256 hmac) k s = Inr s'"
  shows "ecies_ok s'"
proof -
  obtain k' where k': "DeriveEphemeralKeys P (HmacSha256 hmac) (ep_keys s) k (kdf_ctx (HmacSha256 hmac)) = Inr k'"
    and s': "s' = s\<lparr>id_keys := k'\<rparr>"
    using assms(5) by (auto simp: ecies_rekey_keys_def result_simps)
  have "keypair_ok k'"
    using Derive_eph(2) [OF assms(1,2) _ k'] assms(4) by (simp add: keypair_ok_def)
  then show ?thesis using assms(3) s' by (simp add: ecies_ok_def)
qed

lemma messages_ok:
  assumes "hmac_ok hmac" "ecies_ok s"
    and "ecies_encrypt P (HmacSha256 hmac) m c s = Inr (d, s') \<or> ecies_decrypt P (HmacSha256 hmac) m c s = Inr (d, s')"
  shows "ecies_ok s'"
proof -
  have "s' = after_ratchet hmac s"
    using assms(3) by (auto simp: ecies_encrypt_eq [OF assms(1,2)] ecies_decrypt_eq [OF assms(1,2)]
        bindr_Inr_iff split: if_splits)
  then show ?thesis using after_ratchet_ok [OF assms(1,2)] by simp
qed

lemma ecies_step_ok:
  assumes "prims_ok P" "hmac_ok hmac" "ecies_ok s" "ecies_op_ok x"
  shows "\<not> is_ub (ecies_step P (HmacSha256 hmac) x s)"
    and "ecies_step P (HmacSha256 hmac) x s = Inr s' \<Longrightarrow> ecies_ok s'"
proof -
  show "\<not> is_ub (ecies_step P (HmacSha256 hmac) x s)"
  proof (cases x)
    case (Op_RekeyKeys k)
    then show ?thesis
      using assms(4) Derive_eph(1) [OF assms(1,2)] by (simp add: ecies_rekey_keys_def keypair_ok_def)
  qed (simp_all add: ecies_encrypt_eq [OF assms(2,3)] ecies_decrypt_eq [OF assms(2,3)] AEAD_safe)
  show "ecies_ok s'" if st: "ecies_step P (HmacSha256 hmac) x s = Inr s'"
  proof (cases x)
    case (Op_RekeyKeys k)
    then show ?thesis using rekey_keys_ok [OF assms(1-3)] assms(4) st by simp
  next
    case (Op_RekeyId k)
    then show ?thesis using assms(4) rekey_ok(1) [OF assms(3), of k] st by simp
  next
    case (Op_RekeyRemote k e)
    then show ?thesis using assms(4) rekey_ok(2) [OF assms(3), of k e] st by simp
  next
    case (Op_Encrypt m c)
    then show ?thesis using st by (auto simp: result_simps intro: messages_ok [OF assms(2,3)])
  next
    case (Op_Decrypt m c)
    then show ?thesis using st by (auto simp: result_simps intro: messages_ok [OF assms(2,3)])
  qed
qed

lemma ecies_reach_ok:
  assumes "prims_ok P" "hmac_ok hmac"
  shows "ecies_reach P (HmacSha256 hmac) s \<Longrightarrow> ecies_ok s"
proof (induction rule: ecies_reach.induct)
  case (step s x s')
  then show ?case using ecies_step_ok(2) [OF assms] by blast
next
  case (new_keys k s)
  then show ?case using keys_ok [OF assms] by blast
next
  case (new_default r s)
  then show ?case
    using keys_ok [OF assms] create_keys_ok [OF assms(1)] by (auto simp: state_default_def result_simps)
next
  case (new_pvtkey sk s)
  then show ?case
    using keys_ok [OF assms] PrivateToPublic_ok [OF assms(1)] by (auto simp: state_of_pvtkey_def result_simps)
next
  case (new_full k rid rep s)
  then show ?case using full_ok [OF assms] by blast
next
  case (new_remote rid rep r s)
  then show ?case
    using full_ok [OF assms, of _ rid rep s] create_keys_ok [OF assms(1)]
    by (auto simp: ecies_of_remote_def state_of_remote_def ecies_full_def result_simps)
qed

text \<open>
  The message key of a state made without remote keys, once the remote keys are set: the
  chain key was never derived, so the key comes from 32 zero bytes alone.
\<close>

definition zero_chain_key :: "(byte list \<Rightarrow> byte list \<Rightarrow> byte list) \<Rightarrow> byte list" where
  "zero_chain_key hmac =
     drop 32 (rfc_hkdf hmac (replicate 32 0) (replicate 32 0) (ck_ctx (HmacSha256 hmac)) 64)"

lemma state_of_keys_members:
  assumes "state_of_keys P (HmacSha256 hmac) k = Inr s"
  shows "chain_key s = replicate 32 0 \<and> st_salt s = replicate 32 0 \<and> st_n s = nonce_default
    \<and> requires_chain_ratchet s \<and> length (msg_keys s) = 32"
  using assms by (auto simp: state_of_keys_def derive_ep_def result_simps state_members_def
      fixed_default_def KeyLen_def HmacSha256_def MsgKeyCacheSize_def)

lemma zero_chain_message_key:
  assumes "state_of_keys P (HmacSha256 hmac) k = Inr s"
  shows "msg_key (after_ratchet hmac (ecies_rekey_remote rid rep s)) = zero_chain_key hmac"
proof -
  have "overwrite 0 (le_of_word (0::u16)) (replicate 32 0) = replicate 32 0"
    by (simp add: overwrite_def le16_zero numeral_eq_Suc)
  then show ?thesis
    using state_of_keys_members [OF assms]
    by (simp add: after_ratchet_def ecies_rekey_remote_def chain_step_def Let_def msg_key_def
        nonce_preinc_def nonce_default_def next_salt_def zero_chain_key_def)
qed

end
