(* ===== verification/Signing.thy ===== *)
theory Signing
  imports Ecies
begin

text \<open>
  The signers of \<open>src/crypto/eddsa/\<close>: \<open>Ed25519\<close>'s key creation, \<open>EdDSASha512\<close>,
  \<open>RedDSASha512\<close> (a skeleton whose operations throw) and \<open>XEdDSASha512\<close>. A signer is a public
  key and, unless it only verifies, a private key (a null pointer is \<open>None\<close>). The elliptic
  curve operations are libsodium's and arguments of the model.
\<close>

record sign_prims =
  sign_keypair :: "rng \<Rightarrow> (byte list \<times> byte list) option"
  sk_to_pk :: "byte list \<Rightarrow> byte list option"
  sign_detached :: "byte list \<Rightarrow> byte list \<Rightarrow> byte list option"
  verify_detached :: "byte list \<Rightarrow> byte list \<Rightarrow> byte list \<Rightarrow> bool"

definition Ed25519_PublicKeyLen :: nat where "Ed25519_PublicKeyLen = 32"
definition Ed25519_PrivateKeyLen :: nat where "Ed25519_PrivateKeyLen = 64"
definition SignatureLen :: nat where "SignatureLen = 64"

record signer =
  pk_ptr :: "byte list"
  sk_ptr :: "byte list option"

text \<open>\<open>std::copy_n\<close> of the public key over the last 32 bytes of the private key.\<close>

definition sk_append_pk :: "byte list \<Rightarrow> byte list \<Rightarrow> byte list" where
  "sk_append_pk pk sk = overwrite Ed25519_PublicKeyLen (take Ed25519_PublicKeyLen pk) sk"

definition ed25519_create_keys :: "sign_prims \<Rightarrow> rng \<Rightarrow> keypair result" where
  "ed25519_create_keys S r =
     (case sign_keypair S r of
        None \<Rightarrow> throw_ex (Ex ''Ed25519'' ''create_keys'') Runtime_error ''could not create keypair.''
      | Some (pk, sk) \<Rightarrow> Inr \<lparr>pubkey = pk, pvtkey = sk_append_pk pk sk\<rparr>)"

section \<open>EdDSASha512\<close>

text \<open>The default constructor ignores the status of \<open>crypto_sign_keypair\<close>, which is always 0.\<close>

definition eddsa_default :: "sign_prims \<Rightarrow> rng \<Rightarrow> signer" where
  "eddsa_default S r =
     (case sign_keypair S r of
        Some (pk, sk) \<Rightarrow> \<lparr>pk_ptr = pk, sk_ptr = Some (sk_append_pk pk sk)\<rparr>
      | None \<Rightarrow> \<lparr>pk_ptr = fixed_default Ed25519_PublicKeyLen,
                 sk_ptr = Some (fixed_default Ed25519_PrivateKeyLen)\<rparr>)"

text \<open>Copying (construction or assignment) dereferences the private key of the source.\<close>

definition signer_copy :: "signer \<Rightarrow> signer result" where
  "signer_copy oth =
     (case sk_ptr oth of
        None \<Rightarrow> Inl (Undefined_behaviour ''null private key dereferenced'')
      | Some sk \<Rightarrow> Inr \<lparr>pk_ptr = pk_ptr oth, sk_ptr = Some sk\<rparr>)"

definition signer_of_pk :: "byte list \<Rightarrow> signer" where
  "signer_of_pk pk = \<lparr>pk_ptr = pk, sk_ptr = None\<rparr>"

definition eddsa_of_keys :: "keypair \<Rightarrow> signer" where
  "eddsa_of_keys k = \<lparr>pk_ptr = pubkey k, sk_ptr = Some (sk_append_pk (pubkey k) (pvtkey k))\<rparr>"

definition signer_rekey_pk :: "byte list \<Rightarrow> signer \<Rightarrow> signer" where
  "signer_rekey_pk pk s = s\<lparr>pk_ptr := pk, sk_ptr := None\<rparr>"

definition signer_rekey_keys :: "keypair \<Rightarrow> signer \<Rightarrow> signer" where
  "signer_rekey_keys k s = s\<lparr>pk_ptr := pubkey k, sk_ptr := Some (pvtkey k)\<rparr>"

definition eddsa_rekey_sk :: "sign_prims \<Rightarrow> byte list \<Rightarrow> signer \<Rightarrow> signer result" where
  "eddsa_rekey_sk S sk s =
     (case sk_to_pk S sk of
        None \<Rightarrow> throw_ex (Ex ''EdDSASha512'' ''rekey'') Runtime_error ''could not create keypair.''
      | Some pk \<Rightarrow> Inr \<lparr>pk_ptr = pk, sk_ptr = Some (sk_append_pk pk sk)\<rparr>)"

definition eddsa_sign :: "sign_prims \<Rightarrow> byte list \<Rightarrow> signer \<Rightarrow> byte list result" where
  "eddsa_sign S msg s =
     (let ex = Ex ''EdDSASha512'' ''Sign'' in
      case sk_ptr s of
        None \<Rightarrow> throw_ex ex Runtime_error ''null signing key.''
      | Some sk \<Rightarrow>
          if msg = [] then throw_ex ex Invalid_argument ''null message.''
          else (case sign_detached S msg sk of
                  None \<Rightarrow> throw_ex ex Runtime_error ''could not sign message.''
                | Some sig \<Rightarrow> Inr sig))"

definition eddsa_verify :: "sign_prims \<Rightarrow> byte list \<Rightarrow> byte list \<Rightarrow> signer \<Rightarrow> bool result" where
  "eddsa_verify S msg sig s =
     (if msg = [] then throw_ex (Ex ''EdDSASha512'' ''Verify'') Invalid_argument ''null message.''
      else Inr (verify_detached S sig msg (pk_ptr s)))"

section \<open>RedDSASha512\<close>

definition reddsa_create_keys :: "keypair result" where
  "reddsa_create_keys = throw_ex (Ex ''RedDSA'' ''create_keys'') Runtime_error ''unimplemented.''"

definition reddsa_default :: "signer result" where
  "reddsa_default =
     bindr reddsa_create_keys (\<lambda>k. Inr (signer_rekey_keys k (signer_of_pk (fixed_default 32))))"

definition reddsa_rekey_sk :: "byte list \<Rightarrow> signer \<Rightarrow> signer result" where
  "reddsa_rekey_sk sk s = throw_ex (Ex ''RedDSA'' ''rekey'') Runtime_error ''unimplemented.''"

definition reddsa_of_sk :: "byte list \<Rightarrow> signer result" where
  "reddsa_of_sk sk = reddsa_rekey_sk sk (signer_of_pk (fixed_default 32))"

definition reddsa_of_keys :: "keypair \<Rightarrow> signer" where
  "reddsa_of_keys k = signer_rekey_keys k (signer_of_pk (fixed_default 32))"

definition reddsa_check_params :: "exception \<Rightarrow> byte list \<Rightarrow> unit result" where
  "reddsa_check_params ex msg = (if msg = [] then throw_ex ex Invalid_argument ''null message.'' else Inr ())"

definition reddsa_sign :: "byte list \<Rightarrow> signer \<Rightarrow> byte list result" where
  "reddsa_sign msg s =
     (let ex = Ex ''RedDSA'' ''Sign'' in
      bindr (reddsa_check_params ex msg) (\<lambda>_.
        if sk_ptr s = None then throw_ex ex Invalid_argument ''null private key.''
        else throw_ex ex Runtime_error ''unimplemented.''))"

definition reddsa_verify :: "byte list \<Rightarrow> byte list \<Rightarrow> signer \<Rightarrow> bool result" where
  "reddsa_verify msg sig s =
     (let ex = Ex ''RedDSA'' ''Verify'' in
      bindr (reddsa_check_params ex msg) (\<lambda>_. throw_ex ex Runtime_error ''unimplemented.''))"

section \<open>XEdDSASha512\<close>

definition xeddsa_default :: "prims \<Rightarrow> rng \<Rightarrow> signer result" where
  "xeddsa_default P r =
     bindr (create_keys P r) (\<lambda>k. Inr (signer_rekey_keys k (signer_of_pk (fixed_default 32))))"

text \<open>The status of the multiplication is ignored; the key is then what it was.\<close>

definition xeddsa_rekey_sk :: "prims \<Rightarrow> byte list \<Rightarrow> signer \<Rightarrow> signer" where
  "xeddsa_rekey_sk P sk s =
     \<lparr>pk_ptr = (case base_mult P sk of Some pk \<Rightarrow> pk | None \<Rightarrow> pk_ptr s), sk_ptr = Some sk\<rparr>"

definition xeddsa_of_sk :: "prims \<Rightarrow> byte list \<Rightarrow> signer" where
  "xeddsa_of_sk P sk = xeddsa_rekey_sk P sk (signer_of_pk (fixed_default 32))"

definition xeddsa_of_keys :: "keypair \<Rightarrow> signer" where
  "xeddsa_of_keys k = signer_rekey_keys k (signer_of_pk (fixed_default 32))"

definition xeddsa_sign :: "byte list \<Rightarrow> signer \<Rightarrow> byte list result" where
  "xeddsa_sign msg s =
     (let ex = Ex ''XEdDSA'' ''Sign'' in
      if sk_ptr s = None then throw_ex ex Invalid_argument ''null private key.''
      else if msg = [] then throw_ex ex Invalid_argument ''null message.''
      else throw_ex ex Runtime_error ''unimplemented.'')"

definition xeddsa_verify :: "byte list \<Rightarrow> byte list \<Rightarrow> signer \<Rightarrow> bool result" where
  "xeddsa_verify msg sig s =
     (let ex = Ex ''XEdDSA'' ''Verify'' in
      if msg = [] then throw_ex ex Invalid_argument ''null message.''
      else throw_ex ex Runtime_error ''unimplemented.'')"

section \<open>The signing variant\<close>

text \<open>
  \<open>Identity::signing_v\<close> and \<open>Identity::signature_v\<close>: the C++ type of the implementation (its
  type information) and the object. The three signature classes are different types of the
  same size.
\<close>

datatype sign_kind = Kind_EdDSA | Kind_RedDSA | Kind_XEdDSA

record signing_v =
  skind :: sign_kind
  sobj :: signer

record signature_v =
  sig_kind :: sign_kind
  sig_bytes :: "byte list"

definition signing_sign :: "sign_prims \<Rightarrow> byte list \<Rightarrow> signing_v \<Rightarrow> signature_v result" where
  "signing_sign S msg v =
     bindr (case skind v of
              Kind_EdDSA \<Rightarrow> eddsa_sign S msg (sobj v)
            | Kind_RedDSA \<Rightarrow> reddsa_sign msg (sobj v)
            | Kind_XEdDSA \<Rightarrow> xeddsa_sign msg (sobj v))
       (\<lambda>sig. Inr \<lparr>sig_kind = skind v, sig_bytes = sig\<rparr>)"

definition signing_verify :: "sign_prims \<Rightarrow> byte list \<Rightarrow> signature_v \<Rightarrow> signing_v \<Rightarrow> bool result" where
  "signing_verify S msg sig v =
     (if sig_kind sig \<noteq> skind v
      then throw_ex (Ex ''Identity'' ''operator()'') Logic_error ''invalid signature type.''
      else case skind v of
             Kind_EdDSA \<Rightarrow> eddsa_verify S msg (sig_bytes sig) (sobj v)
           | Kind_RedDSA \<Rightarrow> reddsa_verify msg (sig_bytes sig) (sobj v)
           | Kind_XEdDSA \<Rightarrow> xeddsa_verify msg (sig_bytes sig) (sobj v))"

section \<open>Facts\<close>

lemma reddsa_never_signs: "reddsa_sign msg s \<noteq> Inr sig" "reddsa_verify msg sig' s \<noteq> Inr b"
    "reddsa_default \<noteq> Inr s"
  by (simp_all add: reddsa_sign_def reddsa_verify_def reddsa_check_params_def reddsa_default_def reddsa_create_keys_def Let_def)

lemma xeddsa_never_signs: "xeddsa_sign msg s \<noteq> Inr sig" "xeddsa_verify msg sig' s \<noteq> Inr b"
  by (simp_all add: xeddsa_sign_def xeddsa_verify_def Let_def)

text \<open>Only the EdDSA implementation ever returns a signature.\<close>

lemma signing_sign_Inr_iff:
  "signing_sign S msg v = Inr sig \<longleftrightarrow>
     skind v = Kind_EdDSA \<and> msg \<noteq> [] \<and>
     (\<exists>sk b. sk_ptr (sobj v) = Some sk \<and> sign_detached S msg sk = Some b
        \<and> sig = \<lparr>sig_kind = Kind_EdDSA, sig_bytes = b\<rparr>)"
  by (auto simp: signing_sign_def result_simps eddsa_sign_def Let_def reddsa_never_signs xeddsa_never_signs
      split: sign_kind.splits option.splits if_splits)

text \<open>A signature made with a key pair is accepted by a verifier of its public key.\<close>

lemma signing_sign_verify:
  assumes "\<And>msg sk pk sig. sign_detached S msg sk = Some sig \<Longrightarrow> sk_to_pk S sk = Some pk \<Longrightarrow>
      verify_detached S sig msg pk"
    and "signing_sign S msg v = Inr sig"
    and "\<And>sk. sk_ptr (sobj v) = Some sk \<Longrightarrow> sk_to_pk S sk = Some (pk_ptr (sobj v))"
    and "skind w = skind v" "pk_ptr (sobj w) = pk_ptr (sobj v)"
  shows "signing_verify S msg sig w = Inr True"
  using assms by (auto simp: signing_sign_Inr_iff signing_verify_def eddsa_verify_def)

text \<open>A verifier holds no private key, and copying it is undefined.\<close>

lemma signer_copy_ub_iff: "is_ub (signer_copy s) \<longleftrightarrow> sk_ptr s = None"
  by (simp add: signer_copy_def split: option.splits)

lemma signer_copy_id: "signer_copy s = Inr t \<Longrightarrow> t = s"
  by (auto simp: signer_copy_def split: option.splits)

end
