(* ===== verification/Certificate.thy ===== *)
theory Certificate
  imports SecBytes
begin

text \<open>
  Router certificates, \<open>src/data/router/certificate.h\<close>. The enumerations have a fixed
  underlying type and are filled from the wire, so a field is the raw 8- or 16-bit number
  and the enumerators are named constants. The multi-byte fields are written and read in the
  host's order. The unreachable flag is only ever set, never cleared.
\<close>

section \<open>Enumerators and sizes\<close>

definition NullCert :: byte where "NullCert = 0"
definition HashCashCert :: byte where "HashCashCert = 1"
definition HiddenCert :: byte where "HiddenCert = 2"
definition SignedCert :: byte where "SignedCert = 3"
definition MultipleCert :: byte where "MultipleCert = 4"
definition KeyCert :: byte where "KeyCert = 5"

definition EdDSA :: u16 where "EdDSA = 7"
definition RedDSA :: u16 where "RedDSA = 11"
definition XEdDSA :: u16 where "XEdDSA = 12"
definition SigningUnsupported :: u16 where "SigningUnsupported = 65534"

definition EciesX25519 :: u16 where "EciesX25519 = 4"
definition EciesX25519Blake :: u16 where "EciesX25519Blake = 5"
definition CryptoUnsupported :: u16 where "CryptoUnsupported = 65534"

definition KeyCertSize :: nat where "KeyCertSize = 7"

lemmas cert_consts = NullCert_def KeyCert_def EdDSA_def RedDSA_def XEdDSA_def
  SigningUnsupported_def EciesX25519_def EciesX25519Blake_def CryptoUnsupported_def KeyCertSize_def

section \<open>State and operations\<close>

record certificate =
  cert_type :: byte
  cert_length :: u16
  sign_type :: u16
  crypto_type :: u16
  cert_buffer :: "byte list"
  locally_unreachable :: bool

definition cert_check_params :: "exception \<Rightarrow> certificate \<Rightarrow> certificate result" where
  "cert_check_params ex c =
     (if cert_type c \<noteq> NullCert \<and> cert_type c \<noteq> KeyCert
      then throw_ex ex Runtime_error ''invalid certificate type.''
      else if cert_type c = KeyCert \<and> cert_length c \<noteq> word_of_nat KeyCertSize
      then throw_ex ex Runtime_error ''invalid certificate length.''
      else
        (let c = (if cert_length c = 0 then c\<lparr>locally_unreachable := True\<rparr> else c);
             c = (if crypto_type c = EciesX25519 \<or> crypto_type c = EciesX25519Blake then c
                  else c\<lparr>locally_unreachable := True\<rparr>);
             c = (if sign_type c = EdDSA \<or> sign_type c = RedDSA \<or> sign_type c = XEdDSA then c
                  else c\<lparr>locally_unreachable := True\<rparr>)
         in Inr c))"

definition cert_serialize :: "certificate \<Rightarrow> certificate result" where
  "cert_serialize c =
     bindr (cert_check_params (Ex ''Router: Certificate'' ''serialize'') c) (\<lambda>c.
     let b = (if length (cert_buffer c) \<noteq> KeyCertSize
              then sec_resize KeyCertSize (cert_buffer c) else cert_buffer c);
         w = bytes_on b in
     bindr (write_le (cert_type c) w) (\<lambda>w.
     bindr (write_le (cert_length c) w) (\<lambda>w.
     bindr (write_le (sign_type c) w) (\<lambda>w.
     bindr (write_le (crypto_type c) w) (\<lambda>w.
       Inr (c\<lparr>cert_buffer := sbuf w\<rparr>))))))"

text \<open>Fields that the buffer is too short for keep their previous values.\<close>

definition cert_deserialize :: "certificate \<Rightarrow> certificate result" where
  "cert_deserialize c =
     (let r = bytes_on (cert_buffer c) in
      bindr (read_le r) (\<lambda>(t, r).
      bindr (read_le r) (\<lambda>(l, r).
      let c = c\<lparr>cert_type := t, cert_length := l\<rparr> in
      bindr (if l \<noteq> 0 \<and> gcount r \<noteq> 0 then bindr (read_le r) (\<lambda>(s, r). Inr (c\<lparr>sign_type := s\<rparr>, r))
             else Inr (c, r)) (\<lambda>(c, r).
      bindr (if l \<noteq> 0 \<and> gcount r \<noteq> 0 then bindr (read_le r) (\<lambda>(s, r). Inr (c\<lparr>crypto_type := s\<rparr>, r))
             else Inr (c, r)) (\<lambda>(c, r).
      bindr (cert_check_params (Ex ''Router: Certificate'' ''deserialize'') c) (\<lambda>c.
        Inr (c\<lparr>cert_buffer := sec_resize (count r) (cert_buffer c)\<rparr>)))))))"

definition cert_of_types :: "u16 \<Rightarrow> u16 \<Rightarrow> certificate result" where
  "cert_of_types s c =
     cert_serialize \<lparr>cert_type = KeyCert, cert_length = word_of_nat KeyCertSize, sign_type = s,
       crypto_type = c, cert_buffer = sec_of_size KeyCertSize, locally_unreachable = False\<rparr>"

definition cert_default :: "certificate result" where
  "cert_default = cert_of_types EdDSA EciesX25519"

text \<open>
  The C++ types of a signing and of a crypto implementation, and the certificate types they
  stand for; \<open>Other_info\<close> is the type information of anything else.
\<close>

datatype type_info = eddsa_t | reddsa_t | xeddsa_t | ecies_x25519_hmac_t | ecies_x25519_blake_t
  | Other_info

definition type_info_to_type :: "type_info \<Rightarrow> type_info \<Rightarrow> u16 \<times> u16" where
  "type_info_to_type s c =
     (if s = eddsa_t then EdDSA else if s = reddsa_t then RedDSA
      else if s = xeddsa_t then XEdDSA else SigningUnsupported,
      if c = ecies_x25519_hmac_t then EciesX25519
      else if c = ecies_x25519_blake_t then EciesX25519Blake else CryptoUnsupported)"

definition cert_of_type_infos :: "type_info \<Rightarrow> type_info \<Rightarrow> certificate result" where
  "cert_of_type_infos s c = (let (st, ct) = type_info_to_type s c in cert_of_types st ct)"

section \<open>Validity\<close>

definition cert_valid :: "certificate \<Rightarrow> bool" where
  "cert_valid c \<longleftrightarrow> cert_type c = NullCert \<or> cert_type c = KeyCert \<and> cert_length c = word_of_nat KeyCertSize"

definition cert_supported :: "certificate \<Rightarrow> bool" where
  "cert_supported c \<longleftrightarrow> cert_length c \<noteq> 0 \<and> crypto_type c \<in> {EciesX25519, EciesX25519Blake}
     \<and> sign_type c \<in> {EdDSA, RedDSA, XEdDSA}"

lemma cert_check_params_eq:
  "cert_check_params ex c =
     (if cert_type c \<noteq> NullCert \<and> cert_type c \<noteq> KeyCert
      then throw_ex ex Runtime_error ''invalid certificate type.''
      else if cert_type c = KeyCert \<and> cert_length c \<noteq> word_of_nat KeyCertSize
      then throw_ex ex Runtime_error ''invalid certificate length.''
      else Inr (c\<lparr>locally_unreachable := locally_unreachable c \<or> \<not> cert_supported c\<rparr>))"
  by (auto simp: cert_check_params_def cert_supported_def Let_def)

lemma cert_check_params_Inr_iff:
  "cert_check_params ex c = Inr c' \<longleftrightarrow>
     cert_valid c \<and> c' = c\<lparr>locally_unreachable := locally_unreachable c \<or> \<not> cert_supported c\<rparr>"
  by (auto simp: cert_check_params_eq cert_valid_def cert_consts)

definition cert_bytes :: "certificate \<Rightarrow> byte list" where
  "cert_bytes c = cert_type c # le_of_word (cert_length c) @ le_of_word (sign_type c)
     @ le_of_word (crypto_type c)"

lemma length_cert_bytes [simp]: "length (cert_bytes c) = KeyCertSize"
  by (simp add: cert_bytes_def KeyCertSize_def)

lemma cert_serialize_eq:
  assumes "cert_valid c"
  shows "cert_serialize c = Inr (c\<lparr>locally_unreachable := locally_unreachable c \<or> \<not> cert_supported c,
    cert_buffer := cert_bytes c\<rparr>)"
proof -
  have b: "length b = 7 \<Longrightarrow> drop (length (cert_bytes c)) b = []" for b :: "byte list"
    by (simp add: KeyCertSize_def)
  have "bindr (write_le (cert_type c) (written [] b)) (\<lambda>w.
     bindr (write_le (cert_length c) w) (\<lambda>w.
     bindr (write_le (sign_type c) w) (\<lambda>w. write_le (crypto_type c) w))) = Inr (written (cert_bytes c) b)"
    if "length b = 7" for b
    using that by (simp add: write_le_fits cert_bytes_def)
  moreover have "cert_check_params ex c =
      Inr (c\<lparr>locally_unreachable := locally_unreachable c \<or> \<not> cert_supported c\<rparr>)" for ex
    using assms by (simp add: cert_check_params_Inr_iff)
  ultimately show ?thesis
    by (auto simp: cert_serialize_def Let_def bytes_on_written write_le_fits sec_resize_def
        KeyCertSize_def cert_bytes_def written_sel)
qed

lemma cert_serialize_Inr_iff: "(\<exists>c'. cert_serialize c = Inr c') \<longleftrightarrow> cert_valid c"
proof
  show "\<exists>c'. cert_serialize c = Inr c' \<Longrightarrow> cert_valid c"
    by (auto simp: cert_serialize_def result_simps cert_check_params_Inr_iff)
qed (simp add: cert_serialize_eq)

lemma cert_deserialize_bytes:
  assumes "cert_valid c" and "cert_length c \<noteq> 0" and "cert_buffer d = cert_bytes c"
  shows "cert_deserialize d = Inr (d\<lparr>cert_type := cert_type c, cert_length := cert_length c,
    sign_type := sign_type c, crypto_type := crypto_type c,
    locally_unreachable := locally_unreachable d \<or> \<not> cert_supported c\<rparr>)"
proof -
  let ?d = "d\<lparr>cert_type := cert_type c, cert_length := cert_length c, sign_type := sign_type c,
    crypto_type := crypto_type c\<rparr>"
  have chk: "cert_check_params ex ?d =
      Inr (?d\<lparr>locally_unreachable := locally_unreachable d \<or> \<not> cert_supported c\<rparr>)" for ex
    using assms(1) by (simp add: cert_check_params_Inr_iff cert_valid_def cert_supported_def)
  have b1: "read_le (reading pre (b # rest)) = Inr (b::byte, reading (pre @ [b]) rest)" for pre b rest
    using get_le_append [of pre b rest] by simp
  have end16: "read_le (reading pre (le_of_word (w::u16))) = Inr (w, reading (pre @ le_of_word w) [])" for pre w
    using le16.get_reading [of pre w "[]"] by simp
  show ?thesis
    using assms(2,3) chk
    by (simp add: cert_deserialize_def Let_def bytes_on_reading cert_bytes_def field_get b1 end16
        reading_sel sec_resize_def)
qed

lemma cert_of_types_eq:
  "cert_of_types s c = Inr \<lparr>cert_type = KeyCert, cert_length = 7, sign_type = s, crypto_type = c,
     cert_buffer = 5 # le_of_word (7::u16) @ le_of_word s @ le_of_word c,
     locally_unreachable = (s \<notin> {EdDSA, RedDSA, XEdDSA} \<or> c \<notin> {EciesX25519, EciesX25519Blake})\<rparr>"
  unfolding cert_of_types_def
  by (subst cert_serialize_eq)
    (auto simp: cert_valid_def cert_supported_def cert_bytes_def KeyCertSize_def KeyCert_def)

end
