(* ===== verification/Identity.thy ===== *)
theory Identity
  imports Signing Certificate
begin

text \<open>
  The router identity of \<open>src/data/router/identity.h\<close>: the crypto and signing variants, the
  padding, the certificate, the hash and the serialized form. The primitives the variants
  are built on are gathered in one environment.
\<close>

record ident_env =
  env_prims :: prims
  env_sign :: sign_prims
  env_hmac :: "byte list \<Rightarrow> byte list \<Rightarrow> byte list"
  env_blake :: blake2b_prim

text \<open>\<open>crypto_v\<close>: which of the two instances of \<open>EciesX25519\<close>, and its state.\<close>

datatype crypto_kind = Kind_Hmac | Kind_Blake

definition kind_hasher :: "ident_env \<Rightarrow> crypto_kind \<Rightarrow> hasher" where
  "kind_hasher E k = (case k of Kind_Hmac \<Rightarrow> HmacSha256 (env_hmac E) | Kind_Blake \<Rightarrow> Blake2b (env_blake E))"

record crypto_v =
  ckind :: crypto_kind
  cobj :: ecies_state

definition crypto_default :: "ident_env \<Rightarrow> rng \<Rightarrow> crypto_kind \<Rightarrow> crypto_v result" where
  "crypto_default E r k =
     bindr (state_default (env_prims E) (kind_hasher E k) r) (\<lambda>s. Inr \<lparr>ckind = k, cobj = s\<rparr>)"

definition signing_default :: "ident_env \<Rightarrow> rng \<Rightarrow> sign_kind \<Rightarrow> signing_v result" where
  "signing_default E r k =
     bindr (case k of Kind_EdDSA \<Rightarrow> Inr (eddsa_default (env_sign E) r)
                    | Kind_RedDSA \<Rightarrow> reddsa_default
                    | Kind_XEdDSA \<Rightarrow> xeddsa_default (env_prims E) r)
       (\<lambda>s. Inr \<lparr>skind = k, sobj = s\<rparr>)"

section \<open>State\<close>

definition KeysPaddingLen :: nat where "KeysPaddingLen = 384"
definition IdentMinSize :: nat where "IdentMinSize = KeysPaddingLen + 3"
definition IdentDefaultSize :: nat where "IdentDefaultSize = KeysPaddingLen + KeyCertSize"
definition IdentMaxSize :: nat where "IdentMaxSize = IdentDefaultSize"

lemmas ident_sizes = KeysPaddingLen_def IdentMinSize_def IdentDefaultSize_def IdentMaxSize_def KeyCertSize_def

record identity =
  padding :: "byte list"
  cert :: certificate
  crypto :: crypto_v
  signing :: signing_v
  id_hash :: "byte list"
  id_buf :: "byte list"

text \<open>Every crypto and signing implementation has public keys of 32 and signatures of 64 bytes.\<close>

definition crypto_pubkey_len :: "identity \<Rightarrow> u16" where "crypto_pubkey_len i = 32"
definition signing_pubkey_len :: "identity \<Rightarrow> u16" where "signing_pubkey_len i = 32"
definition sig_len :: "identity \<Rightarrow> u16" where "sig_len i = 64"

definition ident_size :: "identity \<Rightarrow> nat" where
  "ident_size i = unat (crypto_pubkey_len i) + length (padding i) + unat (signing_pubkey_len i)
     + unat (cert_length (cert i))"

definition update_hash :: "ident_env \<Rightarrow> identity \<Rightarrow> identity" where
  "update_hash E i = i\<lparr>id_hash := sha256 (env_prims E) (id_buf i)\<rparr>"

definition resize_padding :: "identity \<Rightarrow> identity" where
  "resize_padding i = i\<lparr>padding := sec_resize
     (KeysPaddingLen - (unat (crypto_pubkey_len i) + unat (signing_pubkey_len i))) (padding i)\<rparr>"

section \<open>Serialization\<close>

definition ident_serialize :: "ident_env \<Rightarrow> rng \<Rightarrow> identity \<Rightarrow> identity result" where
  "ident_serialize E r i =
     (let i = resize_padding i;
          i = i\<lparr>padding := rand_bytes r (length (padding i))\<rparr>;
          w = bytes_on (sec_resize (ident_size i) (id_buf i)) in
      bindr (write_data (pubkey (id_keys (cobj (crypto i)))) w) (\<lambda>w.
      bindr (write_data (padding i) w) (\<lambda>w.
      bindr (write_data (pk_ptr (sobj (signing i))) w) (\<lambda>w.
      bindr (cert_serialize (cert i)) (\<lambda>c.
      bindr (write_data (cert_buffer c) w) (\<lambda>w.
        Inr (update_hash E (i\<lparr>cert := c, id_buf := sbuf w\<rparr>))))))))"

text \<open>
  The variants are replaced when the certificate names another type than they hold; the new
  object is default constructed, with fresh keys.
\<close>

definition type_to_variant :: "ident_env \<Rightarrow> rng \<Rightarrow> rng \<Rightarrow> identity \<Rightarrow> identity result" where
  "type_to_variant E r1 r2 i =
     bindr (if crypto_type (cert i) = EciesX25519 \<and> ckind (crypto i) \<noteq> Kind_Hmac
            then crypto_default E r1 Kind_Hmac
            else if crypto_type (cert i) = EciesX25519Blake \<and> ckind (crypto i) \<noteq> Kind_Blake
            then crypto_default E r1 Kind_Blake
            else Inr (crypto i)) (\<lambda>c.
     bindr (if sign_type (cert i) = EdDSA \<and> skind (signing i) \<noteq> Kind_EdDSA
            then signing_default E r2 Kind_EdDSA
            else if sign_type (cert i) = RedDSA \<and> skind (signing i) \<noteq> Kind_RedDSA
            then signing_default E r2 Kind_RedDSA
            else if sign_type (cert i) = XEdDSA \<and> skind (signing i) \<noteq> Kind_XEdDSA
            then signing_default E r2 Kind_XEdDSA
            else Inr (signing i)) (\<lambda>s. Inr (i\<lparr>crypto := c, signing := s\<rparr>)))"

definition set_crypto_pubkey :: "byte list \<Rightarrow> crypto_v \<Rightarrow> crypto_v" where
  "set_crypto_pubkey k c = c\<lparr>cobj := (cobj c)\<lparr>id_keys := (id_keys (cobj c))\<lparr>pubkey := k\<rparr>\<rparr>\<rparr>"

definition ident_deserialize :: "ident_env \<Rightarrow> rng \<Rightarrow> rng \<Rightarrow> identity \<Rightarrow> identity result" where
  "ident_deserialize E r1 r2 i =
     bindr (skip_bytes KeysPaddingLen (bytes_on (id_buf i))) (\<lambda>r.
     bindr (read_data (length (cert_buffer (cert i))) r) (\<lambda>(cb, r).
     bindr (cert_deserialize ((cert i)\<lparr>cert_buffer := cb\<rparr>)) (\<lambda>c.
     let i = i\<lparr>cert := c\<rparr> in
     if locally_unreachable c then Inr i
     else
       bindr (skip_back (KeysPaddingLen + length (cert_buffer c)) r) (\<lambda>r.
       bindr (type_to_variant E r1 r2 i) (\<lambda>i.
       let i = resize_padding i in
       bindr (read_data 32 r) (\<lambda>(ck, r).
       bindr (read_data (length (padding i)) r) (\<lambda>(pad, r).
       bindr (read_data 32 r) (\<lambda>(sk, r).
         Inr (update_hash E (i\<lparr>crypto := set_crypto_pubkey ck (crypto i), padding := pad,
           signing := (signing i)\<lparr>sobj := signer_rekey_pk sk (sobj (signing i))\<rparr>,
           id_buf := sec_resize (length (cert_buffer c) + count r) (id_buf i)\<rparr>))))))))))"

section \<open>Constructors\<close>

text \<open>The members before the body of a constructor: default variants and certificate.\<close>

definition ident_members :: "ident_env \<Rightarrow> rng \<Rightarrow> rng \<Rightarrow> byte list \<Rightarrow> identity result" where
  "ident_members E r1 r2 buf =
     bindr cert_default (\<lambda>c.
     bindr (crypto_default E r1 Kind_Hmac) (\<lambda>cr.
     bindr (signing_default E r2 Kind_EdDSA) (\<lambda>sg.
       Inr \<lparr>padding = [], cert = c, crypto = cr, signing = sg, id_hash = fixed_default 32,
            id_buf = buf\<rparr>)))"

definition ident_of_buffer :: "ident_env \<Rightarrow> rng \<Rightarrow> rng \<Rightarrow> rng \<Rightarrow> rng \<Rightarrow> byte list \<Rightarrow> identity result" where
  "ident_of_buffer E r1 r2 r3 r4 buf =
     bindr (ident_members E r1 r2 buf) (\<lambda>i.
     if length buf < IdentMinSize \<or> length buf > IdentMaxSize
     then throw_ex (Ex ''RouterIdentity'' ''Identity'') Length_error ''invalid identity size.''
     else ident_deserialize E r3 r4 i)"

section \<open>Keys, signatures, messages\<close>

definition ident_sign :: "ident_env \<Rightarrow> byte list \<Rightarrow> identity \<Rightarrow> signature_v result" where
  "ident_sign E msg i = signing_sign (env_sign E) msg (signing i)"

definition ident_verify :: "ident_env \<Rightarrow> byte list \<Rightarrow> signature_v \<Rightarrow> identity \<Rightarrow> bool result" where
  "ident_verify E msg sig i = signing_verify (env_sign E) msg sig (signing i)"

definition ident_encrypt ::
  "ident_env \<Rightarrow> crypto_kind \<Rightarrow> byte list \<Rightarrow> byte list \<Rightarrow> identity \<Rightarrow> (byte list \<times> identity) result" where
  "ident_encrypt E k message ciphertext i =
     (if ckind (crypto i) \<noteq> k
      then throw_ex (Ex ''Identity'' ''Encrypt'') Invalid_argument ''invalid crypto type.''
      else bindr (ecies_encrypt (env_prims E) (kind_hasher E k) message ciphertext (cobj (crypto i)))
             (\<lambda>(c, s). Inr (c, i\<lparr>crypto := (crypto i)\<lparr>cobj := s\<rparr>\<rparr>)))"

definition ident_decrypt ::
  "ident_env \<Rightarrow> crypto_kind \<Rightarrow> byte list \<Rightarrow> byte list \<Rightarrow> identity \<Rightarrow> (byte list \<times> identity) result" where
  "ident_decrypt E k message ciphertext i =
     (if ckind (crypto i) \<noteq> k
      then throw_ex (Ex ''Identity'' ''Decrypt'') Invalid_argument ''invalid crypto type.''
      else bindr (ecies_decrypt (env_prims E) (kind_hasher E k) message ciphertext (cobj (crypto i)))
             (\<lambda>(m, s). Inr (m, i\<lparr>crypto := (crypto i)\<lparr>cobj := s\<rparr>\<rparr>)))"

text \<open>New local keys, for the given crypto and signing types.\<close>

definition signer_of_keys :: "sign_kind \<Rightarrow> keypair \<Rightarrow> signer" where
  "signer_of_keys k keys =
     (if k = Kind_EdDSA then eddsa_of_keys keys
      else signer_rekey_keys keys (signer_of_pk (fixed_default 32)))"

definition ident_rekey_local ::
  "ident_env \<Rightarrow> rng \<Rightarrow> crypto_kind \<Rightarrow> sign_kind \<Rightarrow> keypair \<Rightarrow> keypair \<Rightarrow> identity \<Rightarrow> identity result" where
  "ident_rekey_local E r ck sk crypto_keys sign_keys i =
     bindr (if ckind (crypto i) \<noteq> ck
            then state_of_keys (env_prims E) (kind_hasher E ck) crypto_keys
            else ecies_rekey_keys (env_prims E) (kind_hasher E ck) crypto_keys (cobj (crypto i))) (\<lambda>c.
     bindr (if skind (signing i) \<noteq> sk then signer_copy (signer_of_keys sk sign_keys)
            else Inr (signer_rekey_keys sign_keys (sobj (signing i)))) (\<lambda>s.
       ident_serialize E r (i\<lparr>crypto := \<lparr>ckind = ck, cobj = c\<rparr>, signing := \<lparr>skind = sk, sobj = s\<rparr>\<rparr>)))"

text \<open>Public keys only: a verifier of another signing type is copied into the variant.\<close>

definition ident_rekey_crypto ::
  "ident_env \<Rightarrow> rng \<Rightarrow> crypto_kind \<Rightarrow> byte list \<Rightarrow> byte list \<Rightarrow> identity \<Rightarrow> identity result" where
  "ident_rekey_crypto E r ck rid rep i =
     bindr (if ckind (crypto i) \<noteq> ck then ecies_of_remote (env_prims E) (kind_hasher E ck) r rid rep
            else Inr (ecies_rekey_remote rid rep (cobj (crypto i)))) (\<lambda>c.
       Inr (i\<lparr>crypto := \<lparr>ckind = ck, cobj = c\<rparr>\<rparr>))"

definition ident_rekey_signing :: "sign_kind \<Rightarrow> byte list \<Rightarrow> identity \<Rightarrow> identity result" where
  "ident_rekey_signing sk pk i =
     bindr (if skind (signing i) \<noteq> sk then signer_copy (signer_of_pk pk)
            else Inr (signer_rekey_pk pk (sobj (signing i)))) (\<lambda>s.
       Inr (i\<lparr>signing := \<lparr>skind = sk, sobj = s\<rparr>\<rparr>))"

definition ident_rekey_remote ::
  "ident_env \<Rightarrow> rng \<Rightarrow> crypto_kind \<Rightarrow> sign_kind \<Rightarrow> byte list \<Rightarrow> byte list \<Rightarrow> byte list \<Rightarrow> identity \<Rightarrow> identity result" where
  "ident_rekey_remote E r ck sk rid rep pk i =
     bindr (ident_rekey_crypto E r ck rid rep i) (ident_rekey_signing sk pk)"

text \<open>
  The default constructor: fresh key pairs (\<open>c\<close> and \<open>s\<close> draw the crypto and signing keys).
\<close>

definition ident_default ::
  "ident_env \<Rightarrow> rng \<Rightarrow> rng \<Rightarrow> rng \<Rightarrow> rng \<Rightarrow> rng \<Rightarrow> rng \<Rightarrow> identity result" where
  "ident_default E r1 r2 c s pad1 pad2 =
     bindr (ident_members E r1 r2 (sec_of_size IdentDefaultSize)) (\<lambda>i.
     bindr (create_keys (env_prims E) c) (\<lambda>ck.
     bindr (ed25519_create_keys (env_sign E) s) (\<lambda>sk.
     bindr (ident_rekey_local E pad1 Kind_Hmac Kind_EdDSA ck sk i) (ident_serialize E pad2))))"

definition ident_of_impls ::
  "ident_env \<Rightarrow> rng \<Rightarrow> crypto_v \<Rightarrow> signing_v \<Rightarrow> identity result" where
  "ident_of_impls E r c s =
     bindr (cert_of_type_infos
        (case skind s of Kind_EdDSA \<Rightarrow> eddsa_t | Kind_RedDSA \<Rightarrow> reddsa_t | Kind_XEdDSA \<Rightarrow> xeddsa_t)
        (case ckind c of Kind_Hmac \<Rightarrow> ecies_x25519_hmac_t | Kind_Blake \<Rightarrow> ecies_x25519_blake_t)) (\<lambda>ce.
     bindr (signer_copy (sobj s)) (\<lambda>so.
       ident_serialize E r \<lparr>padding = [], cert = ce, crypto = c, signing = s\<lparr>sobj := so\<rparr>,
         id_hash = fixed_default 32, id_buf = sec_of_size IdentDefaultSize\<rparr>))"

section \<open>Round trip\<close>

definition sign_code :: "sign_kind \<Rightarrow> u16" where
  "sign_code k = (case k of Kind_EdDSA \<Rightarrow> EdDSA | Kind_RedDSA \<Rightarrow> RedDSA | Kind_XEdDSA \<Rightarrow> XEdDSA)"

definition crypto_code :: "crypto_kind \<Rightarrow> u16" where
  "crypto_code k = (case k of Kind_Hmac \<Rightarrow> EciesX25519 | Kind_Blake \<Rightarrow> EciesX25519Blake)"

text \<open>An identity with a key certificate for the types it holds, and keys of their sizes.\<close>

definition ident_ok :: "identity \<Rightarrow> bool" where
  "ident_ok i \<longleftrightarrow> cert_type (cert i) = KeyCert \<and> cert_length (cert i) = 7
     \<and> sign_type (cert i) = sign_code (skind (signing i))
     \<and> crypto_type (cert i) = crypto_code (ckind (crypto i))
     \<and> length (pubkey (id_keys (cobj (crypto i)))) = 32 \<and> length (pk_ptr (sobj (signing i))) = 32"

definition ident_bytes :: "identity \<Rightarrow> byte list" where
  "ident_bytes i = pubkey (id_keys (cobj (crypto i))) @ padding i @ pk_ptr (sobj (signing i)) @ cert_bytes (cert i)"

lemma ident_ok_cert: "ident_ok i \<Longrightarrow> cert_valid (cert i) \<and> cert_supported (cert i)"
  by (auto simp: ident_ok_def cert_valid_def cert_supported_def KeyCertSize_def sign_code_def crypto_code_def
      split: sign_kind.splits crypto_kind.splits)

lemma ident_serialize_eq:
  assumes "ident_ok i"
  shows "ident_serialize E r i =
    (let i1 = i\<lparr>padding := rand_bytes r 320, cert := (cert i)\<lparr>cert_buffer := cert_bytes (cert i)\<rparr>\<rparr>
     in Inr (update_hash E (i1\<lparr>id_buf := ident_bytes i1\<rparr>)))"
proof -
  have "ident_size (i\<lparr>padding := rand_bytes r 320\<rparr>) = 391"
    using assms by (simp add: ident_size_def ident_ok_def crypto_pubkey_len_def signing_pubkey_len_def)
  moreover have "cert_serialize (cert i) = Inr ((cert i)\<lparr>cert_buffer := cert_bytes (cert i)\<rparr>)"
    using cert_serialize_eq [of "cert i"] ident_ok_cert [OF assms] by simp
  moreover have "cert_bytes (c\<lparr>cert_buffer := b\<rparr>) = cert_bytes c" for b c
    by (simp add: cert_bytes_def)
  ultimately show ?thesis
    using assms
    by (simp add: ident_serialize_def Let_def resize_padding_def crypto_pubkey_len_def signing_pubkey_len_def
        KeysPaddingLen_def sec_resize_def bytes_on_written write_data_fits ident_ok_def KeyCertSize_def
        written_sel ident_bytes_def)
qed

text \<open>Reading the bytes of \<open>j\<close> into an identity \<open>d\<close> of the same types.\<close>

lemma ident_deserialize_bytes:
  assumes j: "ident_ok j" "length (padding j) = 320"
    and d: "id_buf d = ident_bytes j" "length (cert_buffer (cert d)) = 7"
      "\<not> locally_unreachable (cert d)"
      "ckind (crypto d) = ckind (crypto j)" "skind (signing d) = skind (signing j)"
  shows "ident_deserialize E r1 r2 d = Inr (update_hash E (d\<lparr>
     cert := (cert d)\<lparr>cert_type := KeyCert, cert_length := 7, sign_type := sign_type (cert j),
       crypto_type := crypto_type (cert j), cert_buffer := cert_bytes (cert j)\<rparr>,
     crypto := set_crypto_pubkey (pubkey (id_keys (cobj (crypto j)))) (crypto d), padding := padding j,
     signing := (signing d)\<lparr>sobj := signer_rekey_pk (pk_ptr (sobj (signing j))) (sobj (signing d))\<rparr>,
     id_buf := ident_bytes j\<rparr>))"
proof -
  let ?ck = "pubkey (id_keys (cobj (crypto j)))" and ?sk = "pk_ptr (sobj (signing j))"
  let ?cb = "cert_bytes (cert j)"
  let ?cert = "(cert d)\<lparr>cert_type := KeyCert, cert_length := 7, sign_type := sign_type (cert j),
       crypto_type := crypto_type (cert j), cert_buffer := ?cb\<rparr>"
  have len: "length ?ck = 32" "length ?sk = 32" "length ?cb = 7" using j by (auto simp: ident_ok_def KeyCertSize_def)
  have rd1: "skip_bytes 384 (bytes_on (ident_bytes j)) = Inr (reading (?ck @ padding j @ ?sk) ?cb)"
    using len j(2) by (simp add: bytes_on_reading bytes_simps ident_bytes_def)
  have rd2: "read_data 7 (reading (?ck @ padding j @ ?sk) ?cb) = Inr (?cb, reading (?ck @ padding j @ ?sk @ ?cb) [])"
    using len by (simp add: bytes_simps)
  have cert: "cert_deserialize ((cert d)\<lparr>cert_buffer := ?cb\<rparr>) = Inr ?cert"
    using cert_deserialize_bytes [of "cert j" "(cert d)\<lparr>cert_buffer := ?cb\<rparr>"] ident_ok_cert [OF j(1)] d(3) j(1)
    by (simp add: ident_ok_def)
  have bk: "skip_back (384 + 7) (reading (?ck @ padding j @ ?sk @ ?cb) []) = Inr (reading [] (?ck @ padding j @ ?sk @ ?cb))"
    using len j(2) by (simp add: bytes_simps)
  have tv: "type_to_variant E r1 r2 (d\<lparr>cert := ?cert\<rparr>) = Inr (d\<lparr>cert := ?cert\<rparr>)"
  proof -
    have "sign_type (cert j) = sign_code (skind (signing d))" "crypto_type (cert j) = crypto_code (ckind (crypto d))"
      using j(1) d(4,5) by (simp_all add: ident_ok_def)
    then show ?thesis
      by (cases "skind (signing d)"; cases "ckind (crypto d)")
        (simp_all add: type_to_variant_def sign_code_def crypto_code_def cert_consts)
  qed
  have buf: "sec_resize (KeyCertSize + 384) (id_buf d) = ident_bytes j"
    using len j(2) d(1) by (simp add: sec_resize_def ident_bytes_def)
  have rp: "resize_padding (d\<lparr>cert := ?cert\<rparr>) = d\<lparr>cert := ?cert, padding := resize 320 (padding d)\<rparr>"
    by (simp add: resize_padding_def KeysPaddingLen_def crypto_pubkey_len_def signing_pubkey_len_def sec_resize_def)
  have r1: "read_data 32 (reading [] (?ck @ padding j @ ?sk @ ?cb)) = Inr (?ck, reading ?ck (padding j @ ?sk @ ?cb))"
    using len by (simp add: bytes_simps)
  have r2: "read_data 320 (reading ?ck (padding j @ ?sk @ ?cb)) = Inr (padding j, reading (?ck @ padding j) (?sk @ ?cb))"
    using j(2) by (simp add: bytes_simps)
  have r3: "read_data 32 (reading (?ck @ padding j) (?sk @ ?cb)) = Inr (?sk, reading (?ck @ padding j @ ?sk) ?cb)"
    using len by (simp add: bytes_simps)
  have cnt: "count (reading (?ck @ padding j @ ?sk) ?cb) = 384"
    using len j(2) by (simp add: bytes_simps)
  have unr: "locally_unreachable ?cert = False" "length (cert_buffer ?cert) = 7"
    using d(3) len(3) by simp_all
  show ?thesis
    unfolding ident_deserialize_def KeysPaddingLen_def d(1,2) rd1 bindr_simps rd2 prod.case cert Let_def unr
      if_False bk tv rp
    using len j(2) r1 r2 r3 cnt buf by simp
qed

text \<open>A verifier made from the bytes accepts what the identity signs.\<close>

lemma ident_short_buffer:
  assumes "387 \<le> length buf" "length buf < 391"
    and "ident_members E r1 r2 buf = Inr i"
  shows "ident_of_buffer E r1 r2 r3 r4 buf =
    throw_ex (Ex ''ReadBytes'' ''read_data'') Runtime_error ''param overflows buffer.''"
proof -
  have "id_buf i = buf" "length (cert_buffer (cert i)) = 7"
    using assms(3) by (auto simp: ident_members_def result_simps cert_default_def cert_of_types_eq)
  moreover have "length buf - 384 < 7" using assms(1,2) by simp
  ultimately show ?thesis
    using assms by (simp add: ident_of_buffer_def ident_sizes ident_deserialize_def bytes_on_reading bytes_simps)
qed

text \<open>A certificate for the Blake2b instance makes the identity that reads it undefined.\<close>

lemma state_default_blake_ub:
  assumes "prims_ok P" "create_keys P r = Inr k"
  shows "is_ub (state_default P (Blake2b blake) r)"
proof -
  have "length (pvtkey k) = 32" using create_keys_ok [OF assms] by (simp add: keypair_ok_def)
  then have "is_ub (Derive (Blake2b blake) (pvtkey keypair_default) (pvtkey k) (replicate (SaltLen (Blake2b blake)) 0)
      (kdf_ctx (Blake2b blake)))"
    by (intro Derive_blake_ub) (simp_all add: keypair_default_def fixed_default_def KeyLen_def)
  then show ?thesis
    using assms(2) by (simp add: state_default_def state_of_keys_def derive_ep_def DeriveEphemeralKeys_def
        state_members_def)
qed

end
