(* ===== verification/Mapping_I2P.thy ===== *)
theory Mapping_I2P
  imports Bytes "HOL-Library.List_Lexorder"
begin

text \<open>
  The I2P mapping of \<open>src/data/router/mapping.h\<close>: a set of key-value entries ordered by key,
  serialized as a 16-bit size (in the host's order, as \<open>write_bytes<std::uint16_t>\<close> writes
  it) followed by the entries \<open>len key '=' len value ';'\<close>. The set is the strictly ascending
  list of its entries. \<open>deserialize\<close> and \<open>add\<close> return the mapping only when they do not throw.
\<close>

section \<open>Sizes\<close>

definition DelimSize :: nat where "DelimSize = 2"
definition KVLenSize :: nat where "KVLenSize = 1"
definition MinKVSize :: nat where "MinKVSize = 1"
definition MaxKVSize :: nat where "MaxKVSize = 255"
definition SizeSize :: nat where "SizeSize = 2"
definition MinSize :: nat where "MinSize = 2 * (DelimSize + MinKVSize)"
definition MaxSize :: nat where "MaxSize = SizeSize + 65535"

lemmas mapping_sizes = DelimSize_def KVLenSize_def MinKVSize_def MaxKVSize_def SizeSize_def
  MinSize_def MaxSize_def

section \<open>Entries\<close>

datatype mapping_entry = MappingEntry (entry_key: "byte list") (entry_value: "byte list")

definition check_param :: "byte list \<Rightarrow> exception \<Rightarrow> unit result" where
  "check_param p ex =
     (if length p < MinKVSize \<or> length p > MaxKVSize
      then throw_ex ex Length_error ''invalid key-value size.'' else Inr ())"

definition entry_of_key :: "byte list \<Rightarrow> mapping_entry result" where
  "entry_of_key k =
     bindr (check_param k (Ex ''Router: Mapping'' ''MappingEntry''))
       (\<lambda>_. Inr (MappingEntry k []))"

definition entry_of_kv :: "byte list \<Rightarrow> byte list \<Rightarrow> mapping_entry result" where
  "entry_of_kv k v =
     (let ex = Ex ''Router: Mapping'' ''MappingEntry'' in
      bindr (check_param k ex) (\<lambda>_. bindr (check_param v ex) (\<lambda>_. Inr (MappingEntry k v))))"

definition entry_set_key :: "byte list \<Rightarrow> mapping_entry \<Rightarrow> mapping_entry result" where
  "entry_set_key k e =
     bindr (check_param k (Ex ''Router: Mapping'' ''key'')) (\<lambda>_. Inr (MappingEntry k (entry_value e)))"

definition entry_set_value :: "byte list \<Rightarrow> mapping_entry \<Rightarrow> mapping_entry result" where
  "entry_set_value v e =
     bindr (check_param v (Ex ''Router: Mapping'' ''value'')) (\<lambda>_. Inr (MappingEntry (entry_key e) v))"

definition entry_size :: "mapping_entry \<Rightarrow> nat" where
  "entry_size e =
     (if entry_key e = [] then 0 else length (entry_key e) + length (entry_value e) + DelimSize + 2 * KVLenSize)"

text \<open>\<open>operator<\<close> compares the keys only: entries are preordered by it, not ordered.\<close>

definition entry_less :: "mapping_entry \<Rightarrow> mapping_entry \<Rightarrow> bool" where
  "entry_less a b \<longleftrightarrow> entry_key a < entry_key b"

instantiation mapping_entry :: preorder
begin

definition less_mapping_entry :: "mapping_entry \<Rightarrow> mapping_entry \<Rightarrow> bool" where
  "less_mapping_entry = entry_less"

definition less_eq_mapping_entry :: "mapping_entry \<Rightarrow> mapping_entry \<Rightarrow> bool" where
  "less_eq_mapping_entry a b \<longleftrightarrow> entry_key a \<le> entry_key b"

instance
  by standard (auto simp: less_eq_mapping_entry_def less_mapping_entry_def entry_less_def)

end

lemma less_entry_key: "a < b \<longleftrightarrow> entry_key a < entry_key b"
  by (simp add: less_mapping_entry_def entry_less_def)

section \<open>The ordered set\<close>

text \<open>
  \<open>std::set::emplace\<close> leaves the set as it is when an equivalent entry is there;
  \<open>std::set::find\<close> looks for an equivalent entry.
\<close>

fun set_emplace :: "mapping_entry \<Rightarrow> mapping_entry list \<Rightarrow> mapping_entry list" where
  "set_emplace e [] = [e]"
| "set_emplace e (x # xs) =
     (if e < x then e # x # xs else if x < e then x # set_emplace e xs else x # xs)"

fun set_find :: "mapping_entry \<Rightarrow> mapping_entry list \<Rightarrow> mapping_entry option" where
  "set_find e [] = None"
| "set_find e (x # xs) = (if \<not> e < x \<and> \<not> x < e then Some x else set_find e xs)"

section \<open>Mapping\<close>

record mapping =
  kv :: "mapping_entry list"
  map_buffer :: "byte list"

definition empty_mapping :: mapping where
  "empty_mapping = \<lparr>kv = [], map_buffer = []\<rparr>"

text \<open>
  \<open>entry\<close> returns a reference. When there is no such key it refers to the value of the search key,
  a local variable that is gone when the caller looks at it: reading it is undefined.
\<close>

definition mapping_entry_at :: "byte list \<Rightarrow> mapping \<Rightarrow> byte list result" where
  "mapping_entry_at k m =
     bindr (entry_of_key k) (\<lambda>search.
       case set_find search (kv m) of
         Some e \<Rightarrow> Inr (entry_value e)
       | None \<Rightarrow> Inl (Undefined_behaviour ''reference to a destroyed entry''))"

text \<open>The size is computed on \<open>std::size_t\<close> and returned as a 16-bit integer.\<close>

definition mapping_size :: "mapping \<Rightarrow> u16" where
  "mapping_size m = word_of_nat (SizeSize + sum_list (map entry_size (kv m)))"

definition mapping_add :: "byte list \<Rightarrow> byte list \<Rightarrow> mapping \<Rightarrow> mapping result" where
  "mapping_add k v m =
     bindr (entry_of_kv k v) (\<lambda>entry.
       if entry_size entry + unat (mapping_size m) + SizeSize > MaxSize
       then throw_ex (Ex ''Router: Mapping'' ''add'') Runtime_error ''entry exceeds max mapping size.''
       else Inr (m\<lparr>kv := set_emplace entry (kv m)\<rparr>))"

definition kv_delim :: "byte list" where "kv_delim = [61]"
definition tail_delim :: "byte list" where "tail_delim = [59]"

fun write_entries :: "mapping_entry list \<Rightarrow> bytes \<Rightarrow> bytes result" where
  "write_entries [] w = Inr w"
| "write_entries (e # es) w =
     bindr (write_le (word_of_nat (length (entry_key e)) :: byte) w) (\<lambda>w.
     bindr (write_data (entry_key e) w) (\<lambda>w.
     bindr (write_data kv_delim w) (\<lambda>w.
     bindr (write_le (word_of_nat (length (entry_value e)) :: byte) w) (\<lambda>w.
     bindr (write_data (entry_value e) w) (\<lambda>w.
     bindr (write_data tail_delim w) (\<lambda>w. write_entries es w))))))"

definition mapping_serialize :: "mapping \<Rightarrow> mapping result" where
  "mapping_serialize m =
     (let w = bytes_on (resize (unat (mapping_size m)) (map_buffer m)) in
      bindr (write_le (mapping_size m - word_of_nat SizeSize) w) (\<lambda>w.
      bindr (write_entries (kv m) w) (\<lambda>w. Inr (m\<lparr>map_buffer := sbuf w\<rparr>))))"

text \<open>One round of the reading loop, and the loop: it ends because every round consumes bytes.\<close>

definition read_entry :: "bytes \<Rightarrow> (byte list \<times> byte list \<times> bytes) result" where
  "read_entry r =
     bindr (read_le r :: (byte \<times> bytes) result) (\<lambda>(key_size, r).
     bindr (read_data (unat key_size) r) (\<lambda>(k, r).
     bindr (skip_bytes (length kv_delim) r) (\<lambda>r.
     bindr (read_le r :: (byte \<times> bytes) result) (\<lambda>(val_size, r).
     bindr (read_data (unat val_size) r) (\<lambda>(v, r).
     bindr (skip_bytes (length tail_delim) r) (\<lambda>r. Inr (k, v, r)))))))"

lemma read_entry_consumes: "read_entry r = Inr (k, v, r') \<Longrightarrow> gcount r' < gcount r"
  by (auto simp: read_entry_def read_le_def read_bytes_def read_data_def skip_bytes_def
      advance_def check_buf_def result_simps gcount_def Let_def split: if_splits)

function deser_entries :: "bytes \<Rightarrow> mapping \<Rightarrow> mapping result" where
  "deser_entries r m =
     (if gcount r = 0 then Inr m
      else bindr (read_entry r) (\<lambda>(k, v, r'). bindr (mapping_add k v m) (deser_entries r')))"
  by pat_completeness auto
termination
  by (relation "measure (\<lambda>(r, m). gcount r)") (auto dest: read_entry_consumes)

declare deser_entries.simps [simp del]

definition mapping_deserialize :: "mapping \<Rightarrow> mapping result" where
  "mapping_deserialize m =
     (let r = bytes_on (map_buffer m) in
      bindr (read_le r :: (u16 \<times> bytes) result) (\<lambda>(sz, r).
        if sz = 0 then Inr m
        else if unat sz < MinSize \<or> unat sz + SizeSize > length (map_buffer m)
        then throw_ex (Ex ''Router: Mapping'' ''deserialize'') Length_error ''invalid mapping size.''
        else deser_entries r (m\<lparr>kv := []\<rparr>)))"

section \<open>The invariant of a mapping\<close>

text \<open>
  Entries ascend strictly by key, keys and values have between 1 and 255 bytes, and the
  total size fits the 16 bits it is computed in.
\<close>

definition entry_ok :: "mapping_entry \<Rightarrow> bool" where
  "entry_ok e \<longleftrightarrow> entry_key e \<noteq> [] \<and> length (entry_key e) \<le> 255
     \<and> entry_value e \<noteq> [] \<and> length (entry_value e) \<le> 255"

definition mapping_ok :: "mapping \<Rightarrow> bool" where
  "mapping_ok m \<longleftrightarrow> sorted_wrt (<) (kv m) \<and> list_all entry_ok (kv m)
     \<and> 2 + sum_list (map entry_size (kv m)) \<le> 65535"

definition entry_bytes :: "mapping_entry \<Rightarrow> byte list" where
  "entry_bytes e = word_of_nat (length (entry_key e)) # entry_key e @ kv_delim
     @ word_of_nat (length (entry_value e)) # entry_value e @ tail_delim"

lemma length_entry_bytes: "entry_ok e \<Longrightarrow> length (entry_bytes e) = entry_size e"
  by (auto simp: entry_bytes_def entry_size_def entry_ok_def mapping_sizes kv_delim_def tail_delim_def)

lemma entry_of_kv_Inr_iff:
  "entry_of_kv k v = Inr e \<longleftrightarrow> entry_ok (MappingEntry k v) \<and> e = MappingEntry k v"
  by (auto simp: entry_of_kv_def check_param_def entry_ok_def mapping_sizes Let_def)

lemma entry_of_key_eq:
  "k \<noteq> [] \<Longrightarrow> length k \<le> 255 \<Longrightarrow> entry_of_key k = Inr (MappingEntry k [])"
  by (simp add: entry_of_key_def check_param_def mapping_sizes)

lemma mapping_size_unat:
  assumes "mapping_ok m"
  shows "unat (mapping_size m) = 2 + sum_list (map entry_size (kv m))"
proof -
  have "2 + sum_list (map entry_size (kv m)) < 2 ^ LENGTH(16)"
    using assms by (simp add: mapping_ok_def)
  then show ?thesis
    by (simp only: mapping_size_def SizeSize_def unat_word_of_nat)
qed

lemma mapping_add_Inr_iff:
  "mapping_ok m \<Longrightarrow> mapping_add k v m = Inr m' \<longleftrightarrow>
     entry_ok (MappingEntry k v)
     \<and> 2 + entry_size (MappingEntry k v) + sum_list (map entry_size (kv m)) \<le> 65535
     \<and> m' = m\<lparr>kv := set_emplace (MappingEntry k v) (kv m)\<rparr>"
  by (auto simp: mapping_add_def result_simps entry_of_kv_Inr_iff mapping_size_unat mapping_sizes)

lemma less_entry_cases: "e < x \<or> x < e \<or> entry_key e = entry_key (x :: mapping_entry)"
  by (auto simp: less_entry_key)

lemma set_emplace_subset: "set (set_emplace e xs) \<subseteq> insert e (set xs)"
  by (induction xs) auto

lemma sorted_set_emplace: "sorted_wrt (<) xs \<Longrightarrow> sorted_wrt (<) (set_emplace e xs)"
proof (induction xs)
  case (Cons x xs)
  then show ?case
    using set_emplace_subset [of e xs] by (auto dest: less_trans)
qed simp

lemma sum_set_emplace: "sum_list (map entry_size (set_emplace e xs)) \<le> entry_size e + sum_list (map entry_size xs)"
  by (induction xs) auto

lemma mapping_ok_add:
  assumes "mapping_ok m" and "mapping_add k v m = Inr m'"
  shows "mapping_ok m'"
proof -
  let ?e = "MappingEntry k v"
  have m': "entry_ok ?e" "2 + entry_size ?e + sum_list (map entry_size (kv m)) \<le> 65535"
    "kv m' = set_emplace ?e (kv m)"
    using assms by (auto simp: mapping_add_Inr_iff)
  moreover have "list_all entry_ok (set_emplace ?e (kv m))"
    using set_emplace_subset [of ?e "kv m"] assms(1) m'(1) by (auto simp: mapping_ok_def list_all_iff)
  ultimately show ?thesis
    using assms(1) sorted_set_emplace [of "kv m" ?e] sum_set_emplace [of ?e "kv m"]
    by (simp add: mapping_ok_def)
qed

lemma mapping_ok_empty: "mapping_ok empty_mapping"
  by (simp add: mapping_ok_def empty_mapping_def)

text \<open>Looking a key up in the ascending list, and what \<open>emplace\<close> does to it.\<close>

definition kv_lookup :: "mapping_entry list \<Rightarrow> byte list \<Rightarrow> byte list option" where
  "kv_lookup es k = map_of (map (\<lambda>e. (entry_key e, entry_value e)) es) k"

lemma set_find_lookup:
  "map_option entry_value (set_find (MappingEntry k v) es) = kv_lookup es k"
  by (induction es) (auto simp: kv_lookup_def less_entry_key)

lemma kv_lookup_emplace:
  "sorted_wrt (<) es \<Longrightarrow> kv_lookup (set_emplace (MappingEntry k v) es) k' =
     (if k' = k \<and> kv_lookup es k = None then Some v else kv_lookup es k')"
proof (induction es)
  case (Cons x es)
  have None: "kv_lookup es k = None" if "MappingEntry k v < x"
  proof -
    have "entry_key y \<noteq> k" if "y \<in> set es" for y
      using Cons.prems that \<open>MappingEntry k v < x\<close> by (auto simp: less_entry_key dest: less_trans)
    then show ?thesis by (force simp: kv_lookup_def map_of_eq_None_iff)
  qed
  show ?case
    using Cons None less_entry_cases [of "MappingEntry k v" x]
    by (auto simp: kv_lookup_def less_entry_key)
qed (simp add: kv_lookup_def)

lemma mapping_entry_at_lookup:
  "k \<noteq> [] \<Longrightarrow> length k \<le> 255 \<Longrightarrow>
     mapping_entry_at k m = (case kv_lookup (kv m) k of
       Some v \<Rightarrow> Inr v | None \<Rightarrow> Inl (Undefined_behaviour ''reference to a destroyed entry''))"
  using set_find_lookup [of k "[]" "kv m", symmetric]
  by (auto simp: mapping_entry_at_def entry_of_key_eq split: option.splits)

section \<open>Serialization\<close>

lemma write_entries_written:
  "list_all entry_ok es \<Longrightarrow> length ys + sum_list (map entry_size es) \<le> length b \<Longrightarrow>
     write_entries es (written ys b) = Inr (written (ys @ concat (map entry_bytes es)) b)"
proof (induction es arbitrary: ys)
  case (Cons e es)
  have "length (entry_bytes e) = entry_size e"
    using Cons.prems(1) by (simp add: length_entry_bytes)
  then have room: "length ys + length (entry_bytes e) + sum_list (map entry_size es) \<le> length b"
    using Cons.prems(2) by simp
  then show ?case
    using Cons by (simp add: bytes_simps entry_bytes_def kv_delim_def tail_delim_def)
qed simp

lemma read_entry_bytes:
  "entry_ok e \<Longrightarrow> read_entry (reading pre (entry_bytes e @ rest)) =
     Inr (entry_key e, entry_value e, reading (pre @ entry_bytes e) rest)"
  by (simp add: read_entry_def entry_bytes_def entry_ok_def bytes_simps Let_def kv_delim_def
      tail_delim_def unat_of_nat take_bit_nat_eq_self)

lemma set_emplace_last: "sorted_wrt (<) (xs @ [e]) \<Longrightarrow> set_emplace e xs = xs @ [e]"
  by (induction xs) (auto simp: less_entry_key)

lemma mapping_ok_appendD:
  "mapping_ok (m\<lparr>kv := xs @ ys\<rparr>) \<Longrightarrow> mapping_ok (m\<lparr>kv := xs\<rparr>)"
  by (simp add: mapping_ok_def sorted_wrt_append)

lemma deser_entries_bytes:
  "mapping_ok (m\<lparr>kv := kv m @ es\<rparr>) \<Longrightarrow>
     deser_entries (reading pre (concat (map entry_bytes es))) m = Inr (m\<lparr>kv := kv m @ es\<rparr>)"
proof (induction es arbitrary: m pre)
  case Nil
  then show ?case by (subst deser_entries.simps) (simp add: bytes_simps)
next
  case (Cons e es)
  have ok: "entry_ok e" and srt: "sorted_wrt (<) (kv m @ [e])"
    using Cons.prems by (simp_all add: mapping_ok_def sorted_wrt_append)
  have okm: "mapping_ok (m\<lparr>kv := kv m\<rparr>)"
    using mapping_ok_appendD [OF Cons.prems] .
  have add: "mapping_add (entry_key e) (entry_value e) m = Inr (m\<lparr>kv := kv m @ [e]\<rparr>)"
    using okm ok Cons.prems set_emplace_last [OF srt]
    by (simp add: mapping_add_Inr_iff) (simp add: mapping_ok_def)
  have "gcount (reading pre (concat (map entry_bytes (e # es)))) \<noteq> 0"
    by (simp add: bytes_simps entry_bytes_def)
  then show ?case
    using Cons.IH [of "m\<lparr>kv := kv m @ [e]\<rparr>" "pre @ entry_bytes e"] Cons.prems add ok
    by (subst deser_entries.simps) (simp add: read_entry_bytes)
qed

definition mapping_bytes :: "mapping \<Rightarrow> byte list" where
  "mapping_bytes m = le_of_word (mapping_size m - 2) @ concat (map entry_bytes (kv m))"

lemma length_entries:
  "list_all entry_ok es \<Longrightarrow> length (concat (map entry_bytes es)) = sum_list (map entry_size es)"
  by (induction es) (simp_all add: length_entry_bytes)

lemma length_mapping_bytes: "mapping_ok m \<Longrightarrow> length (mapping_bytes m) = unat (mapping_size m)"
  using length_entries [of "kv m"]
  by (simp add: mapping_bytes_def mapping_size_unat) (simp add: mapping_ok_def)

lemma mapping_serialize_eq:
  assumes "mapping_ok m"
  shows "mapping_serialize m = Inr (m\<lparr>map_buffer := mapping_bytes m\<rparr>)"
proof -
  let ?b = "resize (unat (mapping_size m)) (map_buffer m)"
  have es: "list_all entry_ok (kv m)" using assms by (simp add: mapping_ok_def)
  have "write_entries (kv m) (written (le_of_word (mapping_size m - 2)) ?b) = Inr (written (mapping_bytes m) ?b)"
    using es by (simp add: write_entries_written mapping_size_unat [OF assms] mapping_bytes_def)
  moreover have "write_le (mapping_size m - 2) (written [] ?b) = Inr (written (le_of_word (mapping_size m - 2)) ?b)"
    by (simp add: write_le_fits mapping_size_unat [OF assms])
  ultimately show ?thesis
    by (simp add: mapping_serialize_def Let_def bytes_on_written SizeSize_def written_sel
        length_mapping_bytes [OF assms])
qed

lemma mapping_deserialize_bytes:
  assumes "mapping_ok m" and "kv m \<noteq> []" and "map_buffer n = mapping_bytes m"
  shows "mapping_deserialize n = Inr (n\<lparr>kv := kv m\<rparr>)"
proof -
  obtain e es where kv: "kv m = e # es" using assms(2) by (cases "kv m") auto
  have "6 \<le> entry_size e"
    using assms(1) kv
    by (cases "entry_key e"; cases "entry_value e")
      (auto simp: mapping_ok_def entry_ok_def entry_size_def mapping_sizes)
  then have sz: "unat (mapping_size m) \<ge> 8" using mapping_size_unat [OF assms(1)] kv by simp
  then have sub: "unat (mapping_size m - 2) = unat (mapping_size m) - 2"
    by (subst unat_sub) (simp_all add: word_le_nat_alt)
  have "mapping_ok (n\<lparr>kv := kv (n\<lparr>kv := []\<rparr>) @ kv m\<rparr>)"
    using assms(1) by (simp add: mapping_ok_def)
  then have "deser_entries (reading (le_of_word (mapping_size m - 2)) (concat (map entry_bytes (kv m))))
      (n\<lparr>kv := []\<rparr>) = Inr (n\<lparr>kv := kv m\<rparr>)"
    using deser_entries_bytes [of "n\<lparr>kv := []\<rparr>" "kv m"] by simp
  moreover have "length (map_buffer n) = unat (mapping_size m)"
    using assms(1,3) by (simp add: length_mapping_bytes)
  moreover have "mapping_size m - 2 \<noteq> 0" using sub sz by auto
  ultimately show ?thesis
    using sub sz assms(3)
    by (auto simp: mapping_deserialize_def Let_def bytes_simps mapping_bytes_def field_get mapping_sizes)
qed

end
