(* ===== verification/Address.thy ===== *)
theory Address
  imports Mapping_I2P
begin

text \<open>
  Router addresses, \<open>src/data/router/address.h\<close>: a cost, an expiration that must be zero, a
  transport name and a mapping of options. \<open>to_string\<close> and \<open>stoul\<close> are the standard
  library's decimal conversions; parsing a host name into an IP address is Boost's, and is
  the argument \<open>make_address\<close> of \<open>ToEndpoint\<close>.
\<close>

section \<open>Decimal numbers\<close>

definition ascii :: "string \<Rightarrow> byte list" where
  "ascii s = map of_char s"

fun to_string :: "nat \<Rightarrow> byte list" where
  "to_string n =
     (if n < 10 then [word_of_nat (48 + n)]
      else to_string (n div 10) @ [word_of_nat (48 + n mod 10)])"

declare to_string.simps [simp del]

definition is_space :: "byte \<Rightarrow> bool" where
  "is_space c \<longleftrightarrow> c = 32 \<or> 9 \<le> c \<and> c \<le> 13"

definition is_digit :: "byte \<Rightarrow> bool" where
  "is_digit c \<longleftrightarrow> 48 \<le> c \<and> c \<le> 57"

definition digits_value :: "byte list \<Rightarrow> nat" where
  "digits_value ds = foldl (\<lambda>n d. 10 * n + (unat d - 48)) 0 ds"

text \<open>
  \<open>std::stoul\<close>: white space, a sign, the longest run of digits; what follows is ignored.
  A minus sign negates modulo \<open>2 ^ 64\<close>.
\<close>

definition stoul :: "byte list \<Rightarrow> u64 result" where
  "stoul bs =
     (let s = dropWhile is_space bs;
          neg = (case s of c # _ \<Rightarrow> c = 45 | [] \<Rightarrow> False);
          s' = (case s of c # t \<Rightarrow> if c = 45 \<or> c = 43 then t else s | [] \<Rightarrow> []);
          ds = takeWhile is_digit s'; n = digits_value ds
      in if ds = [] then Inl (Throw Invalid_argument ''stoul'')
         else if n \<ge> 2 ^ 64 then Inl (Throw Out_of_range ''stoul'')
         else Inr (if neg then - word_of_nat n else word_of_nat n))"

section \<open>Address\<close>

definition DefaultCost :: byte where "DefaultCost = 8"
definition ExpirationSize :: nat where "ExpirationSize = 8"
definition TransportLenSize :: nat where "TransportLenSize = 1"

definition ntcp_transport :: "byte list" where
  "ntcp_transport = [0x6e, 0x74, 0x63, 0x70]"

definition ntcp2_transport :: "byte list" where
  "ntcp2_transport = [0x6e, 0x74, 0x63, 0x70, 0x32]"

record address =
  cost :: byte
  expiration :: u64
  transport :: "byte list"
  options :: mapping
  addr_buffer :: "byte list"

definition address_check_params :: "exception \<Rightarrow> address \<Rightarrow> unit result" where
  "address_check_params ex a =
     (if expiration a \<noteq> 0 then throw_ex ex Runtime_error ''invalid expiration date.''
      else if transport a \<noteq> ntcp_transport \<and> transport a \<noteq> ntcp2_transport
      then throw_ex ex Length_error ''invalid transport.''
      else Inr ())"

definition address_size :: "address \<Rightarrow> nat" where
  "address_size a = 1 + ExpirationSize + TransportLenSize + length (transport a)
     + unat (mapping_size (options a))"

definition address_serialize :: "address \<Rightarrow> address result" where
  "address_serialize a =
     (let w = bytes_on (resize (address_size a) (addr_buffer a)) in
      bindr (address_check_params (Ex ''Router: Address'' ''serialize'') a) (\<lambda>_.
      bindr (write_be (cost a) w) (\<lambda>w.
      bindr (write_le (expiration a) w) (\<lambda>w.
      bindr (write_be (word_of_nat (length (transport a)) :: byte) w) (\<lambda>w.
      bindr (write_data (transport a) w) (\<lambda>w.
      bindr (mapping_serialize (options a)) (\<lambda>opts.
      bindr (write_data (map_buffer opts) w) (\<lambda>w.
        Inr (a\<lparr>options := opts, addr_buffer := sbuf w\<rparr>)))))))))"

text \<open>
  The size of the options is peeked at with the unchecked \<open>tini2p::read_bytes\<close>, through an
  iterator into the address's own buffer, before the options are read.
\<close>

definition address_deserialize :: "address \<Rightarrow> address result" where
  "address_deserialize a =
     (let r = bytes_on (addr_buffer a) in
      bindr (read_be r) (\<lambda>(cost', r).
      bindr (read_le r) (\<lambda>(expiration', r).
      bindr (read_be r :: (byte \<times> bytes) result) (\<lambda>(tsize, r).
      bindr (read_data (unat tsize) r) (\<lambda>(transport', r).
      let a1 = a\<lparr>cost := cost', expiration := expiration', transport := transport'\<rparr> in
      bindr (address_check_params (Ex ''Router: Address'' ''deserialize'') a1) (\<lambda>_.
      bindr (raw_read_bytes 2 (Some (drop (count r) (addr_buffer a)))) (\<lambda>bs.
      let opt_size = word_of_le bs :: u16 in
      bindr (read_data (SizeSize + unat opt_size) r) (\<lambda>(opt_buf, r).
      bindr (mapping_deserialize ((options a)\<lparr>map_buffer := opt_buf\<rparr>)) (\<lambda>opts.
        Inr (a1\<lparr>options := opts\<rparr>))))))))))"

definition address_fields :: address where
  "address_fields = \<lparr>cost = DefaultCost, expiration = 0, transport = ntcp2_transport,
     options = empty_mapping, addr_buffer = []\<rparr>"

definition address_default :: "address result" where
  "address_default = address_serialize address_fields"

definition address_of_host :: "byte list \<Rightarrow> u16 \<Rightarrow> address result" where
  "address_of_host host port =
     bindr (mapping_add (ascii ''host'') host empty_mapping) (\<lambda>opts.
     bindr (mapping_add (ascii ''port'') (to_string (unat port)) opts) (\<lambda>opts.
     address_serialize (address_fields\<lparr>options := opts\<rparr>)))"

text \<open>The endpoint: an IP address and a port, which the endpoint's constructor cuts to 16 bits.\<close>

definition ToEndpoint :: "(byte list \<Rightarrow> 'ip result) \<Rightarrow> address \<Rightarrow> ('ip \<times> u16) result" where
  "ToEndpoint make_address a =
     (let ex = Ex ''Router: Info'' ''ToEndpoint'' in
      bindr (mapping_entry_at (ascii ''host'') (options a)) (\<lambda>host.
      if host = [] then throw_ex ex Length_error ''null host.'' else
      bindr (mapping_entry_at (ascii ''port'') (options a)) (\<lambda>port_buf.
      if port_buf = [] then throw_ex ex Length_error ''null port.'' else
      bindr (make_address host) (\<lambda>ip.
      bindr (stoul port_buf) (\<lambda>p. Inr (ip, ucast p))))))"

section \<open>Decimal round trip\<close>

lemma unat_digit: "d < 10 \<Longrightarrow> unat (word_of_nat (48 + d) :: byte) = 48 + d"
  by (rule unat_word_of_nat) simp

lemma is_digit_word: "d < 10 \<Longrightarrow> is_digit (word_of_nat (48 + d))"
  unfolding is_digit_def word_le_nat_alt unat_digit by simp

lemma to_string_digits: "list_all is_digit (to_string n)"
  by (induction n rule: to_string.induct) (subst to_string.simps, simp add: is_digit_word del: of_nat_add)

lemma to_string_not_Nil [simp]: "to_string n \<noteq> []"
  by (subst to_string.simps) simp

lemma digits_value_to_string: "digits_value (to_string n) = n"
proof (induction n rule: to_string.induct)
  case (1 n)
  then show ?case
    by (subst to_string.simps) (simp add: digits_value_def unat_digit del: of_nat_add)
qed

lemma is_digit_not_space: "is_digit c \<Longrightarrow> \<not> is_space c"
  by (auto simp: is_digit_def is_space_def word_le_nat_alt word_eq_iff_unsigned)

lemma stoul_to_string:
  assumes "n < 2 ^ 64"
  shows "stoul (to_string n) = Inr (word_of_nat n)"
proof -
  obtain c t where ct: "to_string n = c # t" by (cases "to_string n") auto
  have dig: "list_all is_digit (c # t)" using to_string_digits [of n] ct by simp
  then have "takeWhile is_digit (c # t) = c # t" by (simp add: list_all_iff)
  moreover have "digits_value (c # t) = n" using digits_value_to_string [of n] ct by simp
  moreover have "c \<noteq> 45" "c \<noteq> 43" "\<not> is_space c"
    using dig is_digit_not_space [of c] by (auto simp: is_digit_def)
  ultimately show ?thesis using assms ct by (simp add: stoul_def Let_def)
qed

lemma length_to_string: "n < 10 ^ k \<Longrightarrow> 0 < k \<Longrightarrow> length (to_string n) \<le> k"
proof (induction n arbitrary: k rule: to_string.induct)
  case (1 n)
  show ?case
  proof (cases "n < 10")
    case True
    then show ?thesis using "1.prems"(2) by (subst to_string.simps) simp
  next
    case False
    then obtain j where k: "k = Suc (Suc j)"
      using "1.prems" by (cases k; cases "k - 1") auto
    then have "length (to_string (n div 10)) \<le> Suc j"
      using False "1.prems"(1) by (intro "1.IH") (auto simp: div_less_iff_less_mult)
    then show ?thesis using False k by (subst to_string.simps) simp
  qed
qed

section \<open>Serialization\<close>

definition address_ok :: "address \<Rightarrow> bool" where
  "address_ok a \<longleftrightarrow> expiration a = 0 \<and> transport a \<in> {ntcp_transport, ntcp2_transport}
     \<and> mapping_ok (options a)"

definition address_bytes :: "address \<Rightarrow> byte list" where
  "address_bytes a = cost a # le_of_word (0::u64)
     @ word_of_nat (length (transport a)) # transport a @ mapping_bytes (options a)"

lemma transport_len: "address_ok a \<Longrightarrow> length (transport a) = 4 \<or> length (transport a) = 5"
  by (auto simp: address_ok_def ntcp_transport_def ntcp2_transport_def)

lemma length_address_bytes: "address_ok a \<Longrightarrow> length (address_bytes a) = address_size a"
  by (simp add: address_bytes_def address_size_def address_ok_def length_mapping_bytes
      ExpirationSize_def TransportLenSize_def)

lemma address_check_ok: "address_ok a \<Longrightarrow> address_check_params ex a = Inr ()"
  by (auto simp: address_check_params_def address_ok_def)

lemma address_serialize_eq:
  assumes "address_ok a"
  shows "address_serialize a =
    Inr (a\<lparr>options := (options a)\<lparr>map_buffer := mapping_bytes (options a)\<rparr>, addr_buffer := address_bytes a\<rparr>)"
proof -
  let ?n = "length (transport a)" and ?b = "resize (address_size a) (addr_buffer a)"
  have m: "mapping_ok (options a)" and e: "expiration a = 0" using assms by (auto simp: address_ok_def)
  have sz: "address_size a = 10 + ?n + length (mapping_bytes (options a))"
    using m by (simp add: address_size_def length_mapping_bytes ExpirationSize_def TransportLenSize_def)
  have "drop (length (address_bytes a)) ?b = []"
    by (simp add: length_address_bytes [OF assms])
  then show ?thesis
    using sz e by (simp add: address_serialize_def Let_def address_check_ok [OF assms] bytes_on_written
        bytes_simps mapping_serialize_eq [OF m]) (simp add: address_bytes_def)
qed

lemma mapping_deserialize_any:
  assumes "mapping_ok m" and "map_buffer n = mapping_bytes m" and "kv m \<noteq> [] \<or> kv n = []"
  shows "mapping_deserialize n = Inr (n\<lparr>kv := kv m\<rparr>)"
proof (cases "kv m = []")
  case True
  then have "map_buffer n = le_of_word (0::u16)"
    using assms(2) by (simp add: mapping_bytes_def mapping_size_def SizeSize_def)
  then show ?thesis
    using True assms(3) field_get(4) [of "[]" 0 "[]"]
    by (simp add: mapping_deserialize_def Let_def bytes_on_reading)
qed (use assms mapping_deserialize_bytes in blast)

lemma mapping_bytes_peek:
  "word_of_le (take 2 (mapping_bytes m @ rest)) = mapping_size m - 2"
  by (simp add: mapping_bytes_def)

lemma take_mapping_bytes:
  "mapping_ok m \<Longrightarrow> n = 2 + unat (mapping_size m - 2) \<Longrightarrow>
     length (mapping_bytes m) = n \<and> take n (mapping_bytes m @ rest) = mapping_bytes m
     \<and> drop n (mapping_bytes m @ rest) = rest"
proof -
  assume m: "mapping_ok m" and n: "n = 2 + unat (mapping_size m - 2)"
  have "2 \<le> unat (mapping_size m)" using m by (simp add: mapping_size_unat)
  then have "unat (mapping_size m - 2) = unat (mapping_size m) - 2"
    by (subst unat_sub) (simp_all add: word_le_nat_alt)
  then have "length (mapping_bytes m) = n"
    using m n \<open>2 \<le> _\<close> by (simp add: length_mapping_bytes)
  then show ?thesis by simp
qed

lemma address_deserialize_bytes:
  assumes "address_ok a" and "addr_buffer b = address_bytes a @ rest"
    and "kv (options a) \<noteq> [] \<or> kv (options b) = []"
  shows "address_deserialize b =
    Inr (b\<lparr>cost := cost a, expiration := 0, transport := transport a,
           options := (options b)\<lparr>kv := kv (options a), map_buffer := mapping_bytes (options a)\<rparr>\<rparr>)"
proof -
  let ?m = "options a"
  have m: "mapping_ok ?m" using assms(1) by (simp add: address_ok_def)
  have tl: "unat (word_of_nat (length (transport a)) :: byte) = length (transport a)"
    using transport_len [OF assms(1)] by auto
  have chk: "address_check_params ex (b\<lparr>cost := cost a, expiration := 0, transport := transport a\<rparr>) = Inr ()" for ex
    using assms(1) by (auto simp: address_check_params_def address_ok_def)
  have opt: "mapping_deserialize ((options b)\<lparr>map_buffer := mapping_bytes ?m\<rparr>) =
      Inr ((options b)\<lparr>kv := kv ?m, map_buffer := mapping_bytes ?m\<rparr>)"
    using mapping_deserialize_any [OF m, of "(options b)\<lparr>map_buffer := mapping_bytes ?m\<rparr>"] assms(3) by simp
  note tk = take_mapping_bytes [OF m refl, of rest]
  have "drop (10 + length (transport a)) (cost a # le_of_word (0::u64) @ word_of_nat (length (transport a))
      # transport a @ mapping_bytes ?m @ rest) = mapping_bytes ?m @ rest"
    by (simp add: drop_Cons')
  then have pk: "word_of_le (take 2 (drop (10 + length (transport a)) (cost a # le_of_word (0::u64)
      @ word_of_nat (length (transport a)) # transport a @ mapping_bytes ?m @ rest))) = mapping_size ?m - 2"
    by (simp only: mapping_bytes_peek)
  show ?thesis
    using tk opt
    by (simp add: address_deserialize_def Let_def assms(2) address_bytes_def bytes_on_reading
        field_get tl bytes_simps chk raw_read_bytes_def SizeSize_def pk)
qed

section \<open>The endpoint of an address\<close>

lemma mapping_ok_two:
  assumes "k1 \<noteq> []" "length k1 \<le> 255" "v1 \<noteq> []" "length v1 \<le> 255"
    and "k2 \<noteq> []" "length k2 \<le> 255" "v2 \<noteq> []" "length v2 \<le> 255" and "k1 < k2"
  shows "\<exists>m1 m2. mapping_add k1 v1 empty_mapping = Inr m1 \<and> mapping_add k2 v2 m1 = Inr m2
    \<and> mapping_ok m2 \<and> kv m2 = [MappingEntry k1 v1, MappingEntry k2 v2]"
proof -
  let ?m1 = "empty_mapping\<lparr>kv := [MappingEntry k1 v1]\<rparr>"
  let ?m2 = "empty_mapping\<lparr>kv := [MappingEntry k1 v1, MappingEntry k2 v2]\<rparr>"
  have "mapping_ok ?m1" "mapping_ok ?m2"
    using assms by (auto simp: mapping_ok_def entry_ok_def less_entry_key entry_size_def mapping_sizes)
  moreover have "mapping_add k1 v1 empty_mapping = Inr ?m1"
    using assms by (simp add: mapping_add_Inr_iff mapping_ok_empty entry_ok_def entry_size_def mapping_sizes)
      (simp add: empty_mapping_def)
  moreover have "mapping_add k2 v2 ?m1 = Inr ?m2"
    using assms \<open>mapping_ok ?m1\<close>
    by (auto simp: mapping_add_Inr_iff entry_ok_def entry_size_def mapping_sizes less_entry_key)
  ultimately show ?thesis by auto
qed

lemma length_port: "length (to_string (unat (p::u16))) \<le> 5"
  using unat_bound [of p] by (intro length_to_string) simp_all

lemma ascii_host_port: "ascii ''host'' < ascii ''port''" "ascii ''host'' \<noteq> []" "ascii ''port'' \<noteq> []"
    "length (ascii ''host'') = 4" "length (ascii ''port'') = 4" "ascii ''port'' \<noteq> ascii ''host''"
  by (simp_all add: ascii_def)

lemma address_of_host_ok:
  assumes "host \<noteq> []" "length host \<le> 255"
  shows "\<exists>a. address_of_host host port = Inr a \<and> address_ok a \<and> addr_buffer a = address_bytes a
    \<and> kv (options a) = [MappingEntry (ascii ''host'') host, MappingEntry (ascii ''port'') (to_string (unat port))]"
proof -
  obtain m1 m2 where m: "mapping_add (ascii ''host'') host empty_mapping = Inr m1"
    "mapping_add (ascii ''port'') (to_string (unat port)) m1 = Inr m2" "mapping_ok m2"
    "kv m2 = [MappingEntry (ascii ''host'') host, MappingEntry (ascii ''port'') (to_string (unat port))]"
    using mapping_ok_two [of "ascii ''host''" host "ascii ''port''" "to_string (unat port)"]
      assms length_port [of port] ascii_host_port by auto
  have ok: "address_ok (address_fields\<lparr>options := m2\<rparr>)"
    using m(3) by (simp add: address_ok_def address_fields_def)
  have "mapping_bytes (m2\<lparr>map_buffer := b\<rparr>) = mapping_bytes m2" for b
    by (simp add: mapping_bytes_def mapping_size_def)
  moreover have "mapping_ok (m2\<lparr>map_buffer := b\<rparr>)" for b
    using m(3) by (simp add: mapping_ok_def)
  ultimately show ?thesis
    using m ok address_serialize_eq [OF ok]
    by (simp add: address_of_host_def address_ok_def address_bytes_def)
qed

lemma ToEndpoint_of_kv:
  assumes "kv (options a) = [MappingEntry (ascii ''host'') host, MappingEntry (ascii ''port'') (to_string (unat port))]"
    and "host \<noteq> []"
  shows "ToEndpoint make_address a = bindr (make_address host) (\<lambda>ip. Inr (ip, port))"
proof -
  have "unat port < 2 ^ 64" using unat_bound [of port] by simp
  then show ?thesis
    using assms by (simp add: ToEndpoint_def mapping_entry_at_lookup ascii_host_port kv_lookup_def
        Let_def stoul_to_string ucast_up_down)
qed

text \<open>
  An address cut right after its transport passes every check and is then read past the end
  of its buffer.
\<close>

lemma address_truncated_ub:
  assumes "addr_buffer a = 8 # le_of_word (0::u64) @ 5 # ntcp2_transport"
  shows "is_ub (address_deserialize a)"
  using assms
  by (simp add: address_deserialize_def bytes_on_reading bytes_simps field_get Let_def
      address_check_params_def raw_read_bytes_def)
    (simp add: ntcp2_transport_def ntcp_transport_def SizeSize_def field_get bytes_simps raw_read_bytes_def)

end
