(* ===== verification/Codec.thy ===== *)
theory Codec
  imports SecBytes
begin

text \<open>
  The Base32 and Base64 codecs of \<open>src/crypto/codecs.h\<close> (RFC 4648, with I2P's alphabet for
  Base64). A C++ \<open>char\<close> is a byte compared as a signed number. The source computes the
  character tables on promoted integers and cuts the result to 8 bits; every operation there
  (addition, AND, OR, XOR) has the same low 8 bits on bytes, so the model computes on bytes.
\<close>

section \<open>Comparisons and alphabets\<close>

definition cmp_eq :: "byte \<Rightarrow> byte \<Rightarrow> byte" where
  "cmp_eq ch och = (if ch = och then 0xff else 0x00)"

definition cmp_le :: "byte \<Rightarrow> byte \<Rightarrow> byte" where
  "cmp_le ch och = (if sint ch \<le> sint och then 0xff else 0x00)"

definition cmp_lt :: "byte \<Rightarrow> byte \<Rightarrow> byte" where
  "cmp_lt ch och = (if sint ch < sint och then 0xff else 0x00)"

definition cmp_ge :: "byte \<Rightarrow> byte \<Rightarrow> byte" where
  "cmp_ge ch och = (if sint ch \<ge> sint och then 0xff else 0x00)"

definition cmp_gt :: "byte \<Rightarrow> byte \<Rightarrow> byte" where
  "cmp_gt ch och = (if sint ch > sint och then 0xff else 0x00)"

text \<open>The character codes the tables use: \<open>'a' = 97\<close>, \<open>'z' = 122\<close>, \<open>'2' = 50\<close>, and so on.\<close>

definition b32_to_char :: "byte \<Rightarrow> byte" where
  "b32_to_char x = (cmp_le x 25 AND (x + 97)) OR (cmp_gt x 25 AND (x + (50 - 26)))"

definition b32_to_byte :: "byte \<Rightarrow> byte" where
  "b32_to_byte c =
     (let x = (cmp_ge c 97 AND cmp_le c 122 AND (c - 97))
              OR (cmp_ge c 50 AND cmp_le c 55 AND (c - (50 - 26)))
      in x OR (cmp_eq x 0 AND (cmp_eq c 97 XOR 0xff)))"

definition b32_pad_len :: "nat \<Rightarrow> nat" where
  "b32_pad_len n =
     (let rem = (n * 8) mod 40
      in if rem = 8 then 6 else if rem = 16 then 4 else if rem = 24 then 3
         else if rem = 32 then 1 else 0)"

definition b64_to_char :: "byte \<Rightarrow> byte" where
  "b64_to_char x =
     (cmp_lt x 26 AND (x + 65)) OR (cmp_ge x 26 AND cmp_lt x 52 AND (x + (97 - 26)))
     OR (cmp_ge x 52 AND cmp_lt x 62 AND (x + (48 - 52))) OR (cmp_eq x 62 AND 45)
     OR (cmp_eq x 63 AND 126)"

definition b64_to_byte :: "byte \<Rightarrow> byte" where
  "b64_to_byte c =
     (let x = (cmp_ge c 65 AND cmp_le c 90 AND (c - 65))
              OR (cmp_ge c 97 AND cmp_le c 122 AND (c - (97 - 26)))
              OR (cmp_ge c 48 AND cmp_le c 57 AND (c - (48 - 52)))
              OR (cmp_eq c 45 AND 62) OR (cmp_eq c 126 AND 63)
      in x OR (cmp_eq x 0 AND (cmp_eq c 65 XOR 0xff)))"

definition b64_pad_len :: "nat \<Rightarrow> nat" where
  "b64_pad_len n =
     (let rem = (n * 8) mod 24 in if rem = 8 then 2 else if rem = 16 then 1 else 0)"

text \<open>The constants and the static functions a codec implementation provides.\<close>

record codec =
  ChunkLen :: nat
  BitsLen :: nat
  EncodedBits :: nat
  EncodeMask :: u32
  DecodeMask :: u32
  WithPadding :: bool
  to_char :: "byte \<Rightarrow> byte"
  to_byte :: "byte \<Rightarrow> byte"
  pad_len :: "nat \<Rightarrow> nat"

definition Base32 :: codec where
  "Base32 = \<lparr>ChunkLen = 40, BitsLen = 8, EncodedBits = 5, EncodeMask = 0x1f, DecodeMask = 0xff,
     WithPadding = False, to_char = b32_to_char, to_byte = b32_to_byte, pad_len = b32_pad_len\<rparr>"

definition Base64 :: codec where
  "Base64 = \<lparr>ChunkLen = 24, BitsLen = 8, EncodedBits = 6, EncodeMask = 0x3f, DecodeMask = 0xff,
     WithPadding = True, to_char = b64_to_char, to_byte = b64_to_byte, pad_len = b64_pad_len\<rparr>"

section \<open>Encoding\<close>

text \<open>
  The inner loop: while more bits than one group are in the accumulator, emit the oldest
  group. (\<open>EncodedBits\<close> is positive in both implementations; the guard says so.)
\<close>

fun enc_groups :: "codec \<Rightarrow> u32 \<Rightarrow> nat \<Rightarrow> byte list \<times> nat" where
  "enc_groups c acc acc_len =
     (if acc_len > EncodedBits c \<and> 0 < EncodedBits c
      then (let l = acc_len - EncodedBits c;
                ch = to_char c (ucast (drop_bit l acc AND EncodeMask c));
                (out, l') = enc_groups c acc l
            in (ch # out, l'))
      else ([], acc_len))"

declare enc_groups.simps [simp del]

text \<open>The outer loop over the input bytes: the characters, the accumulator and its length.\<close>

fun enc_loop :: "codec \<Rightarrow> u32 \<Rightarrow> nat \<Rightarrow> byte list \<Rightarrow> byte list \<times> u32 \<times> nat" where
  "enc_loop c acc acc_len [] = ([], acc, acc_len)"
| "enc_loop c acc acc_len (b # bs) =
     (let acc1 = push_bit (BitsLen c) acc + ucast b;
          (out1, len1) = enc_groups c acc1 (acc_len + BitsLen c);
          (out2, acc2, len2) = enc_loop c acc1 len1 bs
      in (out1 @ out2, acc2, len2))"

definition Encode :: "codec \<Rightarrow> byte list \<Rightarrow> byte list result" where
  "Encode c bs =
     (if bs = [] then throw_ex (Ex ''Codec'' ''Encode'') Invalid_argument ''null input.''
      else (let (out, acc, acc_len) = enc_loop c 0 0 bs;
                tail = (if acc_len = 0 then []
                        else [to_char c (ucast (push_bit (EncodedBits c - acc_len) acc
                                AND EncodeMask c))]);
                pad = (if WithPadding c then replicate (pad_len c (length bs)) 61 else [])
            in Inr (out @ tail @ pad)))"

section \<open>Decoding\<close>

text \<open>
  The size of the output buffer. The source computes it in single precision, which is exact
  (and then cut) as long as \<open>EncodedBits * size\<close> stays below \<open>2^24\<close>: inputs of up to
  2796202 characters.
\<close>

definition decoded_len :: "codec \<Rightarrow> nat \<Rightarrow> nat" where
  "decoded_len c n = (n * EncodedBits c * EncodedBits c) div ChunkLen c"

fun dec_loop :: "codec \<Rightarrow> bytes \<Rightarrow> u32 \<Rightarrow> nat \<Rightarrow> byte list \<Rightarrow> bytes result" where
  "dec_loop c w acc acc_len [] = Inr w"
| "dec_loop c w acc acc_len (ch # chs) =
     (let ex = Ex ''Codec'' ''Decode'' in
      if ch = 61 then Inr w
      else (let d = to_byte c ch in
        if d = 0xff then throw_ex ex Logic_error ''invalid byte.''
        else (let acc1 = push_bit (EncodedBits c) acc + ucast d;
                  len1 = acc_len + EncodedBits c in
          if BitsLen c \<le> len1
          then (let len2 = len1 - BitsLen c in
                if gcount w \<noteq> 0
                then bindr (write_be (ucast (drop_bit len2 acc1 AND DecodeMask c) :: byte) w)
                       (\<lambda>w'. dec_loop c w' acc1 len2 chs)
                else throw_ex ex Length_error ''max length exceeded.'')
          else dec_loop c w acc1 len1 chs)))"

definition Decode :: "codec \<Rightarrow> byte list \<Rightarrow> byte list result" where
  "Decode c chs =
     (if chs = [] then throw_ex (Ex ''Codec'' ''Decode'') Invalid_argument ''null input.''
      else bindr (dec_loop c (bytes_on (sec_of_size (decoded_len c (length chs)))) 0 0 chs)
             (\<lambda>w. Inr (sec_resize (count w) (sbuf w))))"

section \<open>The bits of the accumulator\<close>

text \<open>The low \<open>n\<close> bits of a word, most significant first.\<close>

definition bits_of :: "nat \<Rightarrow> 'a::len word \<Rightarrow> bool list" where
  "bits_of n w = map (bit w) (rev [0..<n])"

lemma length_bits_of [simp]: "length (bits_of n w) = n"
  by (simp add: bits_of_def)

lemma bits_of_0 [simp]: "bits_of 0 w = []"
  by (simp add: bits_of_def)

lemma nth_bits_of: "i < n \<Longrightarrow> bits_of n w ! i = bit w (n - Suc i)"
  by (simp add: bits_of_def rev_nth)

lemma bits_of_inject8:
  assumes eq: "bits_of 8 (x::byte) = bits_of 8 y"
  shows "x = y"
proof (rule bit_eqI)
  fix n assume "possible_bit TYPE(8 word) n"
  then have "n < 8" by simp
  then show "bit x n = bit y n"
    using arg_cong [OF eq, of "\<lambda>l. l ! (7 - n)"] by (simp add: nth_bits_of)
qed

lemma concat_bits8_inject:
  assumes "concat (map (bits_of 8) xs) @ us = concat (map (bits_of 8) (ys::byte list)) @ vs"
    and "length us < 8" and "length vs < 8"
  shows "xs = ys"
  using assms
proof (induction xs arbitrary: ys)
  case Nil
  show ?case
  proof (cases ys)
    case (Cons y ys')
    have "length us = length (concat (map (bits_of 8) ys) @ vs)"
      using Nil.prems(1) by simp
    with Cons Nil.prems(2) show ?thesis by simp
  qed simp
next
  case (Cons x xs)
  show ?case
  proof (cases ys)
    case Nil
    have "length (concat (map (bits_of 8) (x # xs)) @ us) = length vs"
      using Cons.prems(1) Nil by simp
    with Cons.prems(3) show ?thesis by simp
  next
    case (Cons y ys')
    with Cons.prems(1) have "bits_of 8 x = bits_of 8 y"
      and "concat (map (bits_of 8) xs) @ us = concat (map (bits_of 8) ys') @ vs"
      by simp_all
    with Cons Cons.prems(2,3) Cons.IH [of ys'] show ?thesis
      by (simp add: bits_of_inject8)
  qed
qed

lemma bit_byte_bound:
  assumes "unat (b::byte) < 2 ^ k" and "bit b n"
  shows "n < k"
proof (rule ccontr)
  assume "\<not> n < k"
  then have "(2::nat) ^ k \<le> 2 ^ n" by (simp add: power_increasing)
  with assms(1) have "unat b < 2 ^ n" by (rule less_le_trans)
  then have "unat b div 2 ^ n = 0" by simp
  moreover have "odd (unat b div 2 ^ n)"
    using assms(2) bit_unsigned_iff [where 'a = nat, of b n] by (simp add: bit_iff_odd [of "unat b"])
  ultimately show False by simp
qed

lemma bit_push_plus:
  assumes "unat (b::byte) < 2 ^ k"
  shows "bit (push_bit k (acc::u32) + ucast b) n \<longleftrightarrow>
    n < 32 \<and> (if n < k then bit b n else bit acc (n - k))"
proof -
  have "push_bit k acc + ucast b = push_bit k acc OR ucast b"
  proof (rule disjunctive_add)
    fix n
    show "\<not> bit (push_bit k acc) n \<or> \<not> bit (ucast b :: u32) n"
      using bit_byte_bound [OF assms, of n] by (auto simp: bit_push_bit_iff bit_ucast_iff)
  qed
  then show ?thesis
    using bit_byte_bound [OF assms, of n]
    by (auto simp: bit_or_iff bit_push_bit_iff bit_ucast_iff dest: bit_imp_le_length)
qed

text \<open>Shifting a group of \<open>k\<close> bits into the accumulator appends its bits.\<close>

lemma bits_of_push:
  assumes "unat (b::byte) < 2 ^ k" and "l + k \<le> 32"
  shows "bits_of (l + k) (push_bit k (acc::u32) + ucast b) = bits_of l acc @ bits_of k b"
proof (rule nth_equalityI)
  fix i assume "i < length (bits_of (l + k) (push_bit k acc + ucast b))"
  then show "bits_of (l + k) (push_bit k acc + ucast b) ! i = (bits_of l acc @ bits_of k b) ! i"
    using assms(2) by (auto simp: nth_bits_of nth_append bit_push_plus [OF assms(1)] add.commute [of k l])
qed simp

text \<open>Taking the oldest \<open>k\<close> bits of \<open>l + k\<close> out of the accumulator.\<close>

lemma bits_of_take:
  assumes "k \<le> 8"
  shows "bits_of (l + k) (acc::u32) = bits_of k (ucast (drop_bit l acc AND mask k) :: byte) @ bits_of l acc"
proof (rule nth_equalityI)
  fix i assume "i < length (bits_of (l + k) acc)"
  then show "bits_of (l + k) acc ! i =
      (bits_of k (ucast (drop_bit l acc AND mask k) :: byte) @ bits_of l acc) ! i"
    using assms by (auto simp: nth_bits_of nth_append bit_ucast_iff bit_and_iff bit_drop_bit_eq bit_mask_iff
        add.commute)
qed simp

lemma unat_group: "k \<le> 8 \<Longrightarrow> unat (ucast ((x::u32) AND mask k) :: byte) < 2 ^ k"
proof -
  assume "k \<le> 8"
  have "unat (ucast (x AND mask k) :: byte) \<le> unat (x AND mask k)"
    by (simp add: unsigned_ucast_eq take_bit_nat_less_eq_self)
  also have "\<dots> < 2 ^ k" by (simp add: and_mask_lt_2p unsigned_take_bit_eq flip: take_bit_eq_mask)
  finally show ?thesis .
qed

text \<open>The last, partial group: its bits and then zeros.\<close>

lemma bits_of_pad:
  assumes "l \<le> k" "k \<le> 8"
  shows "bits_of k (ucast (push_bit (k - l) (acc::u32) AND mask k) :: byte) =
     bits_of l acc @ replicate (k - l) False"
proof (rule nth_equalityI)
  fix i assume "i < length (bits_of k (ucast (push_bit (k - l) acc AND mask k) :: byte))"
  then show "bits_of k (ucast (push_bit (k - l) acc AND mask k) :: byte) ! i =
      (bits_of l acc @ replicate (k - l) False) ! i"
    using assms by (auto simp: nth_bits_of nth_append bit_ucast_iff bit_and_iff bit_push_bit_iff bit_mask_iff)
qed (use assms in simp)


section \<open>The contract of a codec, and its round trip\<close>

text \<open>
  What the two loops rely on: groups of fewer than eight bits, masks of the group and of the
  byte, a character table that is inverted on every group and never gives the padding
  character, and an output buffer that holds every whole byte.
\<close>

definition pad_count :: "codec \<Rightarrow> nat \<Rightarrow> nat" where
  "pad_count c n = (if WithPadding c then pad_len c n else 0)"

locale base_codec =
  fixes c :: codec
  assumes bits_len: "BitsLen c = 8"
    and enc_bits: "1 \<le> EncodedBits c" "EncodedBits c < 8"
    and enc_mask: "EncodeMask c = mask (EncodedBits c)"
    and dec_mask: "DecodeMask c = mask 8"
    and to_byte_to_char: "unat v < 2 ^ EncodedBits c \<Longrightarrow> to_byte c (to_char c v) = v"
    and to_char_not_pad: "unat v < 2 ^ EncodedBits c \<Longrightarrow> to_char c v \<noteq> 61"
    and room: "8 * k \<le> EncodedBits c * n \<Longrightarrow> k \<le> decoded_len c n"
begin

definition group_ok :: "byte list \<Rightarrow> bool" where
  "group_ok vs \<longleftrightarrow> (\<forall>v\<in>set vs. unat v < 2 ^ EncodedBits c)"

abbreviation gbits :: "byte list \<Rightarrow> bool list" where
  "gbits vs \<equiv> concat (map (bits_of (EncodedBits c)) vs)"

abbreviation bbits :: "byte list \<Rightarrow> bool list" where
  "bbits bs \<equiv> concat (map (bits_of 8) bs)"

lemma group_ok_simps [simp]:
  "group_ok []"
  "group_ok (v # vs) \<longleftrightarrow> unat v < 2 ^ EncodedBits c \<and> group_ok vs"
  "group_ok (us @ vs) \<longleftrightarrow> group_ok us \<and> group_ok vs"
  by (auto simp: group_ok_def)

lemma unat_enc_group: "unat (ucast (x AND EncodeMask c) :: byte) < 2 ^ EncodedBits c"
  using enc_bits unat_group [of "EncodedBits c" x] by (simp add: enc_mask)

lemma enc_groups_bits:
  "\<exists>vs. fst (enc_groups c acc l) = map (to_char c) vs \<and> group_ok vs
     \<and> gbits vs @ bits_of (snd (enc_groups c acc l)) acc = bits_of l acc
     \<and> snd (enc_groups c acc l) \<le> EncodedBits c
     \<and> (0 < l \<longrightarrow> 0 < snd (enc_groups c acc l))"
proof (induction l rule: less_induct)
  case (less l)
  show ?case
  proof (cases "EncodedBits c < l")
    case True
    let ?m = "l - EncodedBits c"
    let ?v = "ucast (drop_bit ?m acc AND EncodeMask c) :: byte"
    obtain vs where IH: "fst (enc_groups c acc ?m) = map (to_char c) vs" "group_ok vs"
      "gbits vs @ bits_of (snd (enc_groups c acc ?m)) acc = bits_of ?m acc"
      "snd (enc_groups c acc ?m) \<le> EncodedBits c" "0 < snd (enc_groups c acc ?m)"
      using less [of ?m] True enc_bits(1) by auto
    have "bits_of l acc = bits_of (EncodedBits c) ?v @ bits_of ?m acc"
      using bits_of_take [of "EncodedBits c" ?m acc] enc_bits(2) True by (simp add: enc_mask)
    then show ?thesis
      using IH True enc_bits(1) unat_enc_group
      by (subst (1 2 3 4) enc_groups.simps)
        (auto simp: Let_def split_beta intro!: exI [of _ "?v # vs"])
  next
    case False
    then show ?thesis
      by (subst (1 2 3 4) enc_groups.simps) (auto intro!: exI [of _ "[]"])
  qed
qed

lemma enc_loop_bits:
  assumes "l \<le> EncodedBits c"
  shows "\<exists>vs acc' l'. enc_loop c acc l bs = (map (to_char c) vs, acc', l') \<and> group_ok vs
     \<and> gbits vs @ bits_of l' acc' = bits_of l acc @ bbits bs
     \<and> l' \<le> EncodedBits c \<and> (bs \<noteq> [] \<longrightarrow> 0 < l')"
  using assms
proof (induction bs arbitrary: acc l)
  case Nil
  then show ?case by (auto intro!: exI [of _ "[]"])
next
  case (Cons b bs)
  let ?a = "push_bit 8 acc + ucast b"
  obtain us m where g: "enc_groups c ?a (l + 8) = (map (to_char c) us, m)" "group_ok us"
    "gbits us @ bits_of m ?a = bits_of (l + 8) ?a" "m \<le> EncodedBits c" "0 < m"
    using enc_groups_bits [of ?a "l + 8"] by (metis add_pos_nonneg prod.collapse zero_less_numeral add.commute zero_le)
  obtain vs acc' l' where r: "enc_loop c ?a m bs = (map (to_char c) vs, acc', l')" "group_ok vs"
    "gbits vs @ bits_of l' acc' = bits_of m ?a @ bbits bs" "l' \<le> EncodedBits c" "bs \<noteq> [] \<longrightarrow> 0 < l'"
    using Cons.IH [OF g(4), of ?a] by blast
  have "bits_of (l + 8) ?a = bits_of l acc @ bits_of 8 b"
    using Cons.prems enc_bits(2) unsigned_less [of b] by (intro bits_of_push) auto
  moreover have "0 < l'"
    using r g(5) by (cases bs) auto
  moreover have "gbits (us @ vs) @ bits_of l' acc' = bits_of l acc @ bbits (b # bs)"
    using g(3) r(3) calculation(1) by simp
  ultimately show ?case
    using g r by (intro exI [of _ "us @ vs"] exI [of _ acc'] exI [of _ l'])
      (auto simp: bits_len)
qed

text \<open>What the encoder emits: characters of groups whose bits are the input's, zero padded.\<close>

lemma Encode_bits:
  assumes "bs \<noteq> []"
  shows "\<exists>vs us. Encode c bs = Inr (map (to_char c) vs @ replicate (pad_count c (length bs)) 61)
     \<and> group_ok vs \<and> gbits vs = bbits bs @ us \<and> length us < 8"
proof -
  obtain vs acc l where e: "enc_loop c 0 0 bs = (map (to_char c) vs, acc, l)" "group_ok vs"
    "gbits vs @ bits_of l acc = bbits bs" "l \<le> EncodedBits c" "0 < l"
    using enc_loop_bits [of 0 0 bs] assms by auto
  let ?v = "ucast (push_bit (EncodedBits c - l) acc AND EncodeMask c) :: byte"
  have "bits_of (EncodedBits c) ?v = bits_of l acc @ replicate (EncodedBits c - l) False"
    using bits_of_pad [of l "EncodedBits c" acc] e(4) enc_bits(2) by (simp add: enc_mask)
  then have "gbits (vs @ [?v]) = bbits bs @ replicate (EncodedBits c - l) False"
    using e(3) by (simp flip: append_assoc)
  moreover have "group_ok (vs @ [?v])"
    using e(2) unat_enc_group by simp
  moreover have "Encode c bs = Inr (map (to_char c) (vs @ [?v]) @ replicate (pad_count c (length bs)) 61)"
    using assms e by (simp add: Encode_def Let_def pad_count_def)
  ultimately show ?thesis
    using enc_bits(2) by (intro exI [of _ "vs @ [?v]"] exI conjI) auto
qed

lemma dec_loop_pad: "dec_loop c w acc l (replicate p 61) = Inr w"
  by (cases p) simp_all

text \<open>One character of the decoder's loop: eight bits that have come together are a byte of the output.\<close>

lemma dec_loop_step:
  fixes acc :: u32
  assumes v: "unat v < 2 ^ EncodedBits c" and l: "l < 8"
    and room: "length ys + (l + EncodedBits c) div 8 \<le> length b"
  obtains os where "dec_loop c (written ys b) acc l (to_char c v # cs) =
      dec_loop c (written (ys @ os) b) (push_bit (EncodedBits c) acc + ucast v) ((l + EncodedBits c) mod 8) cs"
    "bits_of l acc @ bits_of (EncodedBits c) v =
      bbits os @ bits_of ((l + EncodedBits c) mod 8) (push_bit (EncodedBits c) acc + ucast v)"
    "length os = (l + EncodedBits c) div 8"
proof -
  let ?a = "push_bit (EncodedBits c) acc + ucast v" and ?l = "l + EncodedBits c"
  have "(2::nat) ^ EncodedBits c \<le> 2 ^ 7" using enc_bits(2) by (intro power_increasing) auto
  with v have nff: "v \<noteq> 0xff" by auto
  have push: "bits_of ?l ?a = bits_of l acc @ bits_of (EncodedBits c) v"
    using v l enc_bits(2) by (intro bits_of_push) auto
  show ?thesis
  proof (cases "8 \<le> ?l")
    case True
    have m: "?l mod 8 = ?l - 8" "?l div 8 = 1" using True l enc_bits(2) by (simp_all add: mod_if div_if)
    let ?o = "ucast (drop_bit (?l - 8) ?a AND mask 8) :: byte"
    have "gcount (written ys b) \<noteq> 0" using room m by (simp add: gcount_def written_def length_overwrite_0)
    moreover have "write_be ?o (written ys b) = Inr (written (ys @ [?o]) b)" using room m by (simp add: write_be_fits)
    ultimately have "dec_loop c (written ys b) acc l (to_char c v # cs) = dec_loop c (written (ys @ [?o]) b) ?a (?l mod 8) cs"
      using True nff v by (simp add: to_byte_to_char to_char_not_pad bits_len dec_mask Let_def m)
    moreover have "bits_of l acc @ bits_of (EncodedBits c) v = bbits [?o] @ bits_of (?l mod 8) ?a"
      using bits_of_take [of 8 "?l - 8" ?a] True push by (simp add: m)
    ultimately show ?thesis using that [of "[?o]"] m by simp
  next
    case False
    then have "dec_loop c (written ys b) acc l (to_char c v # cs) = dec_loop c (written (ys @ []) b) ?a (?l mod 8) cs"
      using nff v by (simp add: to_byte_to_char to_char_not_pad bits_len Let_def)
    then show ?thesis by (rule that) (use False push in simp_all)
  qed
qed

lemma dec_loop_bits:
  assumes "group_ok vs" "l < 8" "length ys + (l + EncodedBits c * length vs) div 8 \<le> length b"
  shows "\<exists>zs us. dec_loop c (written ys b) acc l (map (to_char c) vs @ replicate p 61) =
       Inr (written (ys @ zs) b)
     \<and> bits_of l acc @ gbits vs = bbits zs @ us \<and> length us < 8"
  using assms
proof (induction vs arbitrary: acc l ys)
  case Nil
  then show ?case
    by (intro exI [of _ "[]"] exI [of _ "bits_of l acc"]) (simp add: dec_loop_pad)
next
  case (Cons v vs)
  let ?l = "l + EncodedBits c" and ?cs = "map (to_char c) vs @ replicate p 61"
  have v: "unat v < 2 ^ EncodedBits c" "group_ok vs" using Cons.prems(1) by auto
  have "l + EncodedBits c * length (v # vs) = 8 * (?l div 8) + (?l mod 8 + EncodedBits c * length vs)" by simp
  then have dv: "(l + EncodedBits c * length (v # vs)) div 8 = ?l div 8 + (?l mod 8 + EncodedBits c * length vs) div 8"
    by (simp only: div_mult_self4)
  then have room: "length ys + ?l div 8 \<le> length b" using Cons.prems(3) by linarith
  obtain os where o: "dec_loop c (written ys b) acc l (to_char c v # ?cs) =
      dec_loop c (written (ys @ os) b) (push_bit (EncodedBits c) acc + ucast v) (?l mod 8) ?cs"
    "bits_of l acc @ bits_of (EncodedBits c) v = bbits os @ bits_of (?l mod 8) (push_bit (EncodedBits c) acc + ucast v)"
    "length os = ?l div 8"
    by (rule dec_loop_step [OF v(1) Cons.prems(2) room])
  have m: "?l mod 8 < 8" by simp
  have fits: "length (ys @ os) + (?l mod 8 + EncodedBits c * length vs) div 8 \<le> length b"
    using dv Cons.prems(3) o(3) by simp
  obtain zs us where r: "dec_loop c (written (ys @ os) b) (push_bit (EncodedBits c) acc + ucast v) (?l mod 8) ?cs =
      Inr (written ((ys @ os) @ zs) b)"
    "bits_of (?l mod 8) (push_bit (EncodedBits c) acc + ucast v) @ gbits vs = bbits zs @ us" "length us < 8"
    using Cons.IH [OF v(2) m fits] by blast
  have "bits_of l acc @ gbits (v # vs) = bbits (os @ zs) @ us"
    using arg_cong [OF o(2), of "\<lambda>x. x @ gbits vs"] r(2) by simp
  then show ?case using o(1) r(1,3) by (intro exI [of _ "os @ zs"] exI [of _ us]) simp
qed

lemma length_gbits: "length (gbits vs) = EncodedBits c * length vs"
  by (induction vs) simp_all

text \<open>The encoded length: as many groups as the bits need, and the padding.\<close>

lemma Encode_length:
  assumes "bs \<noteq> []"
  shows "\<exists>s k. Encode c bs = Inr s \<and> length s = k + pad_count c (length bs)
    \<and> 8 * length bs \<le> EncodedBits c * k \<and> EncodedBits c * k < 8 * length bs + 8"
proof -
  obtain vs us where e: "Encode c bs = Inr (map (to_char c) vs @ replicate (pad_count c (length bs)) 61)"
    "gbits vs = bbits bs @ us" "length us < 8"
    using Encode_bits [OF assms] by auto
  have "length (bbits bs) = 8 * length bs" by (induction bs) simp_all
  then have "EncodedBits c * length vs = 8 * length bs + length us"
    using arg_cong [OF e(2), of length] by (simp add: length_gbits)
  then show ?thesis
    using e(1,3) by (intro exI [of _ "map (to_char c) vs @ replicate (pad_count c (length bs)) 61"]
        exI [of _ "length vs"]) simp
qed

theorem Decode_Encode:
  assumes "bs \<noteq> []" and "Encode c bs = Inr s"
  shows "Decode c s = Inr bs"
proof -
  obtain vs us where e: "s = map (to_char c) vs @ replicate (pad_count c (length bs)) 61" "group_ok vs"
    "gbits vs = bbits bs @ us" "length us < 8"
    using Encode_bits [OF assms(1)] assms(2) by auto
  let ?b = "sec_of_size (decoded_len c (length s))"
  have "8 * (EncodedBits c * length vs div 8) \<le> EncodedBits c * length vs"
    by (rule times_div_less_eq_dividend)
  also have "\<dots> \<le> EncodedBits c * length s"
    using e(1) by simp
  finally have "EncodedBits c * length vs div 8 \<le> length ?b"
    using room by (simp add: sec_of_size_def)
  then obtain zs ws where d: "dec_loop c (written [] ?b) 0 0 s = Inr (written zs ?b)"
    "gbits vs = bbits zs @ ws" "length ws < 8"
    using dec_loop_bits [OF e(2), of 0 "[]" ?b 0 "pad_count c (length bs)"] e(1) by auto
  have "bs = zs" using concat_bits8_inject [of bs us zs ws] e(3,4) d(2,3) by metis
  moreover have "s \<noteq> []"
    using e(1) assms(1) arg_cong [OF e(3), of length] by (cases vs; cases bs) auto
  ultimately show ?thesis
    using d by (simp add: Decode_def bytes_on_written written_sel sec_resize_def resize_def)
qed

end


section \<open>The two implementations\<close>

lemma groups_of_bits:
  assumes "\<forall>x\<in>set (map word_of_nat [0..<2 ^ k]). P x" and "unat (v::byte) < 2 ^ k"
  shows "P v"
proof -
  have "v = word_of_nat (unat v)" by simp
  then have "v \<in> set (map word_of_nat [0..<2 ^ k])"
    using assms(2) by (metis (no_types) atLeast0LessThan atLeastLessThan_upt imageI lessThan_iff list.set_map)
  with assms(1) show ?thesis by blast
qed

lemmas cmp_defs = cmp_eq_def cmp_le_def cmp_lt_def cmp_ge_def cmp_gt_def

lemma b64_table:
  "\<forall>x\<in>set (map word_of_nat [0..<2 ^ 6]). b64_to_byte (b64_to_char x) = x \<and> b64_to_char x \<noteq> 61"
  by (simp add: upt_rec b64_to_byte_def b64_to_char_def cmp_defs)

lemma b32_table:
  "\<forall>x\<in>set (map word_of_nat [0..<2 ^ 5]). b32_to_byte (b32_to_char x) = x \<and> b32_to_char x \<noteq> 61"
  by (simp add: upt_rec b32_to_byte_def b32_to_char_def cmp_defs)

interpretation b32: base_codec Base32
  by unfold_locales
    (auto simp: Base32_def decoded_len_def mask_eq_exp_minus_1 less_eq_div_iff_mult_less_eq
      dest: groups_of_bits [OF b32_table, simplified])

interpretation b64: base_codec Base64
  by unfold_locales
    (auto simp: Base64_def decoded_len_def mask_eq_exp_minus_1 less_eq_div_iff_mult_less_eq
      dest: groups_of_bits [OF b64_table, simplified])

text \<open>Base64 of a short input: how long the text can be.\<close>

lemma b64_Encode_short:
  assumes "bs \<noteq> []" "length bs \<le> 180"
  shows "\<exists>s. Encode Base64 bs = Inr s \<and> s \<noteq> [] \<and> length s \<le> 255"
proof -
  obtain s k where s: "Encode Base64 bs = Inr s" "length s = k + pad_count Base64 (length bs)"
    "8 * length bs \<le> 6 * k" "6 * k < 8 * length bs + 8"
    using b64.Encode_length [OF assms(1)] by (auto simp: Base64_def)
  have "pad_count Base64 (length bs) \<le> 2"
    by (simp add: pad_count_def Base64_def b64_pad_len_def Let_def)
  moreover have "0 < length bs" using assms(1) by simp
  ultimately have "0 < length s" "length s \<le> 255" using s(2-4) assms(2) by linarith+
  then show ?thesis using s(1) by auto
qed

end
