(* ===== verification/RouterInfo.thy ===== *)
theory RouterInfo
  imports Identity Address Codec
begin

text \<open>
  Router infos, \<open>src/data/router/info.h\<close>: an identity, a date, the addresses and an options
  mapping, signed with the identity's key. What \<open>tini2p::time::now_ms\<close> returns and the random
  draws of an operation are its arguments.
\<close>

record info =
  ri_identity :: identity
  ri_date :: u64
  ri_addresses :: "address list"
  ri_options :: mapping
  ri_transport :: "byte list"
  ri_signature :: signature_v
  ri_iv :: "byte list"
  ri_buf :: "byte list"

definition InfoMinLen :: nat where "InfoMinLen = 440"
definition InfoMaxLen :: nat where "InfoMaxLen = 65515"
definition ri_version :: "byte list" where "ri_version = [50]"

definition info_size :: "info \<Rightarrow> nat" where
  "info_size i = ident_size (ri_identity i) + 8 + 1 + sum_list (map address_size (ri_addresses i)) + 1
     + unat (mapping_size (ri_options i)) + unat (sig_len (ri_identity i))"

definition update_id_pubkey :: "info \<Rightarrow> info result" where
  "update_id_pubkey i =
     bindr (Encode Base64 (pubkey (id_keys (cobj (crypto (ri_identity i)))))) (\<lambda>k.
     bindr (mapping_add (ascii ''s'') k (ri_options i)) (\<lambda>m. Inr (i\<lparr>ri_options := m\<rparr>)))"

definition update_iv :: "rng \<Rightarrow> info \<Rightarrow> info result" where
  "update_iv r i =
     (let iv = rand_bytes r (length (ri_iv i)) in
      bindr (Encode Base64 iv) (\<lambda>k.
      bindr (mapping_add (ascii ''i'') k (ri_options i)) (\<lambda>m. Inr (i\<lparr>ri_options := m, ri_iv := iv\<rparr>))))"

section \<open>Serialization\<close>

fun write_addresses :: "address list \<Rightarrow> bytes \<Rightarrow> (address list \<times> bytes) result" where
  "write_addresses [] w = Inr ([], w)"
| "write_addresses (a # as) w =
     bindr (address_serialize a) (\<lambda>a.
     bindr (write_data (addr_buffer a) w) (\<lambda>w.
     bindr (write_addresses as w) (\<lambda>(as, w). Inr (a # as, w))))"

definition info_serialize :: "ident_env \<Rightarrow> rng \<Rightarrow> u64 \<Rightarrow> info \<Rightarrow> info result" where
  "info_serialize E r now i =
     (let w = bytes_on (sec_resize (info_size i) (ri_buf i)) in
      bindr (ident_serialize E r (ri_identity i)) (\<lambda>ident.
      bindr (write_data (id_buf ident) w) (\<lambda>w.
      bindr (write_le now w) (\<lambda>w.
      bindr (write_be (word_of_nat (length (ri_addresses i)) :: byte) w) (\<lambda>w.
      bindr (write_addresses (ri_addresses i) w) (\<lambda>(addrs, w).
      bindr (write_be (0 :: byte) w) (\<lambda>w.
      bindr (mapping_serialize (ri_options i)) (\<lambda>opts.
      bindr (write_data (map_buffer opts) w) (\<lambda>w.
      bindr (ident_sign E (take (count w) (sbuf w)) ident) (\<lambda>sig.
      bindr (write_data (sig_bytes sig) w) (\<lambda>w.
        Inr (i\<lparr>ri_identity := ident, ri_date := now, ri_addresses := addrs, ri_options := opts,
          ri_signature := sig, ri_buf := sbuf w\<rparr>))))))))))))"

section \<open>Deserialization\<close>

definition ProcessIdentity :: "ident_env \<Rightarrow> rng \<Rightarrow> rng \<Rightarrow> bytes \<Rightarrow> info \<Rightarrow> (info \<times> bytes) result" where
  "ProcessIdentity E r1 r2 r i =
     (let ident = ri_identity i;
          n = (if length (id_buf ident) < IdentDefaultSize then IdentDefaultSize else length (id_buf ident)) in
      bindr (read_data n r) (\<lambda>(b, r).
      bindr (ident_deserialize E r1 r2 (ident\<lparr>id_buf := b\<rparr>)) (\<lambda>ident.
      bindr (update_id_pubkey (i\<lparr>ri_identity := ident\<rparr>)) (\<lambda>i. Inr (i, r)))))"

text \<open>
  Every address is read from a copy of the rest of the buffer, put in front of what a default
  address already holds; the reader then skips the size of the address read.
\<close>

fun read_addresses :: "nat \<Rightarrow> byte list \<Rightarrow> bytes \<Rightarrow> (address list \<times> bytes) result" where
  "read_addresses 0 buf r = Inr ([], r)"
| "read_addresses (Suc n) buf r =
     bindr address_default (\<lambda>a.
     let rest = drop (count r) buf in
     if rest = []
     then throw_ex (Ex ''RouterInfo'' ''deserialize'') Logic_error ''addresses overflow the router info.''
     else
       bindr (address_deserialize (a\<lparr>addr_buffer := rest @ addr_buffer a\<rparr>)) (\<lambda>a.
       bindr (skip_bytes (address_size a) r) (\<lambda>r.
       bindr (read_addresses n buf r) (\<lambda>(as, r). Inr (a # as, r)))))"

definition ProcessAddresses :: "bytes \<Rightarrow> info \<Rightarrow> (info \<times> bytes) result" where
  "ProcessAddresses r i =
     bindr (read_be r :: (byte \<times> bytes) result) (\<lambda>(n, r).
     bindr (read_addresses (unat n) (ri_buf i) r) (\<lambda>(as, r). Inr (i\<lparr>ri_addresses := as\<rparr>, r)))"

definition ProcessOptions :: "bytes \<Rightarrow> info \<Rightarrow> (info \<times> bytes) result" where
  "ProcessOptions r i =
     (let ex = Ex ''RouterInfo'' ''deserialize'' in
      if gcount r = 0
      then throw_ex ex Logic_error ''missing router options size, options, and signature.''
      else
        bindr (read_le r :: (u16 \<times> bytes) result) (\<lambda>(opt_size, r).
        if opt_size = 0 then Inr (i, r)
        else
          bindr (skip_back 2 r) (\<lambda>r.
          bindr (read_data (2 + unat opt_size) r) (\<lambda>(b, r).
          bindr (mapping_deserialize ((ri_options i)\<lparr>map_buffer := b\<rparr>)) (\<lambda>opts.
          bindr (mapping_entry_at (ascii ''s'') opts) (\<lambda>s.
          if s = [] then throw_ex ex Logic_error ''null Noise static key.''
          else
            bindr (mapping_entry_at (ascii ''v'') opts) (\<lambda>v.
            if v = [] \<or> hd v \<noteq> hd ri_version
            then throw_ex ex Logic_error ''invalid NTCP2 version option.''
            else Inr (i\<lparr>ri_options := opts\<rparr>, r))))))))"

definition info_deserialize :: "ident_env \<Rightarrow> rng \<Rightarrow> rng \<Rightarrow> info \<Rightarrow> info result" where
  "info_deserialize E r1 r2 i =
     bindr (ProcessIdentity E r1 r2 (bytes_on (ri_buf i)) i) (\<lambda>(i, r).
     bindr (read_le r) (\<lambda>(d, r).
     bindr (ProcessAddresses r (i\<lparr>ri_date := d\<rparr>)) (\<lambda>(i, r).
     bindr (skip_bytes 1 r) (\<lambda>r.
     bindr (ProcessOptions r i) (\<lambda>(i, r).
     bindr (read_data 64 r) (\<lambda>(sig, r).
       Inr (i\<lparr>ri_signature := \<lparr>sig_kind = skind (signing (ri_identity i)), sig_bytes = sig\<rparr>\<rparr>)))))))"

definition info_verify :: "ident_env \<Rightarrow> info \<Rightarrow> bool result" where
  "info_verify E i =
     (let n = unat (sig_len (ri_identity i)) in
      if length (ri_buf i) < n then Inl (Undefined_behaviour ''message size underflows'')
      else ident_verify E (take (length (ri_buf i) - n) (ri_buf i)) (ri_signature i) (ri_identity i))"

section \<open>Constructors and the host\<close>

definition info_members :: "identity \<Rightarrow> info" where
  "info_members ident = \<lparr>ri_identity = ident, ri_date = 0, ri_addresses = [], ri_options = empty_mapping,
     ri_transport = ntcp2_transport,
     ri_signature = \<lparr>sig_kind = Kind_EdDSA, sig_bytes = fixed_default SignatureLen\<rparr>,
     ri_iv = fixed_default 16, ri_buf = []\<rparr>"

text \<open>\<open>update_iv\<close> draws the IV a second time, so the first draw of a constructor is lost.\<close>

definition info_finish :: "ident_env \<Rightarrow> rng \<Rightarrow> rng \<Rightarrow> u64 \<Rightarrow> info \<Rightarrow> info result" where
  "info_finish E r_iv r now i =
     bindr (update_id_pubkey i) (\<lambda>i.
     bindr (update_iv r_iv i) (\<lambda>i.
     bindr (mapping_add (ascii ''v'') ri_version (ri_options i)) (\<lambda>m.
       info_serialize E r now (i\<lparr>ri_options := m\<rparr>))))"

definition info_of_identity :: "ident_env \<Rightarrow> rng \<Rightarrow> rng \<Rightarrow> u64 \<Rightarrow> identity \<Rightarrow> info result" where
  "info_of_identity E r_iv r now ident = info_finish E r_iv r now (info_members ident)"

definition info_of_parts ::
  "ident_env \<Rightarrow> rng \<Rightarrow> rng \<Rightarrow> u64 \<Rightarrow> identity \<Rightarrow> address list \<Rightarrow> mapping \<Rightarrow> info result" where
  "info_of_parts E r_iv r now ident addrs opts =
     (let i = (info_members ident)\<lparr>ri_date := now, ri_addresses := addrs, ri_options := opts\<rparr> in
      if info_size i < InfoMinLen \<or> info_size i > InfoMaxLen
      then throw_ex (Ex ''RouterInfo'' ''Info'') Length_error ''invalid size.''
      else info_finish E r_iv r now i)"

text \<open>From a buffer: the members are those of a default identity.\<close>

definition info_of_buffer :: "ident_env \<Rightarrow> rng \<Rightarrow> rng \<Rightarrow> identity \<Rightarrow> byte list \<Rightarrow> info result" where
  "info_of_buffer E r1 r2 fresh buf = info_deserialize E r1 r2 ((info_members fresh)\<lparr>ri_transport := [], ri_buf := buf\<rparr>)"

text \<open>The endpoint of the first address of the preferred family, otherwise of the first address.\<close>

fun find_host ::
  "(byte list \<Rightarrow> 'ip result) \<Rightarrow> ('ip \<Rightarrow> bool) \<Rightarrow> bool \<Rightarrow> address list \<Rightarrow> ('ip \<times> u16) option result" where
  "find_host make_address is_v6 prefer_v6 [] = Inr None"
| "find_host make_address is_v6 prefer_v6 (a # as) =
     bindr (ToEndpoint make_address a) (\<lambda>e.
       if is_v6 (fst e) = prefer_v6 then Inr (Some e)
       else find_host make_address is_v6 prefer_v6 as)"

definition info_host ::
  "(byte list \<Rightarrow> 'ip result) \<Rightarrow> ('ip \<Rightarrow> bool) \<Rightarrow> bool \<Rightarrow> info \<Rightarrow> ('ip \<times> u16) result" where
  "info_host make_address is_v6 prefer_v6 i =
     (case ri_addresses i of
        [] \<Rightarrow> throw_ex (Ex ''Router: Info'' ''host'') Logic_error ''empty router addresses.''
      | a # _ \<Rightarrow>
          bindr (find_host make_address is_v6 prefer_v6 (ri_addresses i)) (\<lambda>found.
            case found of Some e \<Rightarrow> Inr e | None \<Rightarrow> ToEndpoint make_address a))"

section \<open>What serialization writes\<close>

definition info_ok :: "info \<Rightarrow> bool" where
  "info_ok i \<longleftrightarrow> ident_ok (ri_identity i) \<and> length (padding (ri_identity i)) = 320
     \<and> list_all address_ok (ri_addresses i) \<and> length (ri_addresses i) \<le> 255
     \<and> mapping_ok (ri_options i)"

text \<open>The identity as serialized with the padding drawn from \<open>r\<close>.\<close>

definition ident_written :: "ident_env \<Rightarrow> rng \<Rightarrow> identity \<Rightarrow> identity" where
  "ident_written E r i =
     (let i1 = i\<lparr>padding := rand_bytes r 320, cert := (cert i)\<lparr>cert_buffer := cert_bytes (cert i)\<rparr>\<rparr>
      in update_hash E (i1\<lparr>id_buf := ident_bytes i1\<rparr>))"

definition address_written :: "address \<Rightarrow> address" where
  "address_written a = a\<lparr>options := (options a)\<lparr>map_buffer := mapping_bytes (options a)\<rparr>,
     addr_buffer := address_bytes a\<rparr>"

definition info_body :: "ident_env \<Rightarrow> rng \<Rightarrow> u64 \<Rightarrow> info \<Rightarrow> byte list" where
  "info_body E r now i = ident_bytes (ident_written E r (ri_identity i)) @ le_of_word now
     @ word_of_nat (length (ri_addresses i)) # concat (map address_bytes (ri_addresses i))
     @ 0 # mapping_bytes (ri_options i)"

lemma ident_written_ok:
  assumes "ident_ok i"
  shows "ident_ok (ident_written E r i)" "length (padding (ident_written E r i)) = 320"
    and "id_buf (ident_written E r i) = ident_bytes (ident_written E r i)"
    and "length (ident_bytes (ident_written E r i)) = 391"
    and "signing (ident_written E r i) = signing i" "crypto (ident_written E r i) = crypto i"
    and "sign_type (cert (ident_written E r i)) = sign_type (cert i)"
    and "crypto_type (cert (ident_written E r i)) = crypto_type (cert i)"
  using assms by (simp_all add: ident_written_def Let_def update_hash_def ident_ok_def ident_bytes_def
      cert_bytes_def KeyCertSize_def)

lemma write_addresses_written:
  "list_all address_ok as \<Longrightarrow> length ys + sum_list (map address_size as) \<le> length b \<Longrightarrow>
     write_addresses as (written ys b) =
       Inr (map address_written as, written (ys @ concat (map address_bytes as)) b)"
proof (induction as arbitrary: ys)
  case (Cons a as)
  have len: "length (address_bytes a) = address_size a"
    using Cons.prems(1) by (simp add: length_address_bytes)
  have a: "address_serialize a = Inr (address_written a)" "addr_buffer (address_written a) = address_bytes a"
    using Cons.prems(1) by (simp_all add: address_serialize_eq address_written_def)
  have "write_data (address_bytes a) (written ys b) = Inr (written (ys @ address_bytes a) b)"
    using Cons.prems(2) len by (simp add: write_data_fits)
  moreover have "write_addresses as (written (ys @ address_bytes a) b) =
      Inr (map address_written as, written ((ys @ address_bytes a) @ concat (map address_bytes as)) b)"
    using Cons.prems len by (intro Cons.IH) simp_all
  ultimately show ?case using a by simp
qed simp

lemma length_addresses:
  "list_all address_ok as \<Longrightarrow> length (concat (map address_bytes as)) = sum_list (map address_size as)"
  by (induction as) (simp_all add: length_address_bytes)

lemma length_info_body: "info_ok i \<Longrightarrow> length (info_body E r now i) + 64 = info_size i"
  using length_addresses [of "ri_addresses i"] ident_written_ok(4) [of "ri_identity i" E r]
  by (simp add: info_ok_def info_body_def info_size_def ident_size_def length_mapping_bytes ident_ok_def
      crypto_pubkey_len_def signing_pubkey_len_def sig_len_def)

definition info_written :: "ident_env \<Rightarrow> rng \<Rightarrow> u64 \<Rightarrow> signature_v \<Rightarrow> info \<Rightarrow> info" where
  "info_written E r now sig i = i\<lparr>ri_identity := ident_written E r (ri_identity i), ri_date := now,
     ri_addresses := map address_written (ri_addresses i),
     ri_options := (ri_options i)\<lparr>map_buffer := mapping_bytes (ri_options i)\<rparr>,
     ri_signature := sig, ri_buf := info_body E r now i @ sig_bytes sig\<rparr>"

lemma written_sizes:
  assumes "info_ok i" "b = sec_resize (info_size i) (ri_buf i)"
  shows "length b = info_size i" "info_size i = length (info_body E r now i) + 64"
    "length (info_body E r now i) = 391 + 8 + 1 + length (concat (map address_bytes (ri_addresses i))) + 1
       + length (mapping_bytes (ri_options i))"
    "length (ident_bytes (ident_written E r (ri_identity i))) = 391"
  using length_info_body [OF assms(1), of E r now] ident_written_ok(4) [of "ri_identity i" E r] assms
  by (simp_all add: sec_resize_def info_body_def info_ok_def)

text \<open>The fields before the signature, written one after the other.\<close>

lemma info_fields_written:
  fixes E :: ident_env and r :: rng and i :: info
  assumes i: "info_ok i" and b: "b = sec_resize (info_size i) (ri_buf i)"
  defines "d \<equiv> ident_written E r (ri_identity i)" and "n \<equiv> word_of_nat (length (ri_addresses i)) :: byte"
    and "A \<equiv> concat (map address_bytes (ri_addresses i))"
  shows "write_data (id_buf d) (written [] b) = Inr (written (ident_bytes d) b)"
    "write_le now (written (ident_bytes d) b) = Inr (written (ident_bytes d @ le_of_word now) b)"
    "write_be n (written (ident_bytes d @ le_of_word now) b) = Inr (written (ident_bytes d @ le_of_word now @ [n]) b)"
    "write_addresses (ri_addresses i) (written (ident_bytes d @ le_of_word now @ [n]) b) =
      Inr (map address_written (ri_addresses i), written (ident_bytes d @ le_of_word now @ n # A) b)"
    "write_be (0::byte) (written (ident_bytes d @ le_of_word now @ n # A) b) =
      Inr (written (ident_bytes d @ le_of_word now @ n # A @ [0]) b)"
    "write_data (mapping_bytes (ri_options i)) (written (ident_bytes d @ le_of_word now @ n # A @ [0]) b) =
      Inr (written (info_body E r now i) b)"
proof -
  have ok: "ident_ok (ri_identity i)" "list_all address_ok (ri_addresses i)" using i by (auto simp: info_ok_def)
  note idw = ident_written_ok [OF ok(1), of E r, folded d_def]
  note sz = written_sizes(1) [OF i b] written_sizes(2,3) [OF i b, where E = E and r = r and now = now, folded A_def]
    written_sizes(4) [OF i b, where E = E and r = r, folded d_def]
  show "write_data (id_buf d) (written [] b) = Inr (written (ident_bytes d) b)"
    using sz idw by (simp add: write_data_fits)
  show "write_le now (written (ident_bytes d) b) = Inr (written (ident_bytes d @ le_of_word now) b)"
    using sz by (simp add: write_le_fits)
  show "write_be n (written (ident_bytes d @ le_of_word now) b) = Inr (written (ident_bytes d @ le_of_word now @ [n]) b)"
    using sz by (simp add: write_be_fits)
  show "write_addresses (ri_addresses i) (written (ident_bytes d @ le_of_word now @ [n]) b) =
      Inr (map address_written (ri_addresses i), written (ident_bytes d @ le_of_word now @ n # A) b)"
    using sz length_addresses [OF ok(2)] write_addresses_written [OF ok(2), of "ident_bytes d @ le_of_word now @ [n]" b]
    by (simp add: A_def)
  show "write_be (0::byte) (written (ident_bytes d @ le_of_word now @ n # A) b) =
      Inr (written (ident_bytes d @ le_of_word now @ n # A @ [0]) b)"
    using sz by (simp add: write_be_fits)
  show "write_data (mapping_bytes (ri_options i)) (written (ident_bytes d @ le_of_word now @ n # A @ [0]) b) =
      Inr (written (info_body E r now i) b)"
    using sz by (simp add: write_data_fits info_body_def d_def n_def A_def)
qed

lemma info_serialize_sign:
  assumes "info_ok i"
    and len64: "\<And>sig. ident_sign E (info_body E r now i) (ident_written E r (ri_identity i)) = Inr sig \<Longrightarrow>
      length (sig_bytes sig) = 64"
  shows "info_serialize E r now i =
    bindr (ident_sign E (info_body E r now i) (ident_written E r (ri_identity i)))
      (\<lambda>sig. Inr (info_written E r now sig i))"
proof -
  let ?id = "ident_written E r (ri_identity i)" and ?b = "sec_resize (info_size i) (ri_buf i)"
  have ok: "ident_ok (ri_identity i)" "mapping_ok (ri_options i)" using assms(1) by (auto simp: info_ok_def)
  have ser: "ident_serialize E r (ri_identity i) = Inr ?id"
    using ident_serialize_eq [OF ok(1)] by (simp add: ident_written_def Let_def)
  note size = written_sizes(1) [OF assms(1) refl] written_sizes(2,3) [OF assms(1) refl, where E = E and r = r and now = now]
    and w = info_fields_written [OF assms(1) refl, where E = E and r = r]
  have sgn: "take (count (written (info_body E r now i) ?b)) (sbuf (written (info_body E r now i) ?b)) = info_body E r now i"
    by (simp add: written_sel)
  show ?thesis
  proof (cases "ident_sign E (info_body E r now i) ?id")
    case (Inl e)
    then show ?thesis
      unfolding info_serialize_def Let_def bytes_on_written ser bindr_simps w(1-5) prod.case
        mapping_serialize_eq [OF ok(2)] mapping.simps
      using w(6) sgn by simp
  next
    case (Inr sig)
    have w7: "write_data (sig_bytes sig) (written (info_body E r now i) ?b) = Inr (written (info_body E r now i @ sig_bytes sig) ?b)"
      "sbuf (written (info_body E r now i @ sig_bytes sig) ?b) = info_body E r now i @ sig_bytes sig"
      using size len64 [OF Inr] by (simp_all add: write_data_fits written_sel)
    show ?thesis
      unfolding info_serialize_def Let_def bytes_on_written ser bindr_simps w(1-5) prod.case
        mapping_serialize_eq [OF ok(2)] mapping.simps
      using w(6) w7 Inr sgn by (simp add: info_written_def)
  qed
qed

section \<open>Reading it back\<close>

definition address_view :: "address \<Rightarrow> byte \<times> u64 \<times> byte list \<times> mapping_entry list" where
  "address_view a = (cost a, expiration a, transport a, kv (options a))"

lemma address_default_eq:
  "\<exists>a0. address_default = Inr a0 \<and> kv (options a0) = []"
  using address_serialize_eq [of address_fields]
  by (simp add: address_default_def address_ok_def address_fields_def mapping_ok_empty)
    (simp add: empty_mapping_def)

lemma address_size_view: "address_view a = address_view b \<Longrightarrow> address_size a = address_size b"
  by (simp add: address_view_def address_size_def mapping_size_def)

lemma address_sizes_view:
  "map address_view as = map address_view bs \<Longrightarrow> map address_size as = map address_size bs"
proof (induction as arbitrary: bs)
  case (Cons a as)
  then obtain b bs' where bs: "bs = b # bs'" by (cases bs) simp_all
  then have "address_view a = address_view b" "map address_view as = map address_view bs'"
    using Cons.prems by (simp_all only: list.map list.inject)
  then show ?case using Cons.IH [of bs'] address_size_view [of a b] bs by (simp only: list.map)
qed simp

lemma read_addresses_bytes:
  "list_all address_ok as \<Longrightarrow> buf = pre @ concat (map address_bytes as) @ tail \<Longrightarrow>
     \<exists>bs. read_addresses (length as) buf (reading pre (concat (map address_bytes as) @ tail)) =
        Inr (bs, reading (pre @ concat (map address_bytes as)) tail)
      \<and> map address_view bs = map address_view as"
proof (induction as arbitrary: pre)
  case (Cons a as)
  let ?rest = "concat (map address_bytes as) @ tail"
  have ok: "address_ok a" using Cons.prems(1) by simp
  have len: "length (address_bytes a) = address_size a" using ok by (rule length_address_bytes)
  obtain a0 where a0: "address_default = Inr a0" "kv (options a0) = []"
    using address_default_eq by blast
  obtain b where b: "address_deserialize (a0\<lparr>addr_buffer := (address_bytes a @ ?rest) @ addr_buffer a0\<rparr>) = Inr b"
    "address_view b = address_view a"
    using address_deserialize_bytes [OF ok, of "a0\<lparr>addr_buffer := (address_bytes a @ ?rest) @ addr_buffer a0\<rparr>"
        "?rest @ addr_buffer a0"] a0(2) ok
    by (auto simp: address_view_def address_ok_def)
  obtain bs where bs: "read_addresses (length as) buf (reading (pre @ address_bytes a) ?rest) =
      Inr (bs, reading ((pre @ address_bytes a) @ concat (map address_bytes as)) tail)"
    "map address_view bs = map address_view as"
    using Cons.IH [of "pre @ address_bytes a"] Cons.prems by auto
  have sk: "skip_bytes (address_size b) (reading pre (address_bytes a @ ?rest)) =
      Inr (reading (pre @ address_bytes a) ?rest)"
    using address_size_view [OF b(2)] len by (simp add: skip_bytes_reading)
  have "drop (count (reading pre (address_bytes a @ ?rest))) buf = address_bytes a @ ?rest"
    using Cons.prems(2) by (simp add: reading_sel)
  moreover have "address_bytes a @ ?rest \<noteq> []" by (simp add: address_bytes_def)
  ultimately have "read_addresses (Suc (length as)) buf (reading pre (address_bytes a @ ?rest)) =
      Inr (b # bs, reading (pre @ address_bytes a @ concat (map address_bytes as)) tail)"
    unfolding read_addresses.simps a0(1) bindr_simps Let_def using b bs sk by simp
  then show ?case using b(2) bs(2) by auto
qed simp

text \<open>An info into which another one can be read: no options yet, an identity of the same types.\<close>

definition info_fresh :: "identity \<Rightarrow> info \<Rightarrow> bool" where
  "info_fresh j d \<longleftrightarrow> ri_options d = empty_mapping
     \<and> length (id_buf (ri_identity d)) = 391 \<and> length (cert_buffer (cert (ri_identity d))) = 7
     \<and> \<not> locally_unreachable (cert (ri_identity d))
     \<and> ckind (crypto (ri_identity d)) = ckind (crypto j) \<and> skind (signing (ri_identity d)) = skind (signing j)"

text \<open>What an info says to its reader.\<close>

definition ident_view :: "identity \<Rightarrow> byte list \<times> byte list \<times> byte list \<times> u16 \<times> u16 \<times> u16 \<times> byte list" where
  "ident_view i = (pubkey (id_keys (cobj (crypto i))), pk_ptr (sobj (signing i)), padding i,
     sign_type (cert i), crypto_type (cert i), cert_length (cert i), id_hash i)"

definition info_view where
  "info_view i = (ident_view (ri_identity i), ri_date i, map address_view (ri_addresses i),
     kv (ri_options i), ri_signature i)"

lemma update_id_pubkey_fresh:
  assumes "ri_options i = empty_mapping" "length (pubkey (id_keys (cobj (crypto (ri_identity i))))) = 32"
  shows "\<exists>m. update_id_pubkey i = Inr (i\<lparr>ri_options := m\<rparr>)"
proof -
  let ?k = "pubkey (id_keys (cobj (crypto (ri_identity i))))"
  obtain s where s: "Encode Base64 ?k = Inr s" "s \<noteq> []" "length s \<le> 255"
    using b64_Encode_short [of ?k] assms(2) by fastforce
  have "entry_ok (MappingEntry (ascii ''s'') s)" using s by (simp add: entry_ok_def ascii_def)
  moreover have "entry_size (MappingEntry (ascii ''s'') s) \<le> 300"
    using s by (simp add: entry_size_def ascii_def mapping_sizes)
  ultimately have "\<exists>m. mapping_add (ascii ''s'') s empty_mapping = Inr m"
    by (auto simp: mapping_add_Inr_iff mapping_ok_empty) (simp add: empty_mapping_def)
  then show ?thesis using s assms(1) by (auto simp: update_id_pubkey_def)
qed

lemma ProcessIdentity_bytes:
  assumes j: "ident_ok j" "length (padding j) = 320" and d: "info_fresh j d"
  shows "\<exists>m ident. ProcessIdentity E r1 r2 (reading [] (ident_bytes j @ rest)) d =
      Inr (d\<lparr>ri_identity := ident, ri_options := m\<rparr>, reading (ident_bytes j) rest)
    \<and> ident_view ident = (pubkey (id_keys (cobj (crypto j))), pk_ptr (sobj (signing j)), padding j,
         sign_type (cert j), crypto_type (cert j), cert_length (cert j), sha256 (env_prims E) (ident_bytes j))
    \<and> skind (signing ident) = skind (signing j)"
proof -
  let ?f = "ri_identity d"
  have len: "length (ident_bytes j) = 391"
    using j by (simp add: ident_bytes_def ident_ok_def KeyCertSize_def)
  have cl: "cert_length (cert j) = 7" using j(1) by (simp add: ident_ok_def)
  obtain ident where id: "ident_deserialize E r1 r2 (?f\<lparr>id_buf := ident_bytes j\<rparr>) = Inr ident"
    "ident_view ident = (pubkey (id_keys (cobj (crypto j))), pk_ptr (sobj (signing j)), padding j,
         sign_type (cert j), crypto_type (cert j), cert_length (cert j), sha256 (env_prims E) (ident_bytes j))"
    "skind (signing ident) = skind (signing j)"
    "pubkey (id_keys (cobj (crypto ident))) = pubkey (id_keys (cobj (crypto j)))"
    using ident_deserialize_bytes [OF j, of "?f\<lparr>id_buf := ident_bytes j\<rparr>" E r1 r2] d cl
    by (simp add: info_fresh_def ident_view_def update_hash_def set_crypto_pubkey_def signer_rekey_pk_def)
  obtain m where m: "update_id_pubkey (d\<lparr>ri_identity := ident\<rparr>) = Inr (d\<lparr>ri_identity := ident, ri_options := m\<rparr>)"
    using update_id_pubkey_fresh [of "d\<lparr>ri_identity := ident\<rparr>"] d id(4) j(1)
    by (auto simp: info_fresh_def ident_ok_def)
  have "read_data 391 (reading [] (ident_bytes j @ rest)) = Inr (ident_bytes j, reading (ident_bytes j) rest)"
    using len by (simp add: bytes_simps)
  then show ?thesis
    using id m d
    by (intro exI [of _ m] exI [of _ ident]) (simp add: ProcessIdentity_def Let_def ident_sizes info_fresh_def)
qed

text \<open>The size of an info depends only on what it says.\<close>

lemma info_size_view:
  assumes "info_view d = info_view i"
  shows "info_size d = info_size i"
proof -
  have "map address_size (ri_addresses d) = map address_size (ri_addresses i)"
    using assms by (intro address_sizes_view) (simp add: info_view_def)
  then show ?thesis
    using assms by (simp add: info_size_def info_view_def ident_view_def ident_size_def mapping_size_def
        crypto_pubkey_len_def signing_pubkey_len_def sig_len_def)
qed

text \<open>The options a router info must carry: its static key and the protocol version.\<close>

definition ri_options_ok :: "mapping \<Rightarrow> bool" where
  "ri_options_ok m \<longleftrightarrow> mapping_ok m
     \<and> (\<exists>s. kv_lookup (kv m) (ascii ''s'') = Some s \<and> s \<noteq> [])
     \<and> (\<exists>v. kv_lookup (kv m) (ascii ''v'') = Some v \<and> v \<noteq> [] \<and> hd v = 50)"

lemma ProcessOptions_bytes:
  assumes "ri_options_ok m"
  shows "\<exists>i'. ProcessOptions (reading pre (mapping_bytes m @ rest)) i =
      Inr (i\<lparr>ri_options := i'\<rparr>, reading (pre @ mapping_bytes m) rest) \<and> kv i' = kv m"
proof -
  have m: "mapping_ok m" "kv m \<noteq> []" using assms by (auto simp: ri_options_ok_def kv_lookup_def)
  let ?sz = "mapping_size m - 2" and ?es = "concat (map entry_bytes (kv m))"
  obtain e es where "kv m = e # es" using m(2) by (cases "kv m") auto
  then have "entry_size e \<ge> 4" "unat (mapping_size m) = 2 + entry_size e + sum_list (map entry_size es)"
    using m(1) mapping_size_unat [OF m(1)] by (auto simp: mapping_ok_def entry_size_def mapping_sizes entry_ok_def)
  then have big: "6 \<le> unat (mapping_size m)" by simp
  have "mapping_size m \<noteq> 2"
  proof
    assume "mapping_size m = 2"
    then have "unat (mapping_size m) = 2" by simp
    with big show False by simp
  qed
  then have nz: "?sz \<noteq> 0" by simp
  have rd: "read_le (reading pre (mapping_bytes m @ rest)) = Inr (?sz, reading (pre @ le_of_word ?sz) (?es @ rest))"
    by (simp add: mapping_bytes_def field_get)
  have sb: "skip_back 2 (reading (pre @ le_of_word ?sz) (?es @ rest)) = Inr (reading pre (mapping_bytes m @ rest))"
    by (simp add: skip_back_reading mapping_bytes_def)
  note tk = take_mapping_bytes [OF m(1) refl, of rest]
  have rd2: "read_data (2 + unat ?sz) (reading pre (mapping_bytes m @ rest)) =
      Inr (mapping_bytes m, reading (pre @ mapping_bytes m) rest)"
    using tk unfolding read_data_reading by simp
  have de: "mapping_deserialize ((ri_options i)\<lparr>map_buffer := mapping_bytes m\<rparr>) =
      Inr ((ri_options i)\<lparr>kv := kv m, map_buffer := mapping_bytes m\<rparr>)"
    using mapping_deserialize_bytes [OF m(1,2), of "(ri_options i)\<lparr>map_buffer := mapping_bytes m\<rparr>"] by simp
  have gc: "gcount (reading pre (mapping_bytes m @ rest)) \<noteq> 0"
    using tk by (simp add: reading_sel)
  let ?o = "(ri_options i)\<lparr>kv := kv m, map_buffer := mapping_bytes m\<rparr>"
  obtain s v where sv: "kv_lookup (kv m) (ascii ''s'') = Some s" "s \<noteq> []"
    "kv_lookup (kv m) (ascii ''v'') = Some v" "v \<noteq> []" "hd v = 50"
    using assms by (auto simp: ri_options_ok_def)
  have "mapping_entry_at (ascii ''s'') ?o = Inr s" "mapping_entry_at (ascii ''v'') ?o = Inr v"
    using sv by (simp_all add: mapping_entry_at_lookup ascii_def)
  then have "ProcessOptions (reading pre (mapping_bytes m @ rest)) i =
      Inr (i\<lparr>ri_options := ?o\<rparr>, reading (pre @ mapping_bytes m) rest)"
    using gc nz sv by (simp add: ProcessOptions_def Let_def rd sb rd2 [simplified] de ri_version_def)
  then show ?thesis by auto
qed


text \<open>
  The whole info: what is read from the bytes an info serializes to is what was written, and
  the signature in them is the one made over the bytes before it.
\<close>

lemma info_deserialize_written:
  assumes ok: "info_ok i" "ri_options_ok (ri_options i)" and d: "info_fresh (ri_identity i) d"
    and sig: "length (sig_bytes sig) = 64" "sig_kind sig = skind (signing (ri_identity i))"
    and buf: "ri_buf d = info_body E r now i @ sig_bytes sig"
  shows "\<exists>d'. info_deserialize E r1 r2 d = Inr d' \<and> ri_buf d' = ri_buf d
    \<and> info_view d' = (ident_view (ident_written E r (ri_identity i)), now,
        map address_view (ri_addresses i), kv (ri_options i), sig)"
proof -
  let ?id = "ident_written E r (ri_identity i)" and ?as = "ri_addresses i" and ?m = "ri_options i"
  let ?A = "concat (map address_bytes ?as)" and ?n = "word_of_nat (length ?as) :: byte"
  let ?S = "sig_bytes sig" and ?I = "ident_bytes ?id" and ?N = "le_of_word now"
  have iok: "ident_ok (ri_identity i)" "list_all address_ok ?as" "length ?as \<le> 255"
    using ok(1) by (auto simp: info_ok_def)
  note idw = ident_written_ok [OF iok(1), of E r]
  have df: "info_fresh ?id d" using d idw(5,6) by (simp add: info_fresh_def)
  have n: "unat ?n = length ?as" using iok(3) by (intro unat_word_of_nat) simp
  let ?t1 = "?N @ ?n # ?A @ 0 # mapping_bytes ?m @ ?S"
  obtain m0 ident where p1: "ProcessIdentity E r1 r2 (reading [] (?I @ ?t1)) d =
      Inr (d\<lparr>ri_identity := ident, ri_options := m0\<rparr>, reading ?I ?t1)"
    and idv: "ident_view ident = ident_view ?id" and isk: "skind (signing ident) = skind (signing (ri_identity i))"
    using ProcessIdentity_bytes [OF idw(1,2) df, of E r1 r2 ?t1] idw(3,5)
    by (auto simp: ident_view_def ident_written_def Let_def update_hash_def)
  let ?d1 = "d\<lparr>ri_identity := ident, ri_options := m0, ri_date := now\<rparr>"
  have p2: "read_le (reading ?I ?t1) = Inr (now, reading (?I @ ?N) (?n # ?A @ 0 # mapping_bytes ?m @ ?S))"
    by (simp add: field_get)
  have p3: "read_be (reading (?I @ ?N) (?n # ?A @ 0 # mapping_bytes ?m @ ?S)) =
      Inr (?n, reading (?I @ ?N @ [?n]) (?A @ 0 # mapping_bytes ?m @ ?S))"
    by (simp add: field_get)
  obtain bs where p4: "read_addresses (length ?as) (ri_buf d) (reading (?I @ ?N @ [?n]) (?A @ 0 # mapping_bytes ?m @ ?S)) =
      Inr (bs, reading (?I @ ?N @ ?n # ?A) (0 # mapping_bytes ?m @ ?S))"
    and bsv: "map address_view bs = map address_view ?as"
    using read_addresses_bytes [OF iok(2), of "ri_buf d" "?I @ ?N @ [?n]" "0 # mapping_bytes ?m @ ?S"] buf
    by (auto simp: info_body_def)
  have p5: "skip_bytes 1 (reading (?I @ ?N @ ?n # ?A) (0 # mapping_bytes ?m @ ?S)) =
      Inr (reading (?I @ ?N @ ?n # ?A @ [0]) (mapping_bytes ?m @ ?S))"
    by (simp add: skip_bytes_reading)
  obtain m' where p6: "ProcessOptions (reading (?I @ ?N @ ?n # ?A @ [0]) (mapping_bytes ?m @ ?S)) (?d1\<lparr>ri_addresses := bs\<rparr>) =
      Inr (?d1\<lparr>ri_addresses := bs, ri_options := m'\<rparr>, reading (?I @ ?N @ ?n # ?A @ 0 # mapping_bytes ?m) ?S)"
    and mv: "kv m' = kv ?m"
    using ProcessOptions_bytes [OF ok(2), of "?I @ ?N @ ?n # ?A @ [0]" ?S "?d1\<lparr>ri_addresses := bs\<rparr>"] by auto
  have p7: "read_data 64 (reading (?I @ ?N @ ?n # ?A @ 0 # mapping_bytes ?m) ?S) =
      Inr (?S, reading (?I @ ?N @ ?n # ?A @ 0 # mapping_bytes ?m @ ?S) [])"
    using sig(1) by (simp add: read_data_reading)
  have start: "bytes_on (ri_buf d) = reading [] (?I @ ?t1)"
    using buf by (simp add: bytes_on_reading info_body_def)
  have pa: "ProcessAddresses (reading (?I @ ?N) (?n # ?A @ 0 # mapping_bytes ?m @ ?S)) ?d1 =
      Inr (?d1\<lparr>ri_addresses := bs\<rparr>, reading (?I @ ?N @ ?n # ?A) (0 # mapping_bytes ?m @ ?S))"
    using p4 by (simp add: ProcessAddresses_def p3 n)
  have sg: "\<lparr>sig_kind = skind (signing ident), sig_bytes = ?S\<rparr> = sig"
    using sig(2) isk by (cases sig) simp
  have "info_deserialize E r1 r2 d = Inr (?d1\<lparr>ri_addresses := bs, ri_options := m', ri_signature := sig\<rparr>)"
    unfolding info_deserialize_def start p1 bindr_simps prod.case p2 using pa p5 p6 p7 sg by simp
  then show ?thesis using idv bsv mv by (simp add: info_view_def)
qed


text \<open>A serialized info, read back, with the signature checked by its reader.\<close>

definition sign_len_ok :: "sign_prims \<Rightarrow> bool" where
  "sign_len_ok S \<longleftrightarrow> (\<forall>msg sk sig. sign_detached S msg sk = Some sig \<longrightarrow> length sig = 64)"

lemma ident_sign_len:
  "sign_len_ok (env_sign E) \<Longrightarrow> ident_sign E msg i = Inr sig \<Longrightarrow>
     length (sig_bytes sig) = 64 \<and> sig_kind sig = skind (signing i)"
  by (auto simp: ident_sign_def signing_sign_Inr_iff sign_len_ok_def)

lemma info_serialize_Inr_iff:
  assumes "info_ok i" "sign_len_ok (env_sign E)"
  shows "info_serialize E r now i = Inr i' \<longleftrightarrow>
    (\<exists>sig. ident_sign E (info_body E r now i) (ident_written E r (ri_identity i)) = Inr sig
       \<and> i' = info_written E r now sig i)"
  using info_serialize_sign [OF assms(1)] ident_sign_len [OF assms(2)] by (auto simp: bindr_Inr_iff)

lemma address_view_written: "address_view (address_written a) = address_view a"
  by (simp add: address_view_def address_written_def)

lemma info_roundtrip:
  assumes ok: "info_ok i" "ri_options_ok (ri_options i)" "sign_len_ok (env_sign E)"
    and ser: "info_serialize E r now i = Inr i'" and d: "info_fresh (ri_identity i) d"
  shows "\<exists>d'. info_deserialize E r1 r2 (d\<lparr>ri_buf := ri_buf i'\<rparr>) = Inr d'
    \<and> info_view d' = info_view i' \<and> ri_buf d' = ri_buf i'"
proof -
  obtain sig where sig: "ident_sign E (info_body E r now i) (ident_written E r (ri_identity i)) = Inr sig"
    "i' = info_written E r now sig i"
    using info_serialize_Inr_iff [OF ok(1,3)] ser by blast
  have "info_fresh (ri_identity i) (d\<lparr>ri_buf := ri_buf i'\<rparr>)"
    using d by (simp add: info_fresh_def)
  moreover have "skind (signing (ident_written E r (ri_identity i))) = skind (signing (ri_identity i))"
    using ident_written_ok(5) [of "ri_identity i"] ok(1) by (simp add: info_ok_def)
  ultimately show ?thesis
    using info_deserialize_written [OF ok(1,2), of "d\<lparr>ri_buf := ri_buf i'\<rparr>" sig E r now r1 r2]
      ident_sign_len [OF ok(3) sig(1)] sig(2)
    by (auto simp: info_written_def info_view_def address_view_written comp_def)
qed

text \<open>
  The reader's check of the signature: it holds when the signature scheme accepts the
  signatures of a private key under its public key.
\<close>

lemma info_verify_read:
  assumes ok: "info_ok i" "sign_len_ok (env_sign E)"
    and ser: "info_serialize E r now i = Inr i'"
    and d: "info_view d' = info_view i'" "ri_buf d' = ri_buf i'"
      "skind (signing (ri_identity d')) = skind (signing (ri_identity i))"
    and key: "\<And>sk. sk_ptr (sobj (signing (ri_identity i))) = Some sk \<Longrightarrow>
        sk_to_pk (env_sign E) sk = Some (pk_ptr (sobj (signing (ri_identity i))))"
    and law: "\<And>msg sk pk sig. sign_detached (env_sign E) msg sk = Some sig \<Longrightarrow>
        sk_to_pk (env_sign E) sk = Some pk \<Longrightarrow> verify_detached (env_sign E) sig msg pk"
  shows "info_verify E d' = Inr True"
proof -
  let ?w = "ident_written E r (ri_identity i)"
  obtain sig where sig: "ident_sign E (info_body E r now i) ?w = Inr sig"
    "i' = info_written E r now sig i"
    using info_serialize_Inr_iff [OF ok] ser by blast
  have sgn: "signing ?w = signing (ri_identity i)"
    using ident_written_ok(5) ok(1) by (simp add: info_ok_def)
  have buf: "ri_buf d' = info_body E r now i @ sig_bytes sig" "ri_signature d' = sig"
    "pk_ptr (sobj (signing (ri_identity d'))) = pk_ptr (sobj (signing (ri_identity i)))"
    using d sig(2) sgn by (auto simp: info_written_def info_view_def ident_view_def)
  have "signing_verify (env_sign E) (info_body E r now i) sig (signing (ri_identity d')) = Inr True"
    using sig(1) sgn d(3) buf(3) key law
    by (intro signing_sign_verify [where v = "signing (ri_identity i)"]) (auto simp: ident_sign_def)
  moreover have "length (sig_bytes sig) = 64" using ident_sign_len [OF ok(2) sig(1)] by simp
  ultimately show ?thesis
    using buf(1,2) by (simp add: info_verify_def sig_len_def ident_verify_def)
qed

section \<open>The kind of the signature, and the identity on its own\<close>

lemma info_deserialize_kind:
  "info_deserialize E r1 r2 i = Inr d \<Longrightarrow> sig_kind (ri_signature d) = skind (signing (ri_identity d))"
  by (auto simp: info_deserialize_def result_simps)

lemma info_serialize_kind:
  assumes "info_ok i" "sign_len_ok (env_sign E)" "info_serialize E r now i = Inr i'"
  shows "sig_kind (ri_signature i') = skind (signing (ri_identity i))"
proof -
  obtain sig where "ident_sign E (info_body E r now i) (ident_written E r (ri_identity i)) = Inr sig"
    "i' = info_written E r now sig i"
    using info_serialize_Inr_iff [OF assms(1,2)] assms(3) by blast
  then show ?thesis
    using ident_sign_len [OF assms(2)] ident_written_ok(5) [of "ri_identity i" E r] assms(1)
    by (simp add: info_written_def info_ok_def)
qed

lemma ident_roundtrip:
  assumes j: "ident_ok j" and ser: "ident_serialize E r j = Inr j'"
    and d: "length (cert_buffer (cert d)) = 7" "\<not> locally_unreachable (cert d)"
      "ckind (crypto d) = ckind (crypto j)" "skind (signing d) = skind (signing j)"
  shows "length (id_buf j') = 391 \<and> (\<exists>d'. ident_deserialize E r1 r2 (d\<lparr>id_buf := id_buf j'\<rparr>) = Inr d'
    \<and> ident_view d' = ident_view j')"
proof -
  have j': "j' = ident_written E r j" using ident_serialize_eq [OF j, of E r] ser by (simp add: ident_written_def Let_def)
  note w = ident_written_ok [OF j, of E r]
  have h: "id_hash (ident_written E r j) = sha256 (env_prims E) (ident_bytes (ident_written E r j))"
    using w(3) by (simp add: ident_written_def Let_def update_hash_def)
  have cl: "cert_length (cert (ident_written E r j)) = 7" using w(1) by (simp add: ident_ok_def)
  have "\<exists>d'. ident_deserialize E r1 r2 (d\<lparr>id_buf := ident_bytes (ident_written E r j)\<rparr>) = Inr d'
    \<and> ident_view d' = ident_view (ident_written E r j)"
    using ident_deserialize_bytes [OF w(1,2), of "d\<lparr>id_buf := ident_bytes (ident_written E r j)\<rparr>" E r1 r2] d w(5,6) h cl
    by (simp add: ident_view_def update_hash_def set_crypto_pubkey_def signer_rekey_pk_def)
  then show ?thesis using w(3,4) by (simp add: j')
qed

end
