(* ===== verification/TimeRand.thy ===== *)
theory TimeRand
  imports SecBytes "HOL-Library.Signed_Division"
begin

text \<open>
  The clock helpers of \<open>src/time.h\<close> and the random helpers of \<open>src/crypto/rand.h\<close>. The reading
  of the steady clock and the draws of libsodium's generator are arguments.
\<close>

section \<open>Time\<close>

definition LagDelta :: u32 where "LagDelta = 120"

definition MaxLagDelta :: u32 where "MaxLagDelta = 3 * LagDelta"

text \<open>
  \<open>now_s\<close> multiplies the tick count by the clock's period \<open>num/den\<close> in signed 64-bit
  arithmetic and cuts it to 32 bits; \<open>now_ms\<close> returns the tick count itself.
\<close>

definition now_s :: "int \<Rightarrow> int \<Rightarrow> int \<Rightarrow> u32" where
  "now_s num den ticks = word_of_int ((ticks * num) sdiv den)"

definition now_ms :: "int \<Rightarrow> u64" where
  "now_ms ticks = word_of_int ticks"

text \<open>The difference is computed on 32-bit words, so it wraps for a timestamp after now.\<close>

definition check_lag_s :: "u32 \<Rightarrow> u32 \<Rightarrow> bool" where
  "check_lag_s now ts \<longleftrightarrow> now - ts \<le> MaxLagDelta"

lemma MaxLagDelta_eq: "MaxLagDelta = 360"
  by (simp add: MaxLagDelta_def LagDelta_def)

lemma check_lag_s_self [simp]: "check_lag_s now now"
  by (simp add: check_lag_s_def)

lemma check_lag_s_past:
  assumes "ts \<le> now"
  shows "check_lag_s now ts \<longleftrightarrow> unat now - unat ts \<le> 360"
  using assms
  by (simp add: check_lag_s_def MaxLagDelta_eq word_le_nat_alt unat_sub)

lemma unat_diff_wrap:
  assumes "now < (ts::u32)"
  shows "unat (now - ts) = 2 ^ 32 - (unat ts - unat now)"
  using assms unsigned_less [of ts, where 'a = nat]
  by (auto simp: unat_sub_if' word_less_nat_alt word_size)

lemma check_lag_s_future:
  assumes "now < ts"
  shows "check_lag_s now ts \<longleftrightarrow> 2 ^ 32 - 360 \<le> unat ts - unat now"
proof -
  have "unat ts < 2 ^ 32" using unsigned_less [of ts, where 'a = nat] by simp
  then show ?thesis
    using assms
    by (auto simp: check_lag_s_def MaxLagDelta_eq word_le_nat_alt unat_diff_wrap word_less_nat_alt)
qed

section \<open>Random numbers\<close>

text \<open>Filling a buffer: nothing is written through a null data pointer.\<close>

definition RandBytes :: "rng \<Rightarrow> byte list \<Rightarrow> byte list" where
  "RandBytes r b = (if b = [] then b else rand_bytes r (length b))"

lemma length_RandBytes [simp]: "length (RandBytes r b) = length b"
  by (simp add: RandBytes_def)

lemma RandBytes_Nil [simp]: "RandBytes r [] = []"
  by (simp add: RandBytes_def)

text \<open>
  \<open>RandInRange\<close> draws until a number falls in the range. The draws are the successive
  results of \<open>randombytes_uniform(max)\<close>; \<open>None\<close> when none of the given ones ends the loop.
\<close>

fun RandInRange :: "u32 \<Rightarrow> u32 \<Rightarrow> u32 list \<Rightarrow> u32 option" where
  "RandInRange mn mx [] = None"
| "RandInRange mn mx (d # ds) = (if d < mn \<or> d > mx then RandInRange mn mx ds else Some d)"

text \<open>What libsodium documents of \<open>randombytes_uniform\<close>: below a bound of 2 or more, else 0.\<close>

definition uniform_draw :: "u32 \<Rightarrow> u32 \<Rightarrow> bool" where
  "uniform_draw mx d \<longleftrightarrow> (if mx < 2 then d = 0 else d < mx)"

lemma RandInRange_bounds: "RandInRange mn mx ds = Some d \<Longrightarrow> mn \<le> d \<and> d \<le> mx \<and> d \<in> set ds"
  by (induction ds) (auto split: if_splits)

lemma RandInRange_hit:
  "\<exists>d \<in> set ds. mn \<le> d \<and> d \<le> mx \<Longrightarrow> \<exists>d. RandInRange mn mx ds = Some d"
  by (induction ds) (auto simp: not_less)

lemma RandInRange_below_max:
  "RandInRange mn mx ds = Some d \<Longrightarrow> \<forall>d \<in> set ds. uniform_draw mx d \<Longrightarrow> 2 \<le> mx \<Longrightarrow> d < mx"
  using RandInRange_bounds by (force simp: uniform_draw_def)

lemma RandInRange_stuck:
  "mn = mx \<Longrightarrow> 2 \<le> mx \<Longrightarrow> \<forall>d \<in> set ds. uniform_draw mx d \<Longrightarrow> RandInRange mn mx ds = None"
  by (induction ds) (auto simp: uniform_draw_def)

end
