(* ===== verification/Blocks.thy ===== *)
theory Blocks
  imports Complex_Main RouterInfo TimeRand
begin

text \<open>
  The NTCP2 blocks of \<open>src/data/blocks/\<close>: the common part of \<open>block.h\<close> and the six kinds of
  block. Types, reasons and flags are read from the wire into enumerations with a fixed
  underlying type, so those fields are raw numbers with named constants. The sizes are
  \<open>big_uint16_t\<close>. The current time of \<open>tini2p::time::now_s\<close> and the random draws are arguments.
\<close>

section \<open>Block\<close>

definition DateTime :: byte where "DateTime = 0"
definition Options :: byte where "Options = 1"
definition Info :: byte where "Info = 2"
definition I2NP :: byte where "I2NP = 3"
definition Termination :: byte where "Termination = 4"
definition Padding :: byte where "Padding = 254"
definition Reserved :: byte where "Reserved = 255"

lemmas block_types = DateTime_def Options_def Info_def I2NP_def Termination_def Padding_def Reserved_def

definition HeaderLen :: nat where "HeaderLen = 3"
definition MaxLen :: nat where "MaxLen = 65516"

record block =
  block_type :: byte
  block_data_size :: u16
  block_buf :: "byte list"

text \<open>The total size, a 16-bit sum, and the constructors of the base class.\<close>

definition block_size :: "'a block_scheme \<Rightarrow> u16" where
  "block_size b = word_of_nat HeaderLen + block_data_size b"

definition block_of_type :: "byte \<Rightarrow> block" where
  "block_of_type t = \<lparr>block_type = t, block_data_size = 0, block_buf = []\<rparr>"

definition block_of_size :: "byte \<Rightarrow> u16 \<Rightarrow> block" where
  "block_of_size t n =
     \<lparr>block_type = t, block_data_size = n, block_buf = sec_of_size (HeaderLen + unat n)\<rparr>"

text \<open>The header as every block writes and reads it.\<close>

definition write_header :: "byte \<Rightarrow> u16 \<Rightarrow> bytes \<Rightarrow> bytes result" where
  "write_header t n w = bindr (write_be t w) (\<lambda>w. write_be n w)"

definition read_header :: "bytes \<Rightarrow> (byte \<times> u16 \<times> bytes) result" where
  "read_header r = bindr (read_be r) (\<lambda>(t, r). bindr (read_be r) (\<lambda>(n, r). Inr (t, n, r)))"

section \<open>DateTimeBlock\<close>

definition TimestampLen :: u16 where "TimestampLen = 4"

record date_time_block = block +
  timestamp :: u32

definition dt_check_params :: "u32 \<Rightarrow> exception \<Rightarrow> date_time_block \<Rightarrow> unit result" where
  "dt_check_params now ex b =
     (if block_type b \<noteq> DateTime then throw_ex ex Runtime_error ''invalid block ID.''
      else if block_data_size b \<noteq> TimestampLen then throw_ex ex Length_error ''invalid size.''
      else if \<not> check_lag_s now (timestamp b) then throw_ex ex Length_error ''invalid timestamp.''
      else Inr ())"

text \<open>The buffer is written as it is: it is not resized first.\<close>

definition dt_serialize :: "u32 \<Rightarrow> date_time_block \<Rightarrow> date_time_block result" where
  "dt_serialize now b =
     bindr (dt_check_params now (Ex ''DateTimeBlock'' ''serialize'') b) (\<lambda>_.
     bindr (write_header (block_type b) (block_data_size b) (bytes_on (block_buf b))) (\<lambda>w.
     bindr (write_be (timestamp b) w) (\<lambda>w. Inr (b\<lparr>block_buf := sbuf w\<rparr>))))"

definition dt_deserialize :: "u32 \<Rightarrow> date_time_block \<Rightarrow> date_time_block result" where
  "dt_deserialize now b =
     bindr (read_header (bytes_on (block_buf b))) (\<lambda>(t, n, r).
     bindr (read_be r) (\<lambda>(ts, r).
     let b = b\<lparr>block_type := t, block_data_size := n, timestamp := ts\<rparr> in
     bindr (dt_check_params now (Ex ''DateTimeBlock'' ''deserialize'') b) (\<lambda>_. Inr b)))"

definition dt_members :: "block \<Rightarrow> u32 \<Rightarrow> date_time_block" where
  "dt_members b ts = block.extend b \<lparr>timestamp = ts\<rparr>"

definition dt_default :: "u32 \<Rightarrow> date_time_block result" where
  "dt_default now = dt_serialize now (dt_members (block_of_size DateTime TimestampLen) now)"

text \<open>
  The converting constructor: the base constructor already makes a buffer as large as the
  input and its header, and the input is inserted in front of it.
\<close>

definition dt_of_range :: "u32 \<Rightarrow> byte list \<Rightarrow> date_time_block result" where
  "dt_of_range now bs =
     (let b = dt_members (block_of_size DateTime (word_of_nat (length bs))) 0 in
      dt_deserialize now (b\<lparr>block_buf := bs @ block_buf b\<rparr>))"

definition dt_set_timestamp :: "u32 \<Rightarrow> u32 \<Rightarrow> date_time_block \<Rightarrow> date_time_block result" where
  "dt_set_timestamp now ts b =
     (if \<not> check_lag_s now ts
      then throw_ex (Ex ''DateTimeBlock'' ''timestamp'') Logic_error ''invalid timestamp skew.''
      else Inr (b\<lparr>timestamp := ts\<rparr>))"

section \<open>PaddingBlock\<close>

definition MaxPaddingLen :: nat where "MaxPaddingLen = MaxLen - (HeaderLen + InfoMinLen)"

record padding_block = block +
  pad_bytes :: "byte list"

definition pad_check_params :: "exception \<Rightarrow> padding_block \<Rightarrow> unit result" where
  "pad_check_params ex b =
     (if block_type b \<noteq> Padding then throw_ex ex Runtime_error ''invalid block type.''
      else if unat (block_data_size b) > MaxPaddingLen then throw_ex ex Length_error ''invalid block size.''
      else Inr ())"

definition pad_serialize :: "rng \<Rightarrow> padding_block \<Rightarrow> padding_block result" where
  "pad_serialize r b =
     (let b = b\<lparr>block_data_size := word_of_nat (length (pad_bytes b))\<rparr> in
      bindr (pad_check_params (Ex ''PaddingBlock'' ''serialize'') b) (\<lambda>_.
      let buf = sec_resize (unat (block_size b)) (block_buf b);
          b = b\<lparr>pad_bytes := rand_bytes r (length (pad_bytes b))\<rparr> in
      bindr (write_header (block_type b) (block_data_size b) (bytes_on buf)) (\<lambda>w.
      bindr (if block_data_size b \<noteq> 0 then write_data (pad_bytes b) w else Inr w) (\<lambda>w.
        Inr (b\<lparr>block_buf := sbuf w\<rparr>)))))"

definition pad_deserialize :: "padding_block \<Rightarrow> padding_block result" where
  "pad_deserialize b =
     bindr (read_header (bytes_on (block_buf b))) (\<lambda>(t, n, r).
     let b = b\<lparr>block_type := t, block_data_size := n\<rparr> in
     bindr (pad_check_params (Ex ''PaddingBlock'' ''deserialize'') b) (\<lambda>_.
     if n \<noteq> 0 then bindr (read_data (unat n) r) (\<lambda>(p, r). Inr (b\<lparr>pad_bytes := p\<rparr>))
     else Inr b))"

definition pad_members :: "block \<Rightarrow> byte list \<Rightarrow> padding_block" where
  "pad_members b p = block.extend b \<lparr>pad_bytes = p\<rparr>"

definition pad_default :: "padding_block result" where
  "pad_default = pad_serialize (\<lambda>_. 0) (pad_members (block_of_type Padding) [])"

definition pad_of_size :: "rng \<Rightarrow> u16 \<Rightarrow> padding_block result" where
  "pad_of_size r n = pad_serialize r (pad_members (block_of_size Padding n) (sec_of_size (unat n)))"

definition pad_of_range :: "byte list \<Rightarrow> padding_block result" where
  "pad_of_range bs = pad_deserialize ((pad_members (block_of_type Padding) [])\<lparr>block_buf := bs\<rparr>)"

section \<open>I2NPBlock\<close>

definition MsgHeaderLen :: nat where "MsgHeaderLen = 9"
definition MinMsgLen :: nat where "MinMsgLen = MsgHeaderLen"
definition MaxMsgLen :: nat where "MaxMsgLen = MaxLen - MsgHeaderLen"
definition DefaultI2NPExp :: u32 where "DefaultI2NPExp = 120"

definition Msg_Data :: byte where "Msg_Data = 20"

text \<open>The message types that exist: 1, 2, 3, 10, 11 and 18 to 24.\<close>

definition msg_types :: "byte list" where
  "msg_types = [1, 2, 3, 10, 11, 18, 19, 20, 21, 22, 23, 24]"

record i2np_block = block +
  msg_type :: byte
  msg_id :: u32
  msg_exp :: u32
  msg_buf :: "byte list"

definition check_message_type :: "byte \<Rightarrow> exception \<Rightarrow> unit result" where
  "check_message_type t ex =
     (if t \<in> set msg_types then Inr () else throw_ex ex Logic_error ''invalid I2NP message type.'')"

definition i2np_check_params :: "u32 \<Rightarrow> exception \<Rightarrow> i2np_block \<Rightarrow> unit result" where
  "i2np_check_params now ex b =
     (if block_type b \<noteq> I2NP then throw_ex ex Logic_error ''invalid block type.''
      else if unat (block_data_size b) < MinMsgLen \<or> unat (block_data_size b) > MaxMsgLen
      then throw_ex ex Length_error ''invalid block size.''
      else bindr (check_message_type (msg_type b) ex) (\<lambda>_.
           if now \<ge> msg_exp b then throw_ex ex Logic_error ''invalid expiration.'' else Inr ()))"

definition i2np_serialize :: "u32 \<Rightarrow> i2np_block \<Rightarrow> i2np_block result" where
  "i2np_serialize now b =
     (let b = b\<lparr>block_data_size := word_of_nat (MsgHeaderLen + length (msg_buf b))\<rparr> in
      bindr (i2np_check_params now (Ex ''I2NPBlock'' ''serialize'') b) (\<lambda>_.
      let buf = sec_resize (HeaderLen + unat (block_data_size b)) (block_buf b) in
      bindr (write_header (block_type b) (block_data_size b) (bytes_on buf)) (\<lambda>w.
      bindr (write_be (msg_type b) w) (\<lambda>w.
      bindr (write_be (msg_id b) w) (\<lambda>w.
      bindr (write_be (msg_exp b) w) (\<lambda>w.
      bindr (if msg_buf b \<noteq> [] then write_data (msg_buf b) w else Inr w) (\<lambda>w.
        Inr (b\<lparr>block_buf := sbuf w\<rparr>))))))))"

text \<open>The message is everything left in the buffer, whatever the size field says.\<close>

definition i2np_deserialize :: "u32 \<Rightarrow> i2np_block \<Rightarrow> i2np_block result" where
  "i2np_deserialize now b =
     bindr (read_header (bytes_on (block_buf b))) (\<lambda>(t, n, r).
     bindr (read_be r) (\<lambda>(mt, r).
     bindr (read_be r) (\<lambda>(mid, r).
     bindr (read_be r) (\<lambda>(e, r).
     let b = b\<lparr>block_type := t, block_data_size := n, msg_type := mt, msg_id := mid, msg_exp := e\<rparr> in
     bindr (i2np_check_params now (Ex ''I2NPBlock'' ''deserialize'') b) (\<lambda>_.
     if gcount r \<noteq> 0 then bindr (read_data (gcount r) r) (\<lambda>(m, r). Inr (b\<lparr>msg_buf := m\<rparr>))
     else Inr b)))))"

definition i2np_members :: "block \<Rightarrow> byte \<Rightarrow> u32 \<Rightarrow> u32 \<Rightarrow> i2np_block" where
  "i2np_members b t mid e = block.extend b \<lparr>msg_type = t, msg_id = mid, msg_exp = e, msg_buf = []\<rparr>"

text \<open>The default block draws its message ID with \<open>RandInRange(1, 4294967295)\<close>: \<open>mid\<close>.\<close>

definition i2np_default :: "u32 \<Rightarrow> u32 \<Rightarrow> i2np_block result" where
  "i2np_default now mid =
     i2np_serialize now (i2np_members (block_of_size I2NP (word_of_nat MinMsgLen)) Msg_Data mid
       (now + DefaultI2NPExp))"

definition i2np_of_range :: "u32 \<Rightarrow> byte list \<Rightarrow> i2np_block result" where
  "i2np_of_range now bs =
     (let b = i2np_members (block_of_size I2NP (word_of_nat (length bs))) 0 0 0 in
      i2np_deserialize now (b\<lparr>block_buf := bs @ block_buf b\<rparr>))"

definition i2np_set_type :: "byte \<Rightarrow> i2np_block \<Rightarrow> i2np_block result" where
  "i2np_set_type t b =
     bindr (check_message_type t (Ex ''I2NPBlock'' ''msg_type'')) (\<lambda>_. Inr (b\<lparr>msg_type := t\<rparr>))"

definition resize_message :: "nat \<Rightarrow> i2np_block \<Rightarrow> i2np_block result" where
  "resize_message n b =
     (if n > MaxMsgLen
      then throw_ex (Ex ''I2NPBlock'' ''resize_message'') Invalid_argument ''invalid message size''
      else Inr (b\<lparr>msg_buf := sec_resize n (msg_buf b), block_data_size := word_of_nat (MsgHeaderLen + n)\<rparr>))"

section \<open>TerminationBlock\<close>

definition TermHeaderLen :: nat where "TermHeaderLen = 9"
definition MinTermLen :: nat where "MinTermLen = TermHeaderLen"
definition MaxTermLen :: nat where "MaxTermLen = MaxLen"
definition NormalClose :: byte where "NormalClose = 0"
definition Banned :: byte where "Banned = 17"

record term_block = block +
  term_reason :: byte
  valid_frames :: u64
  term_ad :: "byte list"

text \<open>The reasons are the numbers from \<open>NormalClose\<close> to \<open>Banned\<close>.\<close>

definition check_reason :: "byte \<Rightarrow> exception \<Rightarrow> unit result" where
  "check_reason rsn ex =
     (if NormalClose \<le> rsn \<and> rsn \<le> Banned then Inr ()
      else throw_ex ex Logic_error ''invalid termination reason.'')"

definition term_check_params :: "exception \<Rightarrow> term_block \<Rightarrow> unit result" where
  "term_check_params ex b =
     (if block_type b \<noteq> Termination then throw_ex ex Logic_error ''invalid block type.''
      else if unat (block_data_size b) < MinTermLen \<or> unat (block_data_size b) > MaxTermLen
      then throw_ex ex Length_error ''invalid block size.''
      else check_reason (term_reason b) ex)"

definition term_serialize :: "term_block \<Rightarrow> term_block result" where
  "term_serialize b =
     (let b = b\<lparr>block_data_size := word_of_nat (TermHeaderLen + length (term_ad b))\<rparr> in
      bindr (term_check_params (Ex ''TerminationBlock'' ''serialize'') b) (\<lambda>_.
      let buf = sec_resize (HeaderLen + unat (block_data_size b)) (block_buf b) in
      bindr (write_header (block_type b) (block_data_size b) (bytes_on buf)) (\<lambda>w.
      bindr (write_be (valid_frames b) w) (\<lambda>w.
      bindr (write_be (term_reason b) w) (\<lambda>w.
      bindr (if term_ad b \<noteq> [] then write_data (term_ad b) w else Inr w) (\<lambda>w.
        Inr (b\<lparr>block_buf := sbuf w\<rparr>)))))))"

definition term_deserialize :: "term_block \<Rightarrow> term_block result" where
  "term_deserialize b =
     bindr (read_header (bytes_on (block_buf b))) (\<lambda>(t, n, r).
     bindr (read_be r) (\<lambda>(vf, r).
     bindr (read_be r) (\<lambda>(rsn, r).
     let b = b\<lparr>block_type := t, block_data_size := n, valid_frames := vf, term_reason := rsn\<rparr> in
     bindr (term_check_params (Ex ''TerminationBlock'' ''deserialize'') b) (\<lambda>_.
     if gcount r \<noteq> 0 then bindr (read_data (gcount r) r) (\<lambda>(a, r). Inr (b\<lparr>term_ad := a\<rparr>))
     else Inr b))))"

definition term_members :: "block \<Rightarrow> term_block" where
  "term_members b = block.extend b \<lparr>term_reason = NormalClose, valid_frames = 0, term_ad = []\<rparr>"

definition term_default :: "term_block result" where
  "term_default = term_serialize (term_members (block_of_size Termination (word_of_nat MinTermLen)))"

definition term_of_range :: "byte list \<Rightarrow> term_block result" where
  "term_of_range bs =
     (let b = term_members (block_of_size Termination (word_of_nat (length bs))) in
      term_deserialize (b\<lparr>block_buf := bs @ block_buf b\<rparr>))"

definition term_set_reason :: "byte \<Rightarrow> term_block \<Rightarrow> term_block result" where
  "term_set_reason rsn b =
     bindr (check_reason rsn (Ex ''TerminationBlock'' ''reason'')) (\<lambda>_. Inr (b\<lparr>term_reason := rsn\<rparr>))"

section \<open>OptionsBlock\<close>

text \<open>
  A \<open>float\<close> is not a number, an infinity or an exact fraction. The only operations on one are
  the comparison with the two bounds (every comparison with a NaN is false), and the
  multiplication with and the division by 16, which are exact in the range the bounds allow.
\<close>

datatype float_val = NaN | Infinite bool | Fin rat

fun float_less :: "float_val \<Rightarrow> float_val \<Rightarrow> bool" where
  "float_less (Fin a) (Fin b) \<longleftrightarrow> a < b"
| "float_less (Infinite neg) (Fin b) \<longleftrightarrow> neg"
| "float_less (Fin a) (Infinite neg) \<longleftrightarrow> \<not> neg"
| "float_less (Infinite m) (Infinite n) \<longleftrightarrow> m \<and> \<not> n"
| "float_less _ _ \<longleftrightarrow> False"

definition CastRatio :: rat where "CastRatio = 16"
definition MinPaddingRatio :: float_val where "MinPaddingRatio = Fin 0"
definition MaxPaddingRatio :: float_val where "MaxPaddingRatio = Fin (255 / 16)"
definition OptionsLen :: u16 where "OptionsLen = 12"

record options_block = block +
  opt_tmin :: float_val
  opt_tmax :: float_val
  opt_rmin :: float_val
  opt_rmax :: float_val
  opt_tdummy :: u16
  opt_tdelay :: u16
  opt_rdummy :: u16
  opt_rdelay :: u16

definition check_ratio :: "exception \<Rightarrow> float_val \<Rightarrow> unit result" where
  "check_ratio ex x =
     (if float_less x MinPaddingRatio \<or> float_less MaxPaddingRatio x
      then throw_ex ex Length_error ''invalid padding ratio.'' else Inr ())"

definition opt_check_params :: "exception \<Rightarrow> options_block \<Rightarrow> unit result" where
  "opt_check_params ex b =
     (if block_type b \<noteq> Options then throw_ex ex Runtime_error ''invalid block type.''
      else if block_data_size b \<noteq> OptionsLen then throw_ex ex Length_error ''invalid block size.''
      else bindr (check_ratio ex (opt_tmin b)) (\<lambda>_.
           bindr (check_ratio ex (opt_tmax b)) (\<lambda>_.
           bindr (check_ratio ex (opt_rmin b)) (\<lambda>_. check_ratio ex (opt_rmax b)))))"

text \<open>The cast of \<open>ratio * 16\<close> to 8 bits, undefined for what is not a number in range.\<close>

fun ratio_to_byte :: "float_val \<Rightarrow> byte result" where
  "ratio_to_byte (Fin q) =
     (let n = (if 0 \<le> q then \<lfloor>q * CastRatio\<rfloor> else \<lceil>q * CastRatio\<rceil>)
      in if 0 \<le> n \<and> n \<le> 255 then Inr (word_of_int n)
         else Inl (Undefined_behaviour ''float out of the range of the integer''))"
| "ratio_to_byte _ = Inl (Undefined_behaviour ''float out of the range of the integer'')"

definition byte_to_ratio :: "byte \<Rightarrow> float_val" where
  "byte_to_ratio b = Fin (of_nat (unat b) / CastRatio)"

definition write_ratio :: "float_val \<Rightarrow> bytes \<Rightarrow> bytes result" where
  "write_ratio x w = bindr (ratio_to_byte x) (\<lambda>b. write_be b w)"

definition read_ratio :: "bytes \<Rightarrow> (float_val \<times> bytes) result" where
  "read_ratio r = bindr (read_be r) (\<lambda>(b, r). Inr (byte_to_ratio b, r))"

definition opt_serialize :: "options_block \<Rightarrow> options_block result" where
  "opt_serialize b =
     bindr (opt_check_params (Ex ''OptionsBlock'' ''serialize'') b) (\<lambda>_.
     bindr (write_header (block_type b) (block_data_size b) (bytes_on (block_buf b))) (\<lambda>w.
     bindr (write_ratio (opt_tmin b) w) (\<lambda>w.
     bindr (write_ratio (opt_tmax b) w) (\<lambda>w.
     bindr (write_ratio (opt_rmin b) w) (\<lambda>w.
     bindr (write_ratio (opt_rmax b) w) (\<lambda>w.
     bindr (write_be (opt_tdummy b) w) (\<lambda>w.
     bindr (write_be (opt_rdummy b) w) (\<lambda>w.
     bindr (write_be (opt_tdelay b) w) (\<lambda>w.
     bindr (write_be (opt_rdelay b) w) (\<lambda>w. Inr (b\<lparr>block_buf := sbuf w\<rparr>)))))))))))"

definition opt_deserialize :: "options_block \<Rightarrow> options_block result" where
  "opt_deserialize b =
     (let ex = Ex ''OptionsBlock'' ''deserialize'' in
      if length (block_buf b) \<noteq> HeaderLen + unat OptionsLen
      then throw_ex ex Length_error ''invalid buf_ length.''
      else
        bindr (read_header (bytes_on (block_buf b))) (\<lambda>(t, n, r).
        bindr (read_ratio r) (\<lambda>(tmin, r).
        bindr (read_ratio r) (\<lambda>(tmax, r).
        bindr (read_ratio r) (\<lambda>(rmin, r).
        bindr (read_ratio r) (\<lambda>(rmax, r).
        bindr (read_be r) (\<lambda>(tdummy, r).
        bindr (read_be r) (\<lambda>(rdummy, r).
        bindr (read_be r) (\<lambda>(tdelay, r).
        bindr (read_be r) (\<lambda>(rdelay, r).
        let b = b\<lparr>block_type := t, block_data_size := n, opt_tmin := tmin, opt_tmax := tmax,
             opt_rmin := rmin, opt_rmax := rmax, opt_tdummy := tdummy, opt_tdelay := tdelay,
             opt_rdummy := rdummy, opt_rdelay := rdelay\<rparr> in
        bindr (opt_check_params ex b) (\<lambda>_. Inr b)))))))))))"

definition opt_members :: "block \<Rightarrow> options_block" where
  "opt_members b = block.extend b \<lparr>opt_tmin = Fin 0, opt_tmax = Fin 0, opt_rmin = Fin 0,
     opt_rmax = Fin 0, opt_tdummy = 0, opt_tdelay = 0, opt_rdummy = 0, opt_rdelay = 0\<rparr>"

definition opt_default :: "options_block result" where
  "opt_default = opt_serialize (opt_members (block_of_size Options OptionsLen))"

definition opt_of_range :: "byte list \<Rightarrow> options_block result" where
  "opt_of_range bs = opt_deserialize ((opt_members (block_of_type Options))\<lparr>block_buf := bs\<rparr>)"

text \<open>Assignment copies everything but the type; copying serializes again.\<close>

definition opt_assign :: "options_block \<Rightarrow> options_block \<Rightarrow> options_block" where
  "opt_assign oth b = oth\<lparr>block_type := block_type b\<rparr>"

definition opt_copy :: "options_block \<Rightarrow> options_block result" where
  "opt_copy oth = opt_serialize (oth\<lparr>block_type := Options,
     block_buf := sec_of_size (HeaderLen + unat (block_data_size oth))\<rparr>)"

section \<open>InfoBlock\<close>

definition FloodFlagLen :: nat where "FloodFlagLen = 1"
definition MinInfoLen :: nat where "MinInfoLen = 440"
definition MinPayloadLen :: nat where "MinPayloadLen = FloodFlagLen + MinInfoLen"
definition MaxPayloadLen :: nat where "MaxPayloadLen = FloodFlagLen + MaxLen"
definition FloodFlag :: byte where "FloodFlag = 1"

record info_block = block +
  ib_flag :: byte
  ib_info :: "info option"

text \<open>What the operations on blocks draw from outside: keys, clocks, random bytes.\<close>

record block_env =
  be_ident :: ident_env
  be_now :: u32
  be_now_ms :: u64
  be_rng :: rng
  be_r1 :: rng
  be_r2 :: rng
  be_fresh :: "identity result"
  be_msg_id :: u32

definition ib_check_params :: "exception \<Rightarrow> info_block \<Rightarrow> info result" where
  "ib_check_params ex b =
     (if block_type b \<noteq> Info then throw_ex ex Runtime_error ''invalid block ID.''
      else if drop_bit 1 (ib_flag b) \<noteq> 0 then throw_ex ex Runtime_error ''invalid flood request flag.''
      else case ib_info b of
             None \<Rightarrow> throw_ex ex Runtime_error ''need a valid RouterInfo.''
           | Some i \<Rightarrow>
               if unat (block_data_size b) < MinPayloadLen \<or> unat (block_data_size b) > MaxPayloadLen
                 \<or> unat (block_data_size b) \<noteq> FloodFlagLen + info_size i
               then throw_ex ex Length_error ''invalid block size.'' else Inr i)"

definition ib_serialize :: "block_env \<Rightarrow> info_block \<Rightarrow> info_block result" where
  "ib_serialize V b =
     bindr (ib_check_params (Ex ''InfoBlock'' ''serialize'') b) (\<lambda>i.
     let buf = sec_resize (unat (block_size b)) (block_buf b) in
     bindr (write_header (block_type b) (block_data_size b) (bytes_on buf)) (\<lambda>w.
     bindr (write_be (ib_flag b) w) (\<lambda>w.
     bindr (info_serialize (be_ident V) (be_rng V) (be_now_ms V) i) (\<lambda>i.
     bindr (write_data (ri_buf i) w) (\<lambda>w.
       Inr (b\<lparr>ib_info := Some i, block_buf := sbuf w\<rparr>))))))"

definition ib_deserialize :: "block_env \<Rightarrow> info_block \<Rightarrow> info_block result" where
  "ib_deserialize V b =
     (let ex = Ex ''InfoBlock'' ''deserialize'' in
      bindr (read_header (bytes_on (block_buf b))) (\<lambda>(t, n, r).
      bindr (read_be r) (\<lambda>(f, r).
      if n = 0 then Inl (Throw Length_error ''vector::_M_default_append'')
      else
        bindr (read_data (unat n - FloodFlagLen) r) (\<lambda>(ri_buf, r).
        bindr (be_fresh V) (\<lambda>fresh.
        bindr (info_of_buffer (be_ident V) (be_r1 V) (be_r2 V) fresh ri_buf) (\<lambda>i.
        let b = b\<lparr>block_type := t, block_data_size := n, ib_flag := f, ib_info := Some i\<rparr> in
        bindr (ib_check_params ex b) (\<lambda>_. Inr b)))))))"

definition ib_members :: "block \<Rightarrow> info option \<Rightarrow> info_block" where
  "ib_members b i = block.extend b \<lparr>ib_flag = FloodFlag, ib_info = i\<rparr>"

definition ib_default :: info_block where
  "ib_default = ib_members (block_of_size Info (word_of_nat (FloodFlagLen + MinInfoLen))) None"

definition ib_of_info :: "block_env \<Rightarrow> info option \<Rightarrow> info_block result" where
  "ib_of_info V i =
     (case i of
        None \<Rightarrow> throw_ex (Ex ''InfoBlock'' ''InfoBlock'') Invalid_argument ''null RouterInfo.''
      | Some ri \<Rightarrow>
          (let n = word_of_nat (FloodFlagLen + info_size ri);
               b = ib_members (block_of_size Info (word_of_nat (FloodFlagLen + MinInfoLen))) i in
           ib_serialize V (b\<lparr>block_data_size := n,
             block_buf := sec_resize (HeaderLen + unat n) (block_buf b)\<rparr>)))"

definition ib_of_range :: "block_env \<Rightarrow> byte list \<Rightarrow> info_block result" where
  "ib_of_range V bs =
     ib_deserialize V ((ib_members (block_of_type Info) None)\<lparr>block_buf := bs @ sec_of_size (length bs)\<rparr>)"

text \<open>Copying makes a zeroed buffer; assigning copies neither the size nor the buffer.\<close>

definition ib_copy :: "info_block \<Rightarrow> info_block" where
  "ib_copy oth = (ib_members (block_of_size Info (block_data_size oth)) (ib_info oth))\<lparr>ib_flag := ib_flag oth\<rparr>"

definition ib_assign :: "info_block \<Rightarrow> info_block \<Rightarrow> info_block" where
  "ib_assign oth b = b\<lparr>ib_flag := ib_flag oth, ib_info := ib_info oth\<rparr>"

section \<open>What the blocks serialize to\<close>

text \<open>The bytes of a block: its type, the size of its payload and the payload.\<close>

definition frame :: "byte \<Rightarrow> byte list \<Rightarrow> byte list" where
  "frame t p = t # be_of_word (word_of_nat (length p) :: u16) @ p"

lemma length_frame [simp]: "length (frame t p) = 3 + length p"
  by (simp add: frame_def)

lemma read_header_frame:
  "read_header (reading pre (frame t p @ rest)) =
     Inr (t, word_of_nat (length p), reading (pre @ take 3 (frame t p)) (p @ rest))"
  by (simp add: read_header_def frame_def field_get)

lemma read_header_frame0:
  "read_header (reading [] (frame t p)) =
     Inr (t, word_of_nat (length p), reading (take 3 (frame t p)) p)"
  using read_header_frame [of "[]" t p "[]"] by simp

lemma write_header_fits:
  "length ys + 3 \<le> length b \<Longrightarrow>
     write_header t n (written ys b) = Inr (written (ys @ t # be_of_word n) b)"
  by (simp add: write_header_def write_be_fits)

lemma write_header_on:
  "3 \<le> length b \<Longrightarrow> write_header t n (bytes_on b) = Inr (written (t # be_of_word n) b)"
  by (simp add: bytes_on_written write_header_fits)

lemma length_sec [simp]: "length (sec_resize n b) = n" "length (sec_of_size n) = n"
  by (simp_all add: sec_resize_def sec_of_size_def)

lemma written_full: "length ys = length b \<Longrightarrow> sbuf (written ys b) = ys"
  by (simp add: written_sel)

definition ratio_byte :: "float_val \<Rightarrow> byte" where
  "ratio_byte x = (case ratio_to_byte x of Inr b \<Rightarrow> b | Inl _ \<Rightarrow> 0)"

text \<open>The payloads.\<close>

definition dt_payload :: "date_time_block \<Rightarrow> byte list" where
  "dt_payload b = be_of_word (timestamp b)"

definition i2np_payload :: "i2np_block \<Rightarrow> byte list" where
  "i2np_payload b = msg_type b # be_of_word (msg_id b) @ be_of_word (msg_exp b) @ msg_buf b"

definition term_payload :: "term_block \<Rightarrow> byte list" where
  "term_payload b = be_of_word (valid_frames b) @ term_reason b # term_ad b"

definition opt_payload :: "options_block \<Rightarrow> byte list" where
  "opt_payload b = [ratio_byte (opt_tmin b), ratio_byte (opt_tmax b), ratio_byte (opt_rmin b),
     ratio_byte (opt_rmax b)] @ be_of_word (opt_tdummy b) @ be_of_word (opt_rdummy b)
     @ be_of_word (opt_tdelay b) @ be_of_word (opt_rdelay b)"

lemmas payloads = dt_payload_def i2np_payload_def term_payload_def opt_payload_def

section \<open>DateTime\<close>

definition dt_ok :: "u32 \<Rightarrow> date_time_block \<Rightarrow> bool" where
  "dt_ok now b \<longleftrightarrow> block_type b = DateTime \<and> block_data_size b = 4 \<and> check_lag_s now (timestamp b)"

lemma dt_check_iff: "dt_check_params now ex b = Inr u \<longleftrightarrow> dt_ok now b"
  by (auto simp: dt_check_params_def dt_ok_def TimestampLen_def)

lemma dt_serialize_eq:
  assumes "dt_ok now b" "length (block_buf b) = 7"
  shows "dt_serialize now b = Inr (b\<lparr>block_buf := frame DateTime (dt_payload b)\<rparr>)"
proof -
  have c: "dt_check_params now (Ex ''DateTimeBlock'' ''serialize'') b = Inr ()"
    using assms(1) by (simp add: dt_check_iff)
  show ?thesis
    using assms by (simp add: dt_serialize_def c write_header_on write_be_fits written_full frame_def
        dt_payload_def dt_ok_def)
qed

lemma dt_serialize_Inr: "dt_serialize now b = Inr b' \<Longrightarrow> dt_ok now b"
  by (auto simp: dt_serialize_def result_simps dt_check_iff)

lemma dt_deserialize_frame:
  assumes "block_buf b = frame DateTime (be_of_word ts)"
  shows "dt_deserialize now b =
    (if check_lag_s now ts then Inr (b\<lparr>block_type := DateTime, block_data_size := 4, timestamp := ts\<rparr>)
     else throw_ex (Ex ''DateTimeBlock'' ''deserialize'') Length_error ''invalid timestamp.'')"
  using be32.get_reading [of "take 3 (frame DateTime (be_of_word ts))" ts "[]"] assms
  by (simp add: dt_deserialize_def bytes_on_reading read_header_frame0 dt_check_params_def TimestampLen_def Let_def)

section \<open>Padding\<close>

definition pad_ok :: "padding_block \<Rightarrow> bool" where
  "pad_ok b \<longleftrightarrow> block_type b = Padding \<and> length (pad_bytes b) \<le> MaxPaddingLen"

lemma MaxPaddingLen_eq: "MaxPaddingLen = 65073"
  by (simp add: MaxPaddingLen_def MaxLen_def HeaderLen_def InfoMinLen_def)

lemma pad_serialize_eq:
  assumes "pad_ok b"
  shows "pad_serialize r b =
    (let p = rand_bytes r (length (pad_bytes b)) in
     Inr (b\<lparr>block_data_size := word_of_nat (length p), pad_bytes := p, block_buf := frame Padding p\<rparr>))"
proof -
  let ?n = "length (pad_bytes b)"
  have n: "?n \<le> 65073" "block_type b = Padding" using assms by (simp_all add: pad_ok_def MaxPaddingLen_eq)
  have u: "unat (word_of_nat ?n :: u16) = ?n" using n by (intro unat_word_of_nat) simp
  have sz: "unat (word_of_nat HeaderLen + word_of_nat ?n :: u16) = 3 + ?n"
    using n unat_word_of_nat [of "3 + ?n", where 'a = 16] by (simp add: HeaderLen_def)
  have z: "(word_of_nat ?n :: u16) \<noteq> 0 \<longleftrightarrow> ?n \<noteq> 0" using u by (metis unat_eq_0)
  show ?thesis
    using n sz z u
    by (cases "pad_bytes b = []")
      (simp_all add: pad_serialize_def pad_check_params_def Let_def block_size_def MaxPaddingLen_eq
        write_header_on write_data_fits written_full frame_def)
qed

lemma pad_deserialize_frame:
  assumes "block_buf b = frame Padding p" "p \<noteq> []" "length p \<le> MaxPaddingLen"
  shows "pad_deserialize b =
    Inr (b\<lparr>block_type := Padding, block_data_size := word_of_nat (length p), pad_bytes := p\<rparr>)"
proof -
  have u: "unat (word_of_nat (length p) :: u16) = length p"
    using assms(3) by (intro unat_word_of_nat) (simp add: MaxPaddingLen_eq)
  then have "(word_of_nat (length p) :: u16) \<noteq> 0" using assms(2) by auto
  then show ?thesis
    using assms u by (simp add: pad_deserialize_def bytes_on_reading read_header_frame0 pad_check_params_def
        Let_def bytes_simps)
qed


section \<open>I2NP\<close>

definition i2np_ok :: "u32 \<Rightarrow> i2np_block \<Rightarrow> bool" where
  "i2np_ok now b \<longleftrightarrow> block_type b = I2NP \<and> 9 + length (msg_buf b) \<le> MaxMsgLen
     \<and> msg_type b \<in> set msg_types \<and> now < msg_exp b"

lemma MaxMsgLen_eq: "MaxMsgLen = 65507"
  by (simp add: MaxMsgLen_def MaxLen_def MsgHeaderLen_def)

lemma i2np_check_Inr:
  "i2np_check_params now ex b = Inr u \<longleftrightarrow> block_type b = I2NP \<and> 9 \<le> unat (block_data_size b)
     \<and> unat (block_data_size b) \<le> MaxMsgLen \<and> msg_type b \<in> set msg_types \<and> now < msg_exp b"
  by (auto simp: i2np_check_params_def check_message_type_def MinMsgLen_def MsgHeaderLen_def not_le)

lemma u16_small: "n \<le> 65535 \<Longrightarrow> unat (word_of_nat n :: u16) = n"
  by (rule unat_word_of_nat) simp

lemma i2np_serialize_eq:
  assumes "i2np_ok now b"
  shows "i2np_serialize now b = Inr (b\<lparr>block_data_size := word_of_nat (9 + length (msg_buf b)),
      block_buf := frame I2NP (i2np_payload b)\<rparr>)"
proof -
  let ?n = "9 + length (msg_buf b)"
  have n: "?n \<le> 65507" using assms by (simp add: i2np_ok_def MaxMsgLen_eq)
  have u: "unat (word_of_nat ?n :: u16) = ?n" using n by (intro u16_small) simp
  let ?b = "b\<lparr>block_data_size := word_of_nat ?n\<rparr>"
  have c: "i2np_check_params now (Ex ''I2NPBlock'' ''serialize'') ?b = Inr ()"
    using assms n u by (simp add: i2np_check_Inr i2np_ok_def MaxMsgLen_eq)
  have t: "block_type b = I2NP" using assms by (simp add: i2np_ok_def)
  have l: "3 + unat (word_of_nat ?n :: u16) = 12 + length (msg_buf b)" using u by simp
  have len: "length (i2np_payload b) = ?n" by (simp add: i2np_payload_def)
  show ?thesis
    unfolding i2np_serialize_def Let_def MsgHeaderLen_def HeaderLen_def
    using c t l len
    by (cases "msg_buf b = []")
      (simp_all del: of_nat_add add: write_header_on write_be_fits write_data_fits written_full frame_def i2np_payload_def)
qed

lemma i2np_deserialize_append:
  assumes "block_buf b = frame I2NP (mt # be_of_word (mid::u32) @ be_of_word e @ m) @ x"
    and "msg_buf b = []" "9 + length m \<le> MaxMsgLen" "mt \<in> set msg_types" "now < e"
  shows "i2np_deserialize now b = Inr (b\<lparr>block_type := I2NP, block_data_size := word_of_nat (9 + length m),
      msg_type := mt, msg_id := mid, msg_exp := e, msg_buf := m @ x\<rparr>)"
proof -
  let ?h = "take 3 (frame I2NP (mt # be_of_word mid @ be_of_word e @ m))"
  have u: "unat (word_of_nat (9 + length m) :: u16) = 9 + length m"
    using assms(3) by (intro u16_small) (simp add: MaxMsgLen_eq)
  have r0: "read_header (bytes_on (block_buf b)) =
      Inr (I2NP, word_of_nat (9 + length m), reading ?h (mt # be_of_word mid @ be_of_word e @ m @ x))"
    unfolding assms(1) bytes_on_reading read_header_frame by simp
  have c: "i2np_check_params now (Ex ''I2NPBlock'' ''deserialize'') (b\<lparr>block_type := I2NP,
      block_data_size := word_of_nat (9 + length m), msg_type := mt, msg_id := mid, msg_exp := e\<rparr>) = Inr ()"
    using assms(3-5) u by (simp add: i2np_check_Inr)
  show ?thesis
    unfolding i2np_deserialize_def r0 bindr_simps prod.case field_get Let_def c
    using assms(2) by (simp add: bytes_simps)
qed

lemmas i2np_deserialize_frame = i2np_deserialize_append [where x = "[]", unfolded append_Nil2]

text \<open>
  The converting constructor: the base constructor has sized the buffer already, so the zero
  bytes of it follow the input and end up in the message.
\<close>

lemma i2np_of_range_zeros:
  assumes "bs = frame I2NP (mt # be_of_word (mid::u32) @ be_of_word e @ m)"
    and "9 + length m \<le> MaxMsgLen" "mt \<in> set msg_types" "now < e"
  shows "\<exists>b. i2np_of_range now bs = Inr b \<and> msg_buf b = m @ replicate (3 + length bs) 0"
proof -
  let ?b = "i2np_members (block_of_size I2NP (word_of_nat (length bs))) 0 0 0"
  have "length bs \<le> 65510" using assms(1,2) by (simp add: MaxMsgLen_eq)
  then have "unat (word_of_nat (length bs) :: u16) = length bs" by (intro u16_small) simp
  then have buf: "block_buf (?b\<lparr>block_buf := bs @ block_buf ?b\<rparr>) =
      frame I2NP (mt # be_of_word mid @ be_of_word e @ m) @ replicate (3 + length bs) 0"
    by (simp add: assms(1) i2np_members_def block.defs block_of_size_def sec_of_size_def HeaderLen_def)
  have m: "msg_buf (?b\<lparr>block_buf := bs @ block_buf ?b\<rparr>) = []"
    by (simp add: i2np_members_def block.defs)
  show ?thesis
    unfolding i2np_of_range_def Let_def i2np_deserialize_append [OF buf m assms(2-4)] by simp
qed

section \<open>Termination\<close>

definition term_ok :: "term_block \<Rightarrow> bool" where
  "term_ok b \<longleftrightarrow> block_type b = Termination \<and> 9 + length (term_ad b) \<le> MaxTermLen \<and> term_reason b \<le> Banned"

lemma check_reason_Inr: "check_reason rsn ex = Inr u \<longleftrightarrow> rsn \<le> Banned"
  by (simp add: check_reason_def NormalClose_def)

lemma term_check_Inr:
  "term_check_params ex b = Inr u \<longleftrightarrow> block_type b = Termination \<and> 9 \<le> unat (block_data_size b)
     \<and> unat (block_data_size b) \<le> MaxTermLen \<and> term_reason b \<le> Banned"
  by (auto simp: term_check_params_def check_reason_Inr MinTermLen_def TermHeaderLen_def)

lemma term_serialize_eq:
  assumes "term_ok b"
  shows "term_serialize b = Inr (b\<lparr>block_data_size := word_of_nat (9 + length (term_ad b)),
      block_buf := frame Termination (term_payload b)\<rparr>)"
proof -
  let ?n = "9 + length (term_ad b)"
  have n: "?n \<le> 65516" using assms by (simp add: term_ok_def MaxTermLen_def MaxLen_def)
  have u: "unat (word_of_nat ?n :: u16) = ?n" using n by (intro u16_small) simp
  let ?b = "b\<lparr>block_data_size := word_of_nat ?n\<rparr>"
  have c: "term_check_params (Ex ''TerminationBlock'' ''serialize'') ?b = Inr ()"
    using assms n u by (simp add: term_check_Inr term_ok_def)
  have t: "block_type b = Termination" using assms by (simp add: term_ok_def)
  have l: "3 + unat (word_of_nat ?n :: u16) = 12 + length (term_ad b)" using u by simp
  have len: "length (term_payload b) = ?n" by (simp add: term_payload_def)
  show ?thesis
    unfolding term_serialize_def Let_def TermHeaderLen_def HeaderLen_def
    using c t l len
    by (cases "term_ad b = []")
      (simp_all del: of_nat_add add: write_header_on write_be_fits write_data_fits written_full frame_def term_payload_def)
qed

lemma term_deserialize_append:
  assumes "block_buf b = frame Termination (be_of_word (vf::u64) @ rsn # a) @ x"
    and "term_ad b = []" "9 + length a \<le> MaxTermLen" "rsn \<le> Banned"
  shows "term_deserialize b = Inr (b\<lparr>block_type := Termination, block_data_size := word_of_nat (9 + length a),
      valid_frames := vf, term_reason := rsn, term_ad := a @ x\<rparr>)"
proof -
  let ?h = "take 3 (frame Termination (be_of_word vf @ rsn # a))"
  have u: "unat (word_of_nat (9 + length a) :: u16) = 9 + length a"
    using assms(3) by (intro u16_small) (simp add: MaxTermLen_def MaxLen_def)
  have r0: "read_header (bytes_on (block_buf b)) =
      Inr (Termination, word_of_nat (9 + length a), reading ?h (be_of_word vf @ rsn # a @ x))"
    unfolding assms(1) bytes_on_reading read_header_frame by simp
  have c: "term_check_params (Ex ''TerminationBlock'' ''deserialize'') (b\<lparr>block_type := Termination,
      block_data_size := word_of_nat (9 + length a), valid_frames := vf, term_reason := rsn\<rparr>) = Inr ()"
    using assms(3,4) u by (simp add: term_check_Inr)
  show ?thesis
    unfolding term_deserialize_def r0 bindr_simps prod.case field_get Let_def c
    using assms(2) by (simp add: bytes_simps)
qed

lemmas term_deserialize_frame = term_deserialize_append [where x = "[]", unfolded append_Nil2]

section \<open>Options\<close>

definition ratio_ok :: "float_val \<Rightarrow> bool" where
  "ratio_ok x = (case x of Fin q \<Rightarrow> 0 \<le> q \<and> q \<le> 255 / 16 | _ \<Rightarrow> False)"

lemma check_ratio_Inr: "check_ratio ex x = Inr u \<longleftrightarrow> x = NaN \<or> ratio_ok x"
  by (cases x) (auto simp: check_ratio_def ratio_ok_def MinPaddingRatio_def MaxPaddingRatio_def not_less)

lemma ratio_to_byte_ok: "ratio_ok x \<Longrightarrow> ratio_to_byte x = Inr (ratio_byte x)"
  by (cases x) (auto simp: ratio_ok_def ratio_byte_def Let_def CastRatio_def floor_le_iff)

lemma byte_to_ratio_ok: "ratio_ok (byte_to_ratio b)"
proof -
  have "(of_nat (unat b) :: rat) \<le> 255" using unat_bound [of b] by (simp del: of_nat_unat)
  then show ?thesis by (simp add: byte_to_ratio_def ratio_ok_def CastRatio_def del: of_nat_unat)
qed

lemma ratio_byte_of_byte: "ratio_byte (byte_to_ratio b) = b"
proof -
  have "word_of_int (int (unat b)) = b" by simp
  moreover have "int (unat b) \<le> 255" using unat_bound [of b] by (simp del: of_nat_unat)
  ultimately show ?thesis
    by (simp add: ratio_byte_def byte_to_ratio_def CastRatio_def Let_def del: of_nat_unat)
qed

text \<open>Reading back loses less than a sixteenth.\<close>

lemma byte_to_ratio_of_ratio:
  "ratio_ok (Fin q) \<Longrightarrow> \<exists>p. byte_to_ratio (ratio_byte (Fin q)) = Fin p \<and> p \<le> q \<and> q < p + 1 / 16"
proof -
  assume r: "ratio_ok (Fin q)"
  let ?n = "\<lfloor>q * 16\<rfloor>"
  have n: "0 \<le> ?n" "?n \<le> 255" using r by (auto simp: ratio_ok_def floor_le_iff)
  have "ratio_byte (Fin q) = word_of_int ?n"
    using n r by (simp add: ratio_byte_def CastRatio_def Let_def ratio_ok_def)
  moreover have "int (unat (word_of_int ?n :: byte)) = ?n"
    using n by (simp add: uint_nat [symmetric] uint_word_of_int)
  then have "(of_nat (unat (word_of_int ?n :: byte)) :: rat) = of_int ?n"
    by (metis of_int_of_nat_eq)
  ultimately have "byte_to_ratio (ratio_byte (Fin q)) = Fin (of_int ?n / 16)"
    by (simp add: byte_to_ratio_def CastRatio_def del: of_nat_unat)
  moreover have "of_int ?n \<le> q * 16" "q * 16 < of_int ?n + 1" by linarith+
  ultimately show ?thesis by (intro exI [of _ "of_int ?n / 16"]) simp
qed

definition opt_ratios :: "options_block \<Rightarrow> float_val list" where
  "opt_ratios b = [opt_tmin b, opt_tmax b, opt_rmin b, opt_rmax b]"

definition opt_ok :: "options_block \<Rightarrow> bool" where
  "opt_ok b \<longleftrightarrow> block_type b = Options \<and> block_data_size b = 12 \<and> list_all ratio_ok (opt_ratios b)"

lemma opt_check_Inr:
  "opt_check_params ex b = Inr u \<longleftrightarrow> block_type b = Options \<and> block_data_size b = 12
     \<and> list_all (\<lambda>x. x = NaN \<or> ratio_ok x) (opt_ratios b)"
  by (auto simp: opt_check_params_def OptionsLen_def result_simps check_ratio_Inr opt_ratios_def)

lemma write_ratio_fits:
  "ratio_ok x \<Longrightarrow> length ys + 1 \<le> length b \<Longrightarrow> write_ratio x (written ys b) = Inr (written (ys @ [ratio_byte x]) b)"
  by (simp add: write_ratio_def ratio_to_byte_ok write_be_fits)

lemma read_ratio_Cons:
  "read_ratio (reading pre (b # rest)) = Inr (byte_to_ratio b, reading (pre @ [b]) rest)"
  by (simp add: read_ratio_def field_get)

lemma opt_serialize_eq:
  assumes "opt_ok b" "length (block_buf b) = 15"
  shows "opt_serialize b = Inr (b\<lparr>block_buf := frame Options (opt_payload b)\<rparr>)"
proof -
  have c: "opt_check_params (Ex ''OptionsBlock'' ''serialize'') b = Inr ()"
    using assms(1) by (auto simp: opt_check_Inr opt_ok_def list_all_iff)
  have r: "ratio_ok (opt_tmin b)" "ratio_ok (opt_tmax b)" "ratio_ok (opt_rmin b)" "ratio_ok (opt_rmax b)"
    using assms(1) by (simp_all add: opt_ok_def opt_ratios_def)
  have t: "block_type b = Options" "block_data_size b = 12" using assms(1) by (simp_all add: opt_ok_def)
  show ?thesis
    unfolding opt_serialize_def c bindr_simps t
    using assms(2) r by (simp add: write_header_on write_ratio_fits write_be_fits written_full frame_def opt_payload_def)
qed

text \<open>
  A NaN passes the range check, and the cast to a byte that follows is undefined.
\<close>

lemma opt_serialize_nan:
  assumes "opt_ok (b\<lparr>opt_tmin := Fin 0\<rparr>)" "opt_tmin b = NaN" "3 \<le> length (block_buf b)"
  shows "is_ub (opt_serialize b)"
proof -
  have c: "opt_check_params (Ex ''OptionsBlock'' ''serialize'') b = Inr ()"
    using assms(1,2) by (auto simp: opt_check_Inr opt_ok_def list_all_iff opt_ratios_def)
  show ?thesis
    using assms(2,3) by (simp add: opt_serialize_def c write_header_on write_ratio_def)
qed

lemma opt_deserialize_frame:
  fixes td rd tl rl :: u16
  assumes "block_buf b = frame Options ([x1, x2, x3, x4] @ be_of_word td @ be_of_word rd @ be_of_word tl @ be_of_word rl)"
  shows "opt_deserialize b = Inr (b\<lparr>block_type := Options, block_data_size := 12,
     opt_tmin := byte_to_ratio x1, opt_tmax := byte_to_ratio x2, opt_rmin := byte_to_ratio x3,
     opt_rmax := byte_to_ratio x4, opt_tdummy := td, opt_tdelay := tl, opt_rdummy := rd, opt_rdelay := rl\<rparr>)"
    (is "_ = Inr ?b")
proof -
  let ?p = "[x1, x2, x3, x4] @ be_of_word td @ be_of_word rd @ be_of_word tl @ be_of_word rl"
  have l: "length ?p = 12" by simp
  have r0: "read_header (bytes_on (block_buf b)) = Inr (Options, 12, reading (take 3 (frame Options ?p)) ?p)"
    unfolding assms bytes_on_reading read_header_frame0 l by simp
  have c: "opt_check_params (Ex ''OptionsBlock'' ''deserialize'') ?b = Inr ()"
    by (simp add: opt_check_Inr opt_ratios_def byte_to_ratio_ok)
  have l2: "\<not> length (block_buf b) \<noteq> HeaderLen + unat OptionsLen"
    unfolding assms by (simp add: HeaderLen_def OptionsLen_def)
  show ?thesis
    unfolding opt_deserialize_def Let_def if_not_P [OF l2] r0 bindr_simps prod.case append_Cons append_Nil read_ratio_Cons
    using c be16.get_reading [where rest = "[]"]
    by (simp add: field_get)
qed

section \<open>Info\<close>

lemma ib_check_Inr:
  "ib_check_params ex b = Inr i \<longleftrightarrow> block_type b = Info \<and> drop_bit 1 (ib_flag b) = 0 \<and> ib_info b = Some i
     \<and> MinPayloadLen \<le> unat (block_data_size b) \<and> unat (block_data_size b) = 1 + info_size i \<and> info_size i \<le> MaxLen"
  by (auto simp: ib_check_params_def MaxPayloadLen_def FloodFlagLen_def MaxLen_def split: option.splits)

lemma ib_serialize_Inr:
  assumes "ib_serialize V b = Inr b'"
  shows "\<exists>i i'. ib_info b = Some i \<and> block_type b = Info \<and> drop_bit 1 (ib_flag b) = 0
     \<and> MinPayloadLen \<le> unat (block_data_size b) \<and> unat (block_data_size b) = 1 + info_size i
     \<and> info_size i \<le> MaxLen \<and> info_serialize (be_ident V) (be_rng V) (be_now_ms V) i = Inr i'
     \<and> b' = b\<lparr>ib_info := Some i', block_buf := block_buf b'\<rparr>"
  using assms by (auto simp: ib_serialize_def result_simps ib_check_Inr Let_def)

lemma update_id_pubkey_buf: "update_id_pubkey i = Inr i' \<Longrightarrow> ri_buf i' = ri_buf i"
  by (auto simp: update_id_pubkey_def result_simps)

lemma info_deserialize_buf: "info_deserialize E r1 r2 i = Inr i' \<Longrightarrow> ri_buf i' = ri_buf i"
  by (auto simp: info_deserialize_def ProcessIdentity_def ProcessAddresses_def ProcessOptions_def
      result_simps Let_def split: if_splits dest!: update_id_pubkey_buf)

lemma info_of_buffer_buf: "info_of_buffer E r1 r2 fresh bs = Inr i \<Longrightarrow> ri_buf i = bs"
  by (auto simp: info_of_buffer_def dest!: info_deserialize_buf)

lemma ib_serialize_eq:
  assumes b: "block_type b = Info" "drop_bit 1 (ib_flag b) = 0" "ib_info b = Some i"
    "MinInfoLen \<le> info_size i" "info_size i \<le> MaxLen" "block_data_size b = word_of_nat (1 + info_size i)"
    and i: "info_serialize (be_ident V) (be_rng V) (be_now_ms V) i = Inr i'" "length (ri_buf i') = info_size i"
  shows "ib_serialize V b = Inr (b\<lparr>ib_info := Some i', block_buf := frame Info (ib_flag b # ri_buf i')\<rparr>)"
proof -
  have n: "info_size i \<le> 65516" using b(5) by (simp add: MaxLen_def)
  have u: "unat (block_data_size b) = 1 + info_size i" using n b(6) by (simp only:) (intro u16_small, simp)
  have sz: "unat (block_size b) = 4 + info_size i"
    using n unat_word_of_nat [of "4 + info_size i", where 'a = 16] by (simp add: block_size_def HeaderLen_def b(6))
  have c: "ib_check_params (Ex ''InfoBlock'' ''serialize'') b = Inr i"
    using b u by (simp add: ib_check_Inr MinPayloadLen_def FloodFlagLen_def)
  show ?thesis
    unfolding ib_serialize_def c bindr_simps Let_def sz
    using i b by (simp add: write_header_on write_be_fits write_data_fits written_full frame_def)
qed

lemma ib_deserialize_frame:
  assumes "block_buf b = frame Info (f # bs)" "drop_bit 1 f = 0" "be_fresh V = Inr fresh"
    and "info_of_buffer (be_ident V) (be_r1 V) (be_r2 V) fresh bs = Inr i"
    and "MinInfoLen \<le> length bs" "length bs \<le> MaxLen" "info_size i = length bs"
  shows "ib_deserialize V b = Inr (b\<lparr>block_type := Info, block_data_size := word_of_nat (1 + length bs),
     ib_flag := f, ib_info := Some i\<rparr>)"
proof -
  let ?h = "take 3 (frame Info (f # bs))" and ?n = "word_of_nat (1 + length bs) :: u16"
  have u: "unat ?n = 1 + length bs" using assms(6) by (intro u16_small) (simp add: MaxLen_def)
  have nz: "?n \<noteq> 0"
  proof
    assume "?n = 0"
    then have "unat ?n = 0" by (simp only: unat_0)
    with u show False by simp
  qed
  have r0: "read_header (bytes_on (block_buf b)) = Inr (Info, ?n, reading ?h (f # bs))"
    unfolding assms(1) bytes_on_reading read_header_frame0 by simp
  have rd: "read_data (unat ?n - FloodFlagLen) (reading (?h @ [f]) bs) = Inr (bs, reading (?h @ [f] @ bs) [])"
    unfolding u by (simp add: FloodFlagLen_def read_data_reading)
  have c: "ib_check_params (Ex ''InfoBlock'' ''deserialize'') (b\<lparr>block_type := Info, block_data_size := ?n,
     ib_flag := f, ib_info := Some i\<rparr>) = Inr i"
    using assms u by (simp add: ib_check_Inr MinPayloadLen_def FloodFlagLen_def del: of_nat_add)
  show ?thesis
    unfolding ib_deserialize_def Let_def r0 bindr_simps prod.case field_get if_not_P [OF nz] rd assms(3,4) c ..
qed

text \<open>An empty block makes the size of the info underflow.\<close>

lemma ib_deserialize_empty:
  "ib_deserialize V (b\<lparr>block_buf := t # be_of_word (0::u16) @ f # rest\<rparr>) =
     Inl (Throw Length_error ''vector::_M_default_append'')"
  using be16.get_reading [of "[t]" 0 "f # rest"]
  by (simp add: ib_deserialize_def read_header_def bytes_on_reading field_get Let_def)

text \<open>What a reader accepts as an info block: a flag and the bytes of an info.\<close>

definition info_readable :: "block_env \<Rightarrow> byte list \<Rightarrow> bool" where
  "info_readable V bs \<longleftrightarrow> MinInfoLen \<le> length bs \<and> length bs \<le> MaxLen \<and>
     (case be_fresh V of Inl _ \<Rightarrow> False | Inr fresh \<Rightarrow>
        (case info_of_buffer (be_ident V) (be_r1 V) (be_r2 V) fresh bs of
           Inl _ \<Rightarrow> False | Inr i \<Rightarrow> info_size i = length bs))"

text \<open>What a valid info serializes to is readable, by a reader whose default identity has the same types.\<close>

lemma info_written_readable:
  assumes ok: "info_ok i" "ri_options_ok (ri_options i)" "sign_len_ok (env_sign E)"
    and ser: "info_serialize E r now i = Inr i'"
    and sz: "MinInfoLen \<le> info_size i" "info_size i \<le> MaxLen"
    and V: "be_fresh V = Inr fresh" "info_fresh (ri_identity i) (info_members fresh)" "be_ident V = E"
  shows "info_readable V (ri_buf i')"
    and "\<exists>d. info_of_buffer E (be_r1 V) (be_r2 V) fresh (ri_buf i') = Inr d \<and> info_view d = info_view i'"
proof -
  obtain sig where sig: "ident_sign E (info_body E r now i) (ident_written E r (ri_identity i)) = Inr sig"
    "i' = info_written E r now sig i"
    using info_serialize_Inr_iff [OF ok(1,3)] ser by blast
  have len: "length (ri_buf i') = info_size i"
    using length_info_body [OF ok(1), of E r now] ident_sign_len [OF ok(3) sig(1)] sig(2)
    by (simp add: info_written_def)
  have "info_fresh (ri_identity i) ((info_members fresh)\<lparr>ri_transport := []\<rparr>)"
    using V(2) by (simp add: info_fresh_def)
  then obtain d where d: "info_of_buffer E (be_r1 V) (be_r2 V) fresh (ri_buf i') = Inr d" "info_view d = info_view i'"
    using info_roundtrip [OF ok ser] unfolding info_of_buffer_def by fastforce
  have aw: "address_size \<circ> address_written = address_size"
    by (rule ext) (simp add: address_size_def address_written_def mapping_size_def)
  have "info_size i' = info_size i"
    using ok(1) ident_written_ok [of "ri_identity i" E r]
    by (simp add: sig(2) info_size_def info_written_def info_ok_def ident_size_def crypto_pubkey_len_def
        signing_pubkey_len_def sig_len_def aw mapping_size_def ident_ok_def)
  then show "info_readable V (ri_buf i')"
    using d V len sz info_size_view [OF d(2)] by (simp add: info_readable_def)
  show "\<exists>d. info_of_buffer E (be_r1 V) (be_r2 V) fresh (ri_buf i') = Inr d \<and> info_view d = info_view i'"
    using d by blast
qed

end
