(* ===== verification/BlockList.thy ===== *)
theory BlockList
  imports Blocks
begin

text \<open>
  Sequences of blocks, \<open>src/data/blocks/blocks.h\<close>: the two variants of a block, the visitors, the
  reading and writing of one block and the rules on their order. The clock, the random draws
  and the keys of an operation on one block come from its \<^typ>\<open>block_env\<close>.
\<close>

section \<open>Variants and visitors\<close>

datatype confirm_variant = CInfo info_block | COptions options_block | CPadding padding_block

datatype data_variant =
    DDateTime date_time_block | DI2NP i2np_block | DInfo info_block
  | DOptions options_block | DPadding padding_block | DTermination term_block

definition head_of :: "'a block_scheme \<Rightarrow> block" where
  "head_of b = block.truncate b"

fun confirm_head :: "confirm_variant \<Rightarrow> block" where
  "confirm_head (CInfo b) = head_of b"
| "confirm_head (COptions b) = head_of b"
| "confirm_head (CPadding b) = head_of b"

fun data_head :: "data_variant \<Rightarrow> block" where
  "data_head (DDateTime b) = head_of b"
| "data_head (DI2NP b) = head_of b"
| "data_head (DInfo b) = head_of b"
| "data_head (DOptions b) = head_of b"
| "data_head (DPadding b) = head_of b"
| "data_head (DTermination b) = head_of b"

text \<open>\<open>GetType\<close>, \<open>GetSize\<close> and \<open>GetBuffer\<close>, which gives a reference: it is read and replaced.\<close>

definition confirm_type :: "confirm_variant \<Rightarrow> byte" where
  "confirm_type b = block_type (confirm_head b)"

definition data_type :: "data_variant \<Rightarrow> byte" where
  "data_type b = block_type (data_head b)"

definition confirm_size :: "confirm_variant \<Rightarrow> nat" where
  "confirm_size b = unat (block_size (confirm_head b))"

definition data_size :: "data_variant \<Rightarrow> nat" where
  "data_size b = unat (block_size (data_head b))"

definition confirm_buffer :: "confirm_variant \<Rightarrow> byte list" where
  "confirm_buffer b = block_buf (confirm_head b)"

definition data_buffer :: "data_variant \<Rightarrow> byte list" where
  "data_buffer b = block_buf (data_head b)"

fun set_confirm_buffer :: "byte list \<Rightarrow> confirm_variant \<Rightarrow> confirm_variant" where
  "set_confirm_buffer x (CInfo b) = CInfo (b\<lparr>block_buf := x\<rparr>)"
| "set_confirm_buffer x (COptions b) = COptions (b\<lparr>block_buf := x\<rparr>)"
| "set_confirm_buffer x (CPadding b) = CPadding (b\<lparr>block_buf := x\<rparr>)"

fun set_data_buffer :: "byte list \<Rightarrow> data_variant \<Rightarrow> data_variant" where
  "set_data_buffer x (DDateTime b) = DDateTime (b\<lparr>block_buf := x\<rparr>)"
| "set_data_buffer x (DI2NP b) = DI2NP (b\<lparr>block_buf := x\<rparr>)"
| "set_data_buffer x (DInfo b) = DInfo (b\<lparr>block_buf := x\<rparr>)"
| "set_data_buffer x (DOptions b) = DOptions (b\<lparr>block_buf := x\<rparr>)"
| "set_data_buffer x (DPadding b) = DPadding (b\<lparr>block_buf := x\<rparr>)"
| "set_data_buffer x (DTermination b) = DTermination (b\<lparr>block_buf := x\<rparr>)"

definition mapr :: "('a \<Rightarrow> 'b) \<Rightarrow> 'a result \<Rightarrow> 'b result" where
  "mapr f m = bindr m (\<lambda>x. Inr (f x))"

lemma mapr_simps [simp]: "mapr f (Inr x) = Inr (f x)" "mapr f (Inl e) = Inl e"
  by (simp_all add: mapr_def)

lemma mapr_Inr_iff: "mapr f m = Inr y \<longleftrightarrow> (\<exists>x. m = Inr x \<and> y = f x)"
  by (cases m) auto

fun confirm_serialize :: "block_env \<Rightarrow> confirm_variant \<Rightarrow> confirm_variant result" where
  "confirm_serialize V (CInfo b) = mapr CInfo (ib_serialize V b)"
| "confirm_serialize V (COptions b) = mapr COptions (opt_serialize b)"
| "confirm_serialize V (CPadding b) = mapr CPadding (pad_serialize (be_rng V) b)"

fun data_serialize :: "block_env \<Rightarrow> data_variant \<Rightarrow> data_variant result" where
  "data_serialize V (DDateTime b) = mapr DDateTime (dt_serialize (be_now V) b)"
| "data_serialize V (DI2NP b) = mapr DI2NP (i2np_serialize (be_now V) b)"
| "data_serialize V (DInfo b) = mapr DInfo (ib_serialize V b)"
| "data_serialize V (DOptions b) = mapr DOptions (opt_serialize b)"
| "data_serialize V (DPadding b) = mapr DPadding (pad_serialize (be_rng V) b)"
| "data_serialize V (DTermination b) = mapr DTermination (term_serialize b)"

fun confirm_deserialize :: "block_env \<Rightarrow> confirm_variant \<Rightarrow> confirm_variant result" where
  "confirm_deserialize V (CInfo b) = mapr CInfo (ib_deserialize V b)"
| "confirm_deserialize V (COptions b) = mapr COptions (opt_deserialize b)"
| "confirm_deserialize V (CPadding b) = mapr CPadding (pad_deserialize b)"

fun data_deserialize :: "block_env \<Rightarrow> data_variant \<Rightarrow> data_variant result" where
  "data_deserialize V (DDateTime b) = mapr DDateTime (dt_deserialize (be_now V) b)"
| "data_deserialize V (DI2NP b) = mapr DI2NP (i2np_deserialize (be_now V) b)"
| "data_deserialize V (DInfo b) = mapr DInfo (ib_deserialize V b)"
| "data_deserialize V (DOptions b) = mapr DOptions (opt_deserialize b)"
| "data_deserialize V (DPadding b) = mapr DPadding (pad_deserialize b)"
| "data_deserialize V (DTermination b) = mapr DTermination (term_deserialize b)"

section \<open>Reading and writing a block\<close>

text \<open>
  Assigning a default block of a type to a variant: assigned to the block the variant holds
  when that has the same type, copied into it otherwise.
\<close>

definition TypeToBlock_confirm :: "byte \<Rightarrow> exception \<Rightarrow> confirm_variant \<Rightarrow> confirm_variant result" where
  "TypeToBlock_confirm t ex b =
     (if t = Info
      then Inr (CInfo (case b of CInfo ib \<Rightarrow> ib_assign ib_default ib | _ \<Rightarrow> ib_copy ib_default))
      else if t = Options
      then bindr opt_default (\<lambda>o'. case b of COptions ob \<Rightarrow> Inr (COptions (opt_assign o' ob))
                                          | _ \<Rightarrow> mapr COptions (opt_copy o'))
      else if t = Padding then mapr CPadding pad_default
      else throw_ex ex Runtime_error ''invalid block type.'')"

definition TypeToBlock_data :: "block_env \<Rightarrow> byte \<Rightarrow> exception \<Rightarrow> data_variant \<Rightarrow> data_variant result" where
  "TypeToBlock_data V t ex b =
     (if t = DateTime then mapr DDateTime (dt_default (be_now V))
      else if t = I2NP then mapr DI2NP (i2np_default (be_now V) (be_msg_id V))
      else if t = Info
      then Inr (DInfo (case b of DInfo ib \<Rightarrow> ib_assign ib_default ib | _ \<Rightarrow> ib_copy ib_default))
      else if t = Options
      then bindr opt_default (\<lambda>o'. case b of DOptions ob \<Rightarrow> Inr (DOptions (opt_assign o' ob))
                                          | _ \<Rightarrow> mapr DOptions (opt_copy o'))
      else if t = Padding then mapr DPadding pad_default
      else if t = Termination then mapr DTermination term_default
      else throw_ex ex Runtime_error ''invalid block type.'')"

text \<open>
  The two templates over the variant: a block whose size field is zero is not deserialized.
\<close>

definition ReadToBlock ::
  "(byte \<Rightarrow> exception \<Rightarrow> 'b \<Rightarrow> 'b result) \<Rightarrow> (byte list \<Rightarrow> 'b \<Rightarrow> 'b) \<Rightarrow> ('b \<Rightarrow> 'b result)
     \<Rightarrow> bytes \<Rightarrow> 'b \<Rightarrow> exception \<Rightarrow> ('b \<times> bytes) result" where
  "ReadToBlock type_to_block set_buffer deserialize r b ex =
     bindr (read_be r :: (byte \<times> bytes) result) (\<lambda>(t, r).
     bindr (read_be r :: (u16 \<times> bytes) result) (\<lambda>(n, r).
     bindr (skip_back HeaderLen r) (\<lambda>r.
     bindr (type_to_block t ex b) (\<lambda>b.
     bindr (read_data (HeaderLen + unat n) r) (\<lambda>(buf, r).
     let b = set_buffer buf b in
     if n \<noteq> 0 then bindr (deserialize b) (\<lambda>b. Inr (b, r)) else Inr (b, r))))))"

definition WriteToBuffer ::
  "('b \<Rightarrow> byte list) \<Rightarrow> ('b \<Rightarrow> 'b result) \<Rightarrow> bytes \<Rightarrow> 'b \<Rightarrow> ('b \<times> bytes) result" where
  "WriteToBuffer get_buffer serialize w b =
     bindr (serialize b) (\<lambda>b. bindr (write_data (get_buffer b) w) (\<lambda>w. Inr (b, w)))"

section \<open>The order of the blocks\<close>

definition TotalSize :: "('b \<Rightarrow> nat) \<Rightarrow> 'b list \<Rightarrow> nat" where
  "TotalSize get_size bs = sum_list (map get_size bs)"

fun confirm_order :: "byte \<Rightarrow> byte list \<Rightarrow> exception \<Rightarrow> unit result" where
  "confirm_order pos [] ex = Inr ()"
| "confirm_order pos (t # ts) ex =
     (if pos = 0 \<and> t \<noteq> Info then throw_ex ex Logic_error ''RouterInfo must be the first block.''
      else if pos = 1 \<and> t \<noteq> Options \<and> t \<noteq> Padding
      then throw_ex ex Logic_error ''second block must be Options or Padding block.''
      else if pos = 2 \<and> t \<noteq> Padding then throw_ex ex Logic_error ''last block must be Padding block.''
      else if pos = 4 then throw_ex ex Logic_error ''max block count exceeded.''
      else confirm_order (if t = Info \<or> t = Options then pos + 1 else if t = Padding then 4 else pos) ts ex)"

definition CheckBlockOrder_confirm :: "confirm_variant list \<Rightarrow> exception \<Rightarrow> unit result" where
  "CheckBlockOrder_confirm bs ex = confirm_order 0 (map confirm_type bs) ex"

fun data_order :: "bool \<Rightarrow> bool \<Rightarrow> byte list \<Rightarrow> exception \<Rightarrow> unit result" where
  "data_order last_block term_block [] ex = Inr ()"
| "data_order last_block term_block (t # ts) ex =
     (if last_block then throw_ex ex Logic_error ''padding must be the last block.''
      else if term_block \<and> t \<noteq> Padding
      then throw_ex ex Logic_error ''only padding block can follow termination block.''
      else data_order (last_block \<or> t \<noteq> Termination \<and> t = Padding) (term_block \<or> t = Termination) ts ex)"

definition CheckBlockOrder_data :: "data_variant list \<Rightarrow> exception \<Rightarrow> unit result" where
  "CheckBlockOrder_data bs ex = data_order False False (map data_type bs) ex"

text \<open>
  Adding a block: it is copied and appended before the order is checked, and stays in the
  container when the check throws. The pair is the container afterwards and the outcome.
\<close>

fun copy_confirm :: "confirm_variant \<Rightarrow> confirm_variant result" where
  "copy_confirm (CInfo b) = Inr (CInfo (ib_copy b))"
| "copy_confirm (COptions b) = mapr COptions (opt_copy b)"
| "copy_confirm (CPadding b) = Inr (CPadding b)"

fun copy_data :: "data_variant \<Rightarrow> data_variant result" where
  "copy_data (DInfo b) = Inr (DInfo (ib_copy b))"
| "copy_data (DOptions b) = mapr DOptions (opt_copy b)"
| "copy_data b = Inr b"

definition AddBlock ::
  "('b \<Rightarrow> 'b result) \<Rightarrow> ('b list \<Rightarrow> exception \<Rightarrow> unit result) \<Rightarrow> 'b list \<Rightarrow> 'b \<Rightarrow> exception
     \<Rightarrow> 'b list \<times> unit result" where
  "AddBlock copy check bs b ex =
     (case copy b of Inl e \<Rightarrow> (bs, Inl e) | Inr b \<Rightarrow> (bs @ [b], check (bs @ [b]) ex))"

section \<open>What the order checks accept\<close>

lemma confirm_order_max: "confirm_order 4 ts ex = Inr u \<longleftrightarrow> ts = []"
  by (cases ts) simp_all

lemma confirm_order_third: "confirm_order 2 ts ex = Inr u \<longleftrightarrow> ts = [] \<or> ts = [Padding]"
  by (cases ts) (auto simp: confirm_order_max block_types)

lemma confirm_order_second:
  "confirm_order 1 ts ex = Inr u \<longleftrightarrow> ts \<in> {[], [Padding], [Options], [Options, Padding]}"
  by (cases ts) (auto simp: confirm_order_max confirm_order_third block_types)

lemma CheckBlockOrder_confirm_iff:
  "CheckBlockOrder_confirm bs ex = Inr () \<longleftrightarrow> map confirm_type bs \<in>
     {[], [Info], [Info, Padding], [Info, Options], [Info, Options, Padding]}"
  unfolding CheckBlockOrder_confirm_def
  by (cases bs) (auto simp: confirm_order_second [simplified] block_types)

lemma data_order_last: "data_order True m ts ex = Inr u \<longleftrightarrow> ts = []"
  by (cases ts) simp_all

lemma data_order_term: "data_order False True ts ex = Inr u \<longleftrightarrow> ts = [] \<or> ts = [Padding]"
  by (cases ts) (auto simp: data_order_last block_types)

fun data_order_seq :: "byte list \<Rightarrow> bool" where
  "data_order_seq [] \<longleftrightarrow> True"
| "data_order_seq (t # ts) \<longleftrightarrow>
     (if t = Padding then ts = [] else if t = Termination then ts = [] \<or> ts = [Padding] else data_order_seq ts)"

lemma data_order_iff: "data_order False False ts ex = Inr () \<longleftrightarrow> data_order_seq ts"
  by (induction ts) (auto simp: data_order_last data_order_term block_types)


definition data_tails :: "byte list set" where
  "data_tails = {[], [Padding], [Termination], [Termination, Padding]}"

lemma data_order_tail: "t = Padding \<or> t = Termination \<Longrightarrow> data_order_seq (t # ts) \<longleftrightarrow> t # ts \<in> data_tails"
  by (auto simp: data_tails_def block_types)

lemma data_order_seq_iff:
  "data_order_seq ts \<longleftrightarrow> (\<exists>xs ys. ts = xs @ ys \<and> Padding \<notin> set xs \<and> Termination \<notin> set xs
     \<and> ys \<in> data_tails)"
proof
  assume "data_order_seq ts"
  then show "\<exists>xs ys. ts = xs @ ys \<and> Padding \<notin> set xs \<and> Termination \<notin> set xs \<and> ys \<in> data_tails"
  proof (induction ts)
    case Nil
    then show ?case by (simp add: data_tails_def)
  next
    case (Cons t ts)
    show ?case
    proof (cases "t = Padding \<or> t = Termination")
      case True
      then show ?thesis using Cons.prems data_order_tail [OF True] by (intro exI [of _ "[]"] exI [of _ "t # ts"]) auto
    next
      case False
      then obtain xs ys where "ts = xs @ ys" "Padding \<notin> set xs" "Termination \<notin> set xs" "ys \<in> data_tails"
        using Cons by auto
      then show ?thesis using False by (intro exI [of _ "t # xs"] exI [of _ ys]) auto
    qed
  qed
next
  assume "\<exists>xs ys. ts = xs @ ys \<and> Padding \<notin> set xs \<and> Termination \<notin> set xs \<and> ys \<in> data_tails"
  then obtain xs ys where "ts = xs @ ys" "Padding \<notin> set xs" "Termination \<notin> set xs" "ys \<in> data_tails"
    by blast
  then show "data_order_seq ts"
    by (induction xs arbitrary: ts) (auto simp: data_tails_def block_types)
qed

lemma CheckBlockOrder_data_iff:
  "CheckBlockOrder_data bs ex = Inr () \<longleftrightarrow>
     (\<exists>xs ys. map data_type bs = xs @ ys \<and> Padding \<notin> set xs \<and> Termination \<notin> set xs
       \<and> ys \<in> data_tails)"
  by (simp add: CheckBlockOrder_data_def data_order_iff data_order_seq_iff)

lemma data_order_seq_appendD: "data_order_seq (ts @ us) \<Longrightarrow> data_order_seq ts"
  by (induction ts) (auto split: if_splits simp: append_eq_Cons_conv)

section \<open>Blocks in a buffer\<close>

text \<open>
  What the two templates rely on, whatever the variant: an abstract value of a block, its type
  and its payload; a serializer that fills the buffer with exactly the frame of the value; and a
  deserializer that, on the frame of a value that is good for the reader, gives a block of
  that value. Writing a block and reading it back is then proved once.
\<close>

locale framed_blocks =
  fixes kind :: "'v \<Rightarrow> byte"
    and payload :: "'v \<Rightarrow> byte list"
    and good :: "'v \<Rightarrow> bool"
    and view :: "'b \<Rightarrow> 'v"
    and type_to_block :: "byte \<Rightarrow> exception \<Rightarrow> 'b \<Rightarrow> 'b result"
    and get_buffer :: "'b \<Rightarrow> byte list"
    and set_buffer :: "byte list \<Rightarrow> 'b \<Rightarrow> 'b"
    and serialize :: "'b \<Rightarrow> 'b result"
    and deserialize :: "'b \<Rightarrow> 'b result"
    and sized :: "'b \<Rightarrow> bool"
    and holds :: "'v \<Rightarrow> 'b \<Rightarrow> bool"
  assumes payload_bound: "good v \<Longrightarrow> length (payload v) < 2 ^ 16"
    and type_to_block_good: "good v \<Longrightarrow> \<exists>b'. type_to_block (kind v) ex b = Inr b'"
    and serialize_frame: "serialize b = Inr b' \<Longrightarrow> sized b \<Longrightarrow>
      get_buffer b' = frame (kind (view b')) (payload (view b'))"
    and deserialize_frame: "good v \<Longrightarrow> payload v \<noteq> [] \<Longrightarrow> type_to_block (kind v) ex b = Inr b' \<Longrightarrow>
      \<exists>b''. deserialize (set_buffer (frame (kind v) (payload v)) b') = Inr b'' \<and> holds v b''"
    and empty_frame: "good v \<Longrightarrow> payload v = [] \<Longrightarrow> type_to_block (kind v) ex b = Inr b' \<Longrightarrow>
      holds v (set_buffer (frame (kind v) []) b')"
    and holds_view: "holds v b \<Longrightarrow> view b = v"
begin

abbreviation frame_of :: "'v \<Rightarrow> byte list" where
  "frame_of v \<equiv> frame (kind v) (payload v)"

lemma read_frame:
  assumes "good v"
  shows "\<exists>b'. ReadToBlock type_to_block set_buffer deserialize (reading pre (frame_of v @ rest)) b ex
     = Inr (b', reading (pre @ frame_of v) rest) \<and> holds v b'"
proof -
  let ?n = "word_of_nat (length (payload v)) :: u16" and ?f = "frame_of v"
  have u: "unat ?n = length (payload v)"
    using payload_bound [OF assms] by (intro unat_word_of_nat) simp
  have z: "?n = 0 \<longleftrightarrow> payload v = []"
    using u by (metis length_0_conv unat_eq_0)
  obtain b0 where b0: "type_to_block (kind v) ex b = Inr b0"
    using type_to_block_good [OF assms] by blast
  have f: "?f @ rest = kind v # be_of_word ?n @ payload v @ rest"
    by (simp add: frame_def)
  have h: "skip_back HeaderLen (reading ((pre @ [kind v]) @ be_of_word ?n) (payload v @ rest)) =
      Inr (reading pre (?f @ rest))"
    by (simp add: skip_back_reading HeaderLen_def frame_def)
  have d: "read_data (HeaderLen + unat ?n) (reading pre (?f @ rest)) = Inr (?f, reading (pre @ ?f) rest)"
    by (simp add: read_data_reading u HeaderLen_def)
  have r: "ReadToBlock type_to_block set_buffer deserialize (reading pre (?f @ rest)) b ex =
     (let b' = set_buffer ?f b0 in
      if ?n \<noteq> 0 then bindr (deserialize b') (\<lambda>b. Inr (b, reading (pre @ ?f) rest))
      else Inr (b', reading (pre @ ?f) rest))"
    unfolding ReadToBlock_def f field_get bindr_simps prod.case h b0 d [unfolded f] by (simp add: f d)
  show ?thesis
  proof (cases "payload v = []")
    case True
    then show ?thesis using r z empty_frame [OF assms True b0] by simp
  next
    case False
    then show ?thesis using r z deserialize_frame [OF assms False b0] by auto
  qed
qed

lemma write_frame:
  assumes "WriteToBuffer get_buffer serialize (written ys buf) b = Inr (b', w)" "sized b"
  shows "w = written (ys @ frame_of (view b')) buf \<and> serialize b = Inr b'"
proof -
  obtain w0 where s: "serialize b = Inr b'" "write_data (get_buffer b') (written ys buf) = Inr w"
    using assms(1) by (auto simp: WriteToBuffer_def result_simps)
  then show ?thesis
    using serialize_frame [OF s(1) assms(2)] by (simp add: write_data_written split: if_splits)
qed

lemma write_room:
  assumes "serialize b = Inr b'" "sized b" "length ys + length (frame_of (view b')) \<le> length buf"
  shows "WriteToBuffer get_buffer serialize (written ys buf) b = Inr (b', written (ys @ frame_of (view b')) buf)"
  using assms serialize_frame [OF assms(1,2)] by (simp add: WriteToBuffer_def write_data_fits)

text \<open>A block written and read back has the value it was written with.\<close>

lemma write_read:
  assumes "WriteToBuffer get_buffer serialize (written ys buf) b = Inr (b', w)" "sized b"
    and "good (view b')" "length ys + length (frame_of (view b')) \<le> length buf"
  shows "\<exists>b''. ReadToBlock type_to_block set_buffer deserialize
      (reading ys (drop (length ys) (sbuf w))) c ex
     = Inr (b'', reading (ys @ frame_of (view b')) (drop (spos w) buf)) \<and> view b'' = view b'"
proof -
  have w: "w = written (ys @ frame_of (view b')) buf" using write_frame [OF assms(1,2)] by simp
  then have "drop (length ys) (sbuf w) = frame_of (view b') @ drop (spos w) buf"
    by (simp add: written_sel)
  then show ?thesis using read_frame [OF assms(3), of ys] holds_view by metis
qed

end

section \<open>The values of the blocks\<close>

text \<open>
  The abstract value of a block: what its payload says, whoever wrote it. A router info is its
  bytes, a ratio of the options the byte it is sent as.
\<close>

datatype block_val =
    DateTimeV u32
  | I2NPV byte u32 u32 "byte list"
  | InfoV byte "byte list"
  | OptionsV byte byte byte byte u16 u16 u16 u16
  | PaddingV "byte list"
  | TerminationV u64 byte "byte list"

fun val_type :: "block_val \<Rightarrow> byte" where
  "val_type (DateTimeV _) = DateTime"
| "val_type (I2NPV _ _ _ _) = I2NP"
| "val_type (InfoV _ _) = Info"
| "val_type (OptionsV _ _ _ _ _ _ _ _) = Options"
| "val_type (PaddingV _) = Padding"
| "val_type (TerminationV _ _ _) = Termination"

fun val_payload :: "block_val \<Rightarrow> byte list" where
  "val_payload (DateTimeV ts) = be_of_word ts"
| "val_payload (I2NPV t mid e m) = t # be_of_word mid @ be_of_word e @ m"
| "val_payload (InfoV f bs) = f # bs"
| "val_payload (OptionsV a b c d x1 x2 x3 x4) =
     [a, b, c, d] @ be_of_word x1 @ be_of_word x2 @ be_of_word x3 @ be_of_word x4"
| "val_payload (PaddingV p) = p"
| "val_payload (TerminationV vf rsn ad) = be_of_word vf @ rsn # ad"

text \<open>What a reader accepts, at its time and with its keys.\<close>

fun val_ok :: "block_env \<Rightarrow> block_val \<Rightarrow> bool" where
  "val_ok V (DateTimeV ts) \<longleftrightarrow> check_lag_s (be_now V) ts"
| "val_ok V (I2NPV t mid e m) \<longleftrightarrow> t \<in> set msg_types \<and> be_now V < e \<and> 9 + length m \<le> MaxMsgLen
     \<and> be_now V < be_now V + DefaultI2NPExp"
| "val_ok V (InfoV f bs) \<longleftrightarrow> drop_bit 1 f = 0 \<and> info_readable V bs"
| "val_ok V (OptionsV _ _ _ _ _ _ _ _) \<longleftrightarrow> True"
| "val_ok V (PaddingV p) \<longleftrightarrow> length p \<le> MaxPaddingLen"
| "val_ok V (TerminationV vf rsn ad) \<longleftrightarrow> rsn \<le> Banned \<and> 9 + length ad \<le> MaxTermLen"

abbreviation val_frame :: "block_val \<Rightarrow> byte list" where
  "val_frame v \<equiv> frame (val_type v) (val_payload v)"

definition info_val :: "info_block \<Rightarrow> block_val" where
  "info_val b = InfoV (ib_flag b) (case ib_info b of None \<Rightarrow> [] | Some i \<Rightarrow> ri_buf i)"

definition options_val :: "options_block \<Rightarrow> block_val" where
  "options_val b = OptionsV (ratio_byte (opt_tmin b)) (ratio_byte (opt_tmax b)) (ratio_byte (opt_rmin b))
     (ratio_byte (opt_rmax b)) (opt_tdummy b) (opt_rdummy b) (opt_tdelay b) (opt_rdelay b)"

fun confirm_view :: "confirm_variant \<Rightarrow> block_val" where
  "confirm_view (CInfo b) = info_val b"
| "confirm_view (COptions b) = options_val b"
| "confirm_view (CPadding b) = PaddingV (pad_bytes b)"

fun data_view :: "data_variant \<Rightarrow> block_val" where
  "data_view (DDateTime b) = DateTimeV (timestamp b)"
| "data_view (DI2NP b) = I2NPV (msg_type b) (msg_id b) (msg_exp b) (msg_buf b)"
| "data_view (DInfo b) = info_val b"
| "data_view (DOptions b) = options_val b"
| "data_view (DPadding b) = PaddingV (pad_bytes b)"
| "data_view (DTermination b) = TerminationV (valid_frames b) (term_reason b) (term_ad b)"

text \<open>Blocks whose buffers and fields have the sizes their constructors give them.\<close>

definition info_sized :: "block_env \<Rightarrow> info_block \<Rightarrow> bool" where
  "info_sized V b \<longleftrightarrow> (case ib_info b of None \<Rightarrow> True
     | Some i \<Rightarrow> info_ok i \<and> sign_len_ok (env_sign (be_ident V)))"

fun confirm_sized :: "block_env \<Rightarrow> confirm_variant \<Rightarrow> bool" where
  "confirm_sized V (CInfo b) \<longleftrightarrow> info_sized V b"
| "confirm_sized V (COptions b) \<longleftrightarrow> length (block_buf b) = 15"
| "confirm_sized V (CPadding b) \<longleftrightarrow> length (pad_bytes b) \<le> 65535"

fun data_sized :: "block_env \<Rightarrow> data_variant \<Rightarrow> bool" where
  "data_sized V (DDateTime b) \<longleftrightarrow> length (block_buf b) = 7"
| "data_sized V (DI2NP b) \<longleftrightarrow> length (msg_buf b) \<le> MaxMsgLen"
| "data_sized V (DInfo b) \<longleftrightarrow> info_sized V b"
| "data_sized V (DOptions b) \<longleftrightarrow> length (block_buf b) = 15"
| "data_sized V (DPadding b) \<longleftrightarrow> length (pad_bytes b) \<le> 65535"
| "data_sized V (DTermination b) \<longleftrightarrow> length (term_ad b) \<le> 65526"

section \<open>The serializers fill the buffer with the frame of the value\<close>

lemma dt_ser_frame:
  assumes "dt_serialize now b = Inr b'" "length (block_buf b) = 7"
  shows "block_buf b' = frame DateTime (be_of_word (timestamp b')) \<and> block_size b' = 7"
proof -
  have ok: "dt_ok now b" using dt_serialize_Inr [OF assms(1)] .
  then show ?thesis using dt_serialize_eq [OF ok assms(2)] assms(1)
    by (auto simp: dt_payload_def block_size_def dt_ok_def HeaderLen_def)
qed

lemma i2np_ser_frame:
  assumes "i2np_serialize now b = Inr b'" "length (msg_buf b) \<le> MaxMsgLen"
  shows "block_buf b' = frame I2NP (i2np_payload b') \<and> unat (block_size b') = 12 + length (msg_buf b')"
proof -
  have u: "unat (word_of_nat (9 + length (msg_buf b)) :: u16) = 9 + length (msg_buf b)"
    using assms(2) by (intro u16_small) (simp add: MaxMsgLen_eq)
  have ok: "i2np_ok now b"
    using assms(1) u by (auto simp: i2np_serialize_def Let_def result_simps i2np_check_Inr i2np_ok_def MsgHeaderLen_def)
  then have "12 + length (msg_buf b) \<le> 65510" by (simp add: i2np_ok_def MaxMsgLen_eq)
  then have "unat (word_of_nat (12 + length (msg_buf b)) :: u16) = 12 + length (msg_buf b)"
    by (intro u16_small) simp
  then show ?thesis
    using i2np_serialize_eq [OF ok] assms(1) by (auto simp: i2np_payload_def block_size_def HeaderLen_def)
qed

lemma term_ser_frame:
  assumes "term_serialize b = Inr b'" "length (term_ad b) \<le> 65526"
  shows "block_buf b' = frame Termination (term_payload b') \<and> unat (block_size b') = 12 + length (term_ad b')"
proof -
  have u: "unat (word_of_nat (9 + length (term_ad b)) :: u16) = 9 + length (term_ad b)"
    using assms(2) by (intro u16_small) simp
  have ok: "term_ok b"
    using assms(1) u by (auto simp: term_serialize_def Let_def result_simps term_check_Inr term_ok_def TermHeaderLen_def)
  then have "12 + length (term_ad b) \<le> 65519" by (simp add: term_ok_def MaxTermLen_def MaxLen_def)
  then have "unat (word_of_nat (12 + length (term_ad b)) :: u16) = 12 + length (term_ad b)"
    by (intro u16_small) simp
  then show ?thesis
    using term_serialize_eq [OF ok] assms(1) by (auto simp: term_payload_def block_size_def HeaderLen_def)
qed

lemma pad_ser_frame:
  assumes "pad_serialize r b = Inr b'" "length (pad_bytes b) \<le> 65535"
  shows "block_buf b' = frame Padding (pad_bytes b') \<and> unat (block_size b') = 3 + length (pad_bytes b')"
proof -
  have u: "unat (word_of_nat (length (pad_bytes b)) :: u16) = length (pad_bytes b)"
    using assms(2) by (rule u16_small)
  have ok: "pad_ok b"
    using assms(1) u by (auto simp: pad_serialize_def Let_def result_simps pad_check_params_def pad_ok_def split: if_splits)
  then have "3 + length (pad_bytes b) \<le> 65076" by (simp add: pad_ok_def MaxPaddingLen_eq)
  then have "unat (word_of_nat (3 + length (pad_bytes b)) :: u16) = 3 + length (pad_bytes b)"
    by (intro u16_small) simp
  then show ?thesis
    using pad_serialize_eq [OF ok] assms(1) by (auto simp: Let_def block_size_def HeaderLen_def)
qed

lemma opt_ser_frame:
  assumes "opt_serialize b = Inr b'" "length (block_buf b) = 15"
  shows "block_buf b' = frame Options (opt_payload b') \<and> block_size b' = 15 \<and> opt_ok b'"
proof -
  have c: "opt_check_params (Ex ''OptionsBlock'' ''serialize'') b = Inr ()"
    using assms(1) by (auto simp: opt_serialize_def result_simps)
  have "ratio_to_byte NaN = Inr x \<Longrightarrow> False" for x by simp
  then have "opt_ok b"
    using assms(1) c by (auto simp: opt_serialize_def result_simps opt_check_Inr opt_ok_def opt_ratios_def write_ratio_def)
  then show ?thesis
    using opt_serialize_eq [OF _ assms(2)] assms(1)
    by (auto simp: block_size_def HeaderLen_def opt_ok_def opt_ratios_def opt_payload_def)
qed

lemma ib_ser_frame:
  assumes "ib_serialize V b = Inr b'" "info_sized V b"
  shows "\<exists>i'. ib_info b' = Some i' \<and> block_type b' = Info \<and> block_buf b' = frame Info (ib_flag b' # ri_buf i')
    \<and> unat (block_size b') = 4 + length (ri_buf i')"
proof -
  obtain i i' where i: "ib_info b = Some i" "block_type b = Info" "drop_bit 1 (ib_flag b) = 0"
    "MinPayloadLen \<le> unat (block_data_size b)" "unat (block_data_size b) = 1 + info_size i" "info_size i \<le> MaxLen"
    "info_serialize (be_ident V) (be_rng V) (be_now_ms V) i = Inr i'"
    using ib_serialize_Inr [OF assms(1)] by blast
  have ok: "info_ok i" "sign_len_ok (env_sign (be_ident V))"
    using assms(2) i(1) by (simp_all add: info_sized_def)
  obtain sig where sig: "ident_sign (be_ident V) (info_body (be_ident V) (be_rng V) (be_now_ms V) i)
      (ident_written (be_ident V) (be_rng V) (ri_identity i)) = Inr sig"
    "i' = info_written (be_ident V) (be_rng V) (be_now_ms V) sig i"
    using info_serialize_Inr_iff [OF ok] i(7) by blast
  have len: "length (ri_buf i') = info_size i"
    using length_info_body [OF ok(1)] ident_sign_len [OF ok(2) sig(1)] sig(2) by (simp add: info_written_def)
  have ds: "block_data_size b = word_of_nat (1 + info_size i)"
    using arg_cong [OF i(5), of "word_of_nat :: nat \<Rightarrow> u16"] by simp
  have m: "MinInfoLen \<le> info_size i" using i(4,5) by (simp add: MinPayloadLen_def FloodFlagLen_def)
  have b': "b' = b\<lparr>ib_info := Some i', block_buf := frame Info (ib_flag b # ri_buf i')\<rparr>"
    using ib_serialize_eq [OF i(2,3,1) m i(6) ds i(7) len] assms(1) by simp
  have "4 + info_size i \<le> 65520" using i(6) by (simp add: MaxLen_def)
  then have "unat (word_of_nat (4 + info_size i) :: u16) = 4 + info_size i" by (intro u16_small) simp
  then show ?thesis using b' i(2) ds len by (simp add: block_size_def HeaderLen_def)
qed

section \<open>The default blocks\<close>

lemma dt_default_eq: "\<exists>b. dt_default now = Inr b"
proof -
  let ?b = "dt_members (block_of_size DateTime TimestampLen) now"
  have "dt_ok now ?b" "length (block_buf ?b) = 7"
    by (simp_all add: dt_ok_def dt_members_def block.defs block_of_size_def TimestampLen_def HeaderLen_def)
  then show ?thesis using dt_serialize_eq unfolding dt_default_def by blast
qed

lemma i2np_default_eq:
  assumes "now < now + DefaultI2NPExp"
  shows "\<exists>b. i2np_default now mid = Inr b \<and> msg_buf b = []"
proof -
  let ?b = "i2np_members (block_of_size I2NP (word_of_nat MinMsgLen)) Msg_Data mid (now + DefaultI2NPExp)"
  have ok: "i2np_ok now ?b"
    using assms by (simp add: i2np_ok_def i2np_members_def block.defs block_of_size_def MaxMsgLen_eq msg_types_def Msg_Data_def)
  then have "i2np_default now mid = Inr (?b\<lparr>block_data_size := word_of_nat (9 + length (msg_buf ?b)),
      block_buf := frame I2NP (i2np_payload ?b)\<rparr>)"
    unfolding i2np_default_def by (rule i2np_serialize_eq)
  then show ?thesis by (simp add: i2np_members_def block.defs)
qed

lemma pad_default_eq: "\<exists>b. pad_default = Inr b \<and> pad_bytes b = [] \<and> block_type b = Padding"
  using pad_serialize_eq [of "pad_members (block_of_type Padding) []" "\<lambda>_. 0"]
  by (simp add: pad_default_def pad_ok_def pad_members_def block.defs block_of_type_def)

lemma term_default_eq: "\<exists>b. term_default = Inr b \<and> term_ad b = []"
  using term_serialize_eq [of "term_members (block_of_size Termination (word_of_nat MinTermLen))"]
  by (simp add: term_default_def term_ok_def term_members_def block.defs block_of_size_def MaxTermLen_def MaxLen_def
      NormalClose_def Banned_def)

lemma opt_default_eq: "\<exists>b. opt_default = Inr b \<and> opt_ok b \<and> length (block_buf b) = 15"
proof -
  let ?b = "opt_members (block_of_size Options OptionsLen)"
  have ok: "opt_ok ?b" "length (block_buf ?b) = 15"
    by (simp_all add: opt_ok_def opt_members_def block.defs block_of_size_def OptionsLen_def HeaderLen_def
        opt_ratios_def ratio_ok_def)
  have "opt_ok (?b\<lparr>block_buf := frame Options (opt_payload ?b)\<rparr>)"
    using ok(1) by (simp add: opt_ok_def opt_ratios_def)
  then show ?thesis using opt_serialize_eq [OF ok] by (simp add: opt_default_def opt_payload_def)
qed

lemma opt_copy_eq:
  assumes "opt_ok b"
  shows "opt_copy b = Inr (b\<lparr>block_buf := frame Options (opt_payload b)\<rparr>)"
proof -
  let ?b = "b\<lparr>block_type := Options, block_buf := sec_of_size (HeaderLen + unat (block_data_size b))\<rparr>"
  have ok: "opt_ok ?b" "length (block_buf ?b) = 15"
    using assms by (simp_all add: opt_ok_def opt_ratios_def HeaderLen_def)
  show ?thesis using opt_serialize_eq [OF ok] assms by (simp add: opt_copy_def opt_payload_def opt_ok_def)
qed

section \<open>The two variants\<close>

lemma view_payloads:
  "val_frame (options_val b) = frame Options (opt_payload b)"
  "val_type (options_val b) = Options" "val_type (info_val i) = Info"
  by (simp_all add: options_val_def opt_payload_def info_val_def)

lemma val_payload_bound: "val_ok V v \<Longrightarrow> length (val_payload v) < 2 ^ 16"
  by (cases v) (simp_all add: MaxMsgLen_eq MaxTermLen_def MaxLen_def MaxPaddingLen_eq info_readable_def)

lemma val_payload_Nil: "val_payload v = [] \<Longrightarrow> v = PaddingV []"
  by (cases v) (auto dest: arg_cong [of _ _ length])

lemma options_val_deserialized:
  assumes "block_buf b = val_frame (OptionsV x1 x2 x3 x4 td rd tdl rdl)"
  shows "\<exists>b'. opt_deserialize b = Inr b' \<and> options_val b' = OptionsV x1 x2 x3 x4 td rd tdl rdl \<and> opt_ok b'"
  using assms by (simp add: opt_deserialize_frame [of b x1 x2 x3 x4 td rd tdl rdl] options_val_def ratio_byte_of_byte
      opt_ok_def opt_ratios_def byte_to_ratio_ok)

lemma info_val_deserialized:
  assumes "block_buf b = frame Info (f # bs)" "drop_bit 1 f = 0" "info_readable V bs"
  shows "\<exists>b'. ib_deserialize V b = Inr b' \<and> info_val b' = InfoV f bs \<and> block_type b' = Info"
proof -
  obtain fresh i where i: "be_fresh V = Inr fresh" "info_of_buffer (be_ident V) (be_r1 V) (be_r2 V) fresh bs = Inr i"
    "info_size i = length bs" "MinInfoLen \<le> length bs" "length bs \<le> MaxLen"
    using assms(3) by (auto simp: info_readable_def split: sum.splits)
  have "ri_buf i = bs" using info_of_buffer_buf [OF i(2)] .
  then show ?thesis
    using ib_deserialize_frame [OF assms(1,2) i(1,2,4,5,3)] by (simp add: info_val_def)
qed

lemma info_serialized_frame:
  assumes "ib_serialize V b = Inr b'" "info_sized V b"
  shows "block_buf b' = val_frame (info_val b')"
  using ib_ser_frame [OF assms] by (auto simp: info_val_def)

lemma head_of_buf [simp]: "block_buf (head_of b) = block_buf b" "block_type (head_of b) = block_type b"
    "block_size (head_of b) = block_size b"
  by (simp_all add: head_of_def block.defs block_size_def)

lemma data_serialize_frame:
  assumes "data_serialize V b = Inr b'" "data_sized V b"
  shows "data_buffer b' = val_frame (data_view b')"
proof (cases b)
  case (DDateTime x)
  then show ?thesis using assms dt_ser_frame by (fastforce simp: mapr_Inr_iff data_buffer_def)
next
  case (DI2NP x)
  then show ?thesis using assms i2np_ser_frame by (fastforce simp: mapr_Inr_iff data_buffer_def i2np_payload_def)
next
  case (DInfo x)
  then obtain y where y: "ib_serialize V x = Inr y" "b' = DInfo y" using assms(1) by (auto simp: mapr_Inr_iff)
  then show ?thesis using info_serialized_frame [OF y(1)] assms(2) DInfo by (simp add: data_buffer_def)
next
  case (DOptions x)
  then obtain y where y: "opt_serialize x = Inr y" "b' = DOptions y" using assms(1) by (auto simp: mapr_Inr_iff)
  then show ?thesis using opt_ser_frame [OF y(1)] assms(2) DOptions view_payloads(1,2) [of y] by (simp add: data_buffer_def)
next
  case (DPadding x)
  then show ?thesis using assms pad_ser_frame by (fastforce simp: mapr_Inr_iff data_buffer_def)
next
  case (DTermination x)
  then show ?thesis using assms term_ser_frame by (fastforce simp: mapr_Inr_iff data_buffer_def term_payload_def)
qed

lemma data_type_to_block:
  assumes "val_ok W v"
  shows "\<exists>b'. TypeToBlock_data W (val_type v) ex b = Inr b'"
proof (cases v)
  case (I2NPV t mid e m)
  then obtain d where "i2np_default (be_now W) (be_msg_id W) = Inr d"
    using i2np_default_eq assms by fastforce
  then show ?thesis using I2NPV by (simp add: TypeToBlock_data_def block_types)
next
  case (OptionsV x1 x2 x3 x4 td rd tdl rdl)
  obtain d where "opt_default = Inr d" "opt_ok d" using opt_default_eq by blast
  then show ?thesis using opt_copy_eq [of d] unfolding OptionsV TypeToBlock_data_def \<open>opt_default = Inr d\<close>
    by (cases b) (simp_all add: block_types)
qed (use dt_default_eq pad_default_eq term_default_eq in
    \<open>fastforce simp: TypeToBlock_data_def block_types mapr_Inr_iff\<close>)+

text \<open>A block read: its value, its type, and that copying it keeps both.\<close>

definition data_holds :: "block_val \<Rightarrow> data_variant \<Rightarrow> bool" where
  "data_holds v b \<longleftrightarrow> data_view b = v \<and> data_type b = val_type v \<and>
     (case copy_data b of Inl _ \<Rightarrow> False | Inr c \<Rightarrow> data_view c = v \<and> data_type c = val_type v)"

lemma info_val_copy: "info_val (ib_copy b) = info_val b" "block_type (ib_copy b) = Info"
  by (simp_all add: ib_copy_def ib_members_def block.defs block_of_size_def info_val_def)

lemma options_val_copy:
  "opt_ok b \<Longrightarrow> \<exists>c. opt_copy b = Inr c \<and> options_val c = options_val b \<and> block_type c = Options"
  using opt_copy_eq [of b] by (simp add: options_val_def opt_ok_def)

lemma data_deserialize_val:
  assumes v: "val_ok W v" "val_payload v \<noteq> []" and b: "TypeToBlock_data W (val_type v) ex b = Inr b'"
  shows "\<exists>b''. data_deserialize W (set_data_buffer (val_frame v) b') = Inr b'' \<and> data_holds v b''"
proof (cases v)
  case (DateTimeV ts)
  then obtain x where "b' = DDateTime x" using b by (auto simp: TypeToBlock_data_def block_types mapr_Inr_iff)
  then show ?thesis using v DateTimeV dt_deserialize_frame [of "x\<lparr>block_buf := val_frame v\<rparr>" ts "be_now W"]
    by (simp add: data_holds_def data_type_def)
next
  case (I2NPV t mid e m)
  then obtain x where "b' = DI2NP x" "msg_buf x = []"
    using b v i2np_default_eq [of "be_now W" "be_msg_id W"] by (auto simp: TypeToBlock_data_def block_types mapr_Inr_iff)
  then show ?thesis using v I2NPV i2np_deserialize_frame [of "x\<lparr>block_buf := val_frame v\<rparr>" t mid e m "be_now W"]
    by (simp add: data_holds_def data_type_def)
next
  case (InfoV f bs)
  then obtain x where "b' = DInfo x" using b by (auto simp: TypeToBlock_data_def block_types)
  then show ?thesis
    using v InfoV info_val_deserialized [of "x\<lparr>block_buf := val_frame v\<rparr>" f bs W]
    by (auto simp: data_holds_def data_type_def info_val_copy)
next
  case (OptionsV x1 x2 x3 x4 td rd tdl rdl)
  obtain d where "opt_default = Inr d" "opt_ok d" using opt_default_eq by blast
  then obtain x where "b' = DOptions x"
    using b opt_copy_eq [of d] unfolding OptionsV TypeToBlock_data_def \<open>opt_default = Inr d\<close>
    by (cases b) (auto simp: block_types)
  moreover obtain y where y: "opt_deserialize (x\<lparr>block_buf := val_frame v\<rparr>) = Inr y" "options_val y = v" "opt_ok y"
    using options_val_deserialized [of "x\<lparr>block_buf := val_frame v\<rparr>" x1 x2 x3 x4 td rd tdl rdl] OptionsV by auto
  moreover obtain c where "opt_copy y = Inr c" "options_val c = options_val y" "block_type c = Options"
    using options_val_copy [OF y(3)] by blast
  ultimately show ?thesis using OptionsV by (simp add: data_holds_def data_type_def opt_ok_def)
next
  case (PaddingV p)
  then obtain x where "b' = DPadding x" using b by (auto simp: TypeToBlock_data_def block_types mapr_Inr_iff)
  then show ?thesis using v PaddingV pad_deserialize_frame [of "x\<lparr>block_buf := val_frame v\<rparr>" p]
    by (simp add: data_holds_def data_type_def)
next
  case (TerminationV vf rsn ad)
  obtain d where "term_default = Inr d" "term_ad d = []" using term_default_eq by blast
  then obtain x where "b' = DTermination x" "term_ad x = []"
    using b unfolding TerminationV TypeToBlock_data_def \<open>term_default = Inr d\<close> by (auto simp: block_types)
  then show ?thesis using v TerminationV term_deserialize_frame [of "x\<lparr>block_buf := val_frame v\<rparr>" vf rsn ad]
    by (simp add: data_holds_def data_type_def)
qed

interpretation data_blocks: framed_blocks val_type val_payload "val_ok W" data_view "TypeToBlock_data W"
  data_buffer set_data_buffer "data_serialize V" "data_deserialize W" "data_sized V" data_holds for V W
proof (unfold_locales, goal_cases)
  case (5 v ex b b')
  obtain d where "pad_default = Inr d" "pad_bytes d = []" "block_type d = Padding" using pad_default_eq by blast
  then show ?case using 5 val_payload_Nil [of v] unfolding TypeToBlock_data_def \<open>pad_default = Inr d\<close>
    by (auto simp: block_types data_holds_def data_type_def)
next
  case (6 v b)
  then show ?case by (simp add: data_holds_def)
qed (rule val_payload_bound data_type_to_block data_serialize_frame data_deserialize_val; assumption)+

definition confirm_ok :: "block_env \<Rightarrow> block_val \<Rightarrow> bool" where
  "confirm_ok V v \<longleftrightarrow> val_ok V v \<and> val_type v \<in> {Info, Options, Padding}"

lemma confirm_ok_cases:
  assumes "confirm_ok V v"
  obtains (Info) f bs where "v = InfoV f bs" | (Options) x1 x2 x3 x4 td rd tdl rdl where "v = OptionsV x1 x2 x3 x4 td rd tdl rdl"
    | (Padding) p where "v = PaddingV p"
  using assms by (cases v) (auto simp: confirm_ok_def block_types)

lemma confirm_serialize_frame:
  assumes "confirm_serialize V b = Inr b'" "confirm_sized V b"
  shows "confirm_buffer b' = val_frame (confirm_view b')"
proof (cases b)
  case (CInfo x)
  then obtain y where y: "ib_serialize V x = Inr y" "b' = CInfo y" using assms(1) by (auto simp: mapr_Inr_iff)
  then show ?thesis using info_serialized_frame [OF y(1)] assms(2) CInfo by (simp add: confirm_buffer_def)
next
  case (COptions x)
  then obtain y where y: "opt_serialize x = Inr y" "b' = COptions y" using assms(1) by (auto simp: mapr_Inr_iff)
  then show ?thesis using opt_ser_frame [OF y(1)] assms(2) COptions view_payloads(1,2) [of y] by (simp add: confirm_buffer_def)
next
  case (CPadding x)
  then show ?thesis using assms pad_ser_frame by (fastforce simp: mapr_Inr_iff confirm_buffer_def)
qed

lemma confirm_type_to_block:
  assumes "confirm_ok W v"
  shows "\<exists>b'. TypeToBlock_confirm (val_type v) ex b = Inr b'"
  using assms
proof (cases rule: confirm_ok_cases)
  case (Options x1 x2 x3 x4 td rd tdl rdl)
  obtain d where "opt_default = Inr d" "opt_ok d" using opt_default_eq by blast
  then show ?thesis using opt_copy_eq [of d] unfolding Options TypeToBlock_confirm_def \<open>opt_default = Inr d\<close>
    by (cases b) (simp_all add: block_types)
qed (use pad_default_eq in \<open>fastforce simp: TypeToBlock_confirm_def block_types mapr_Inr_iff\<close>)+

lemma confirm_deserialize_val:
  assumes v: "confirm_ok W v" "val_payload v \<noteq> []" and b: "TypeToBlock_confirm (val_type v) ex b = Inr b'"
  shows "\<exists>b''. confirm_deserialize W (set_confirm_buffer (val_frame v) b') = Inr b'' \<and> confirm_view b'' = v"
  using v(1)
proof (cases rule: confirm_ok_cases)
  case (Info f bs)
  then obtain x where "b' = CInfo x" using b by (auto simp: TypeToBlock_confirm_def block_types)
  then show ?thesis
    using v Info info_val_deserialized [of "x\<lparr>block_buf := val_frame v\<rparr>" f bs W] by (auto simp: confirm_ok_def)
next
  case (Options x1 x2 x3 x4 td rd tdl rdl)
  obtain d where "opt_default = Inr d" "opt_ok d" using opt_default_eq by blast
  then obtain x where "b' = COptions x"
    using b opt_copy_eq [of d] unfolding Options TypeToBlock_confirm_def \<open>opt_default = Inr d\<close>
    by (cases b) (auto simp: block_types)
  then show ?thesis
    using Options options_val_deserialized [of "x\<lparr>block_buf := val_frame v\<rparr>" x1 x2 x3 x4 td rd tdl rdl] by auto
next
  case (Padding p)
  then obtain x where "b' = CPadding x" using b by (auto simp: TypeToBlock_confirm_def block_types mapr_Inr_iff)
  then show ?thesis
    using v Padding pad_deserialize_frame [of "x\<lparr>block_buf := val_frame v\<rparr>" p] by (simp add: confirm_ok_def)
qed

interpretation confirm_blocks: framed_blocks val_type val_payload "confirm_ok W" confirm_view TypeToBlock_confirm
  confirm_buffer set_confirm_buffer "confirm_serialize V" "confirm_deserialize W" "confirm_sized V" "\<lambda>v b. confirm_view b = v" for V W
proof (unfold_locales, goal_cases)
  case (1 v)
  then show ?case using val_payload_bound by (auto simp: confirm_ok_def)
next
  case (5 v ex b b')
  obtain d where "pad_default = Inr d" "pad_bytes d = []" using pad_default_eq by blast
  then show ?case using 5 val_payload_Nil [of v] unfolding TypeToBlock_confirm_def \<open>pad_default = Inr d\<close>
    by (auto simp: block_types)
qed (rule confirm_type_to_block confirm_serialize_frame confirm_deserialize_val; assumption)+

section \<open>Sizes and copies\<close>

lemma data_serialize_size:
  assumes "data_serialize V b = Inr b'" "data_sized V b"
  shows "data_size b' = length (data_buffer b')"
proof (cases b)
  case (DInfo x)
  then obtain y where y: "ib_serialize V x = Inr y" "b' = DInfo y" using assms(1) by (auto simp: mapr_Inr_iff)
  then show ?thesis using ib_ser_frame [OF y(1)] assms(2) DInfo by (auto simp: data_buffer_def data_size_def)
next
  case (DDateTime x)
  then show ?thesis using assms dt_ser_frame by (fastforce simp: mapr_Inr_iff data_buffer_def data_size_def)
next
  case (DI2NP x)
  then show ?thesis using assms i2np_ser_frame by (fastforce simp: mapr_Inr_iff data_buffer_def data_size_def i2np_payload_def)
next
  case (DOptions x)
  then show ?thesis using assms opt_ser_frame by (fastforce simp: mapr_Inr_iff data_buffer_def data_size_def opt_payload_def)
next
  case (DPadding x)
  then show ?thesis using assms pad_ser_frame by (fastforce simp: mapr_Inr_iff data_buffer_def data_size_def)
next
  case (DTermination x)
  then show ?thesis using assms term_ser_frame by (fastforce simp: mapr_Inr_iff data_buffer_def data_size_def term_payload_def)
qed

text \<open>Copying an info block empties its buffer, copying an options block writes it again.\<close>

lemma copy_data_view: "copy_data b = Inr b' \<Longrightarrow> data_view b' = data_view b"
  by (cases b) (auto simp: mapr_Inr_iff ib_copy_def ib_members_def block.defs block_of_size_def info_val_def
      opt_copy_def opt_serialize_def result_simps options_val_def)

lemma AddBlock_keeps:
  "AddBlock copy check bs b ex = (bs', o') \<Longrightarrow> (\<exists>b'. copy b = Inr b' \<and> bs' = bs @ [b']) \<or> bs' = bs \<and> (\<exists>e. o' = Inl e)"
  by (auto simp: AddBlock_def split: sum.splits)

end
