(* ===== verification/Noise.thy ===== *)
theory Noise
  imports Ecies
begin

text \<open>
  The wrappers of \<open>src/ntcp2/noise.h\<close> around the Noise-C library, the roles of
  \<open>src/ntcp2/role.h\<close> and the protocol constants of \<open>src/ntcp2/meta.h\<close>. The library itself is an
  argument: the operations on its handshake state and its cipher states, each giving an error
  number or a result. A DH object that may be a null pointer is an option. The handshake state
  is shared by pointer in the source: here an operation returns it updated.
\<close>

record ('s, 'c) noise_lib =
  NOISE_ROLE_INITIATOR :: int
  NOISE_ROLE_RESPONDER :: int
  hs_new_by_name :: "string \<Rightarrow> int \<Rightarrow> int + 's"
  hs_start :: "'s \<Rightarrow> int + 's"
  hs_write_message :: "'s \<Rightarrow> byte list \<Rightarrow> nat \<Rightarrow> int + (byte list \<times> 's)"
  hs_read_message :: "'s \<Rightarrow> byte list \<Rightarrow> nat \<Rightarrow> int + (byte list \<times> 's)"
  hs_local_public :: "'s \<Rightarrow> (int + byte list) option"
  hs_remote_public :: "'s \<Rightarrow> (int + byte list) option"
  hs_generate_keypair :: "'s \<Rightarrow> (int + 's) option"
  hs_set_keypair :: "'s \<Rightarrow> byte list \<Rightarrow> byte list \<Rightarrow> (int + 's) option"
  hs_set_remote :: "'s \<Rightarrow> byte list \<Rightarrow> (int + 's) option"
  hs_get_hash :: "'s \<Rightarrow> nat \<Rightarrow> int + byte list"
  hs_mix_hash :: "'s \<Rightarrow> byte list \<Rightarrow> int + 's"
  hs_split_save :: "'s \<Rightarrow> nat \<Rightarrow> int + ('c \<times> 'c \<times> byte list \<times> 's)"
  cs_encrypt :: "'c \<Rightarrow> byte list \<Rightarrow> int + (byte list \<times> 'c)"
  cs_decrypt :: "'c \<Rightarrow> byte list \<Rightarrow> int + (byte list \<times> 'c)"
  noise_strerror :: "int \<Rightarrow> string"

datatype role = Initiator | Responder

definition role_id :: "('s, 'c) noise_lib \<Rightarrow> role \<Rightarrow> int" where
  "role_id L r = (case r of Initiator \<Rightarrow> NOISE_ROLE_INITIATOR L | Responder \<Rightarrow> NOISE_ROLE_RESPONDER L)"

definition ntcp2_name :: string where
  "ntcp2_name = ''Noise_XKaesobfse+hs2+hs3_25519_ChaChaPoly_SHA256''"

definition ntcp2_version :: byte where "ntcp2_version = 2"

text \<open>An error number becomes an exception with the library's text for it.\<close>

definition noise_result ::
  "('s, 'c) noise_lib \<Rightarrow> exception \<Rightarrow> string \<Rightarrow> int + 'a \<Rightarrow> 'a result" where
  "noise_result L ex msg r =
     (case r of Inl err \<Rightarrow> throw_ex_err (noise_strerror L) ex Runtime_error msg err | Inr x \<Rightarrow> Inr x)"

definition noise_dh ::
  "('s, 'c) noise_lib \<Rightarrow> exception \<Rightarrow> string \<Rightarrow> string \<Rightarrow> (int + 'a) option \<Rightarrow> 'a result" where
  "noise_dh L ex null msg r =
     (case r of None \<Rightarrow> throw_ex ex Runtime_error null | Some r \<Rightarrow> noise_result L ex msg r)"

lemma noise_result_Inr [simp]: "noise_result L ex msg (Inr x) = Inr x"
  by (simp add: noise_result_def)

lemma noise_result_Inr_iff: "noise_result L ex msg r = Inr x \<longleftrightarrow> r = Inr x"
  by (auto simp: noise_result_def throw_ex_err_def Let_def split: sum.splits)

lemma noise_result_safe: "\<not> is_ub (noise_result L ex msg r)"
  by (auto simp: noise_result_def throw_ex_err_def Let_def split: sum.splits)

section \<open>The wrappers\<close>

definition init_handshake :: "('s, 'c) noise_lib \<Rightarrow> role \<Rightarrow> exception \<Rightarrow> 's result" where
  "init_handshake L r ex =
     noise_result L ex ''error initializing handshake state'' (hs_new_by_name L ntcp2_name (role_id L r))"

text \<open>
  A message is written into an output buffer of a given size and read from an input buffer;
  the bytes of the buffer behind the message keep their values.
\<close>

definition noise_write_message ::
  "('s, 'c) noise_lib \<Rightarrow> 's \<Rightarrow> byte list \<Rightarrow> byte list \<Rightarrow> exception \<Rightarrow> (byte list \<times> 's) result" where
  "noise_write_message L s payload out ex =
     bindr (noise_result L ex ''unable to write message'' (hs_write_message L s payload (length out)))
       (\<lambda>(msg, s). Inr (overwrite 0 msg out, s))"

definition noise_read_message ::
  "('s, 'c) noise_lib \<Rightarrow> 's \<Rightarrow> byte list \<Rightarrow> byte list \<Rightarrow> exception \<Rightarrow> (byte list \<times> 's) result" where
  "noise_read_message L s data out ex =
     bindr (noise_result L ex ''unable to read message'' (hs_read_message L s data (length out)))
       (\<lambda>(payload, s). Inr (overwrite 0 payload out, s))"

definition get_local_public_key :: "('s, 'c) noise_lib \<Rightarrow> 's \<Rightarrow> exception \<Rightarrow> byte list result" where
  "get_local_public_key L s ex =
     noise_dh L ex ''unable to get local keypair.'' ''unable to get public key'' (hs_local_public L s)"

definition get_remote_public_key :: "('s, 'c) noise_lib \<Rightarrow> 's \<Rightarrow> exception \<Rightarrow> byte list result" where
  "get_remote_public_key L s ex =
     noise_dh L ex ''unable to get remote public key.'' ''unable to get public key'' (hs_remote_public L s)"

definition generate_keypair :: "('s, 'c) noise_lib \<Rightarrow> 's \<Rightarrow> exception \<Rightarrow> 's result" where
  "generate_keypair L s ex =
     noise_dh L ex ''unable to get local keypair.'' ''unable to generate local keypair''
       (hs_generate_keypair L s)"

definition set_local_keypair :: "('s, 'c) noise_lib \<Rightarrow> 's \<Rightarrow> keypair \<Rightarrow> exception \<Rightarrow> 's result" where
  "set_local_keypair L s k ex =
     noise_dh L ex ''unable to get local keypair.'' ''unable to set keypair''
       (hs_set_keypair L s (pvtkey k) (pubkey k))"

definition get_handshake_hash :: "('s, 'c) noise_lib \<Rightarrow> 's \<Rightarrow> exception \<Rightarrow> byte list result" where
  "get_handshake_hash L s ex =
     noise_result L ex ''unable to get handshake hash'' (hs_get_hash L s 32)"

definition set_remote_public_key :: "('s, 'c) noise_lib \<Rightarrow> 's \<Rightarrow> byte list \<Rightarrow> exception \<Rightarrow> 's result" where
  "set_remote_public_key L s k ex =
     noise_dh L ex ''unable to get remote public key'' ''unable to set remote public key'' (hs_set_remote L s k)"

definition mix_hash :: "('s, 'c) noise_lib \<Rightarrow> 's \<Rightarrow> byte list \<Rightarrow> exception \<Rightarrow> 's result" where
  "mix_hash L s buf ex = noise_result L ex ''error performing MixHash'' (hs_mix_hash L s buf)"

definition noise_split ::
  "('s, 'c) noise_lib \<Rightarrow> 's \<Rightarrow> exception \<Rightarrow> ('c \<times> 'c \<times> byte list \<times> 's) result" where
  "noise_split L s ex = noise_result L ex ''error performing Split'' (hs_split_save L s 32)"

text \<open>
  In place: \<open>off\<close> bytes into the buffer, \<open>n\<close> bytes with the MAC. What is outside of the buffer
  is undefined. Decrypting leaves the MAC where it was.
\<close>

definition noise_encrypt ::
  "('s, 'c) noise_lib \<Rightarrow> 'c \<Rightarrow> nat \<Rightarrow> nat \<Rightarrow> byte list \<Rightarrow> exception \<Rightarrow> (byte list \<times> 'c) result" where
  "noise_encrypt L c off n buf ex =
     (if length buf < off + n then Inl (Undefined_behaviour ''encryption past the end of the buffer'')
      else if n < 16 then Inl (Undefined_behaviour ''message size underflows'')
      else bindr (noise_result L ex ''error encrypting message'' (cs_encrypt L c (take (n - 16) (drop off buf))))
             (\<lambda>(ct, c). Inr (overwrite off ct buf, c)))"

definition noise_decrypt ::
  "('s, 'c) noise_lib \<Rightarrow> 'c \<Rightarrow> nat \<Rightarrow> nat \<Rightarrow> byte list \<Rightarrow> exception \<Rightarrow> (byte list \<times> 'c) result" where
  "noise_decrypt L c off n buf ex =
     (if length buf < off + n then Inl (Undefined_behaviour ''decryption past the end of the buffer'')
      else bindr (noise_result L ex ''error decrypting message'' (cs_decrypt L c (take n (drop off buf))))
             (\<lambda>(p, c). Inr (overwrite off p buf, c)))"

section \<open>What the library documents\<close>

text \<open>
  A cipher state and the one of the peer: what the first encrypts, 16 bytes longer than the
  plaintext, the second decrypts to the plaintext, and the states they leave are related by
  \<open>R\<close>. Two states are in step for \<open>n\<close> messages when this holds \<open>n\<close> times in a row and every
  encryption succeeds.
\<close>

definition cs_pair :: "('s, 'c) noise_lib \<Rightarrow> ('c \<Rightarrow> 'c \<Rightarrow> bool) \<Rightarrow> 'c \<Rightarrow> 'c \<Rightarrow> bool" where
  "cs_pair L R c d \<longleftrightarrow> (\<forall>p ct c'. cs_encrypt L c p = Inr (ct, c') \<longrightarrow>
     length ct = length p + 16 \<and> (\<exists>d'. cs_decrypt L d ct = Inr (p, d') \<and> R c' d'))"

primrec cs_synced :: "('s, 'c) noise_lib \<Rightarrow> nat \<Rightarrow> 'c \<Rightarrow> 'c \<Rightarrow> bool" where
  "cs_synced L 0 c d \<longleftrightarrow> True"
| "cs_synced L (Suc n) c d \<longleftrightarrow> (\<forall>p. \<exists>x. cs_encrypt L c p = Inr x) \<and> cs_pair L (cs_synced L n) c d"

lemma noise_encrypt_decrypt:
  assumes "cs_pair L R c d" "length buf = off + n"
    and "noise_encrypt L c off n buf ex = Inr (buf', c')"
  shows "\<exists>d'. noise_decrypt L d off n buf' ex' = Inr (take (off + n - 16) buf @ drop (off + n - 16) buf', d')
    \<and> length buf' = length buf \<and> take off buf' = take off buf \<and> 16 \<le> n \<and> R c' d'"
proof -
  let ?p = "take (n - 16) (drop off buf)"
  have n: "16 \<le> n" using assms(2,3) by (auto simp: noise_encrypt_def split: if_splits)
  then obtain ct where ct: "cs_encrypt L c ?p = Inr (ct, c')" "buf' = overwrite off ct buf"
    using assms(2,3) by (auto simp: noise_encrypt_def noise_result_Inr_iff result_simps)
  obtain d' where d': "length ct = n" "cs_decrypt L d ct = Inr (?p, d')" "R c' d'"
    using assms(1,2) ct(1) n unfolding cs_pair_def by fastforce
  have buf': "buf' = take off buf @ ct" using ct(2) d'(1) assms(2) by (simp add: overwrite_def)
  have p: "length ?p = n - 16" "take off buf @ ?p = take (off + n - 16) buf"
    using assms(2) n by (simp_all add: take_add [symmetric])
  have "overwrite off ?p buf' = take (off + n - 16) buf @ drop (off + n - 16) buf'"
    using p n assms(2) d'(1) by (simp add: overwrite_def buf')
  then show ?thesis
    using d' buf' n assms(2) by (simp add: noise_decrypt_def)
qed

text \<open>
  Two handshake states in step: a message that the first writes, \<open>over\<close> bytes longer than its
  payload, is read by the second as that payload, and both absorb the same bytes by MixHash.
  The states after that are related by \<open>R\<close>.
\<close>

definition hs_message :: "('s, 'c) noise_lib \<Rightarrow> nat \<Rightarrow> ('s \<Rightarrow> 's \<Rightarrow> bool) \<Rightarrow> 's \<Rightarrow> 's \<Rightarrow> bool" where
  "hs_message L over R s t \<longleftrightarrow> (\<forall>payload room. length payload + over \<le> room \<longrightarrow>
     (\<exists>msg s' t'. hs_write_message L s payload room = Inr (msg, s') \<and> length msg = length payload + over
       \<and> (\<forall>n. length payload \<le> n \<longrightarrow> hs_read_message L t msg n = Inr (payload, t')) \<and> R s' t'))"

definition hs_mix :: "('s, 'c) noise_lib \<Rightarrow> ('s \<Rightarrow> 's \<Rightarrow> bool) \<Rightarrow> 's \<Rightarrow> 's \<Rightarrow> bool" where
  "hs_mix L R s t \<longleftrightarrow> (\<forall>b. \<exists>s' t'. hs_mix_hash L s b = Inr s' \<and> hs_mix_hash L t b = Inr t' \<and> R s' t')"

lemma hs_messageE:
  assumes "hs_message L over R s t" "length payload + over \<le> length out"
  obtains msg s' t' where "noise_write_message L s payload out ex = Inr (overwrite 0 msg out, s')"
    "length msg = length payload + over" "R s' t'"
    "\<And>b ex'. length payload \<le> length b \<Longrightarrow> noise_read_message L t msg b ex' = Inr (overwrite 0 payload b, t')"
proof -
  obtain msg s' t' where "hs_write_message L s payload (length out) = Inr (msg, s')"
    "length msg = length payload + over" "R s' t'"
    "\<forall>n. length payload \<le> n \<longrightarrow> hs_read_message L t msg n = Inr (payload, t')"
    using assms unfolding hs_message_def by blast
  then show ?thesis by (intro that) (auto simp: noise_write_message_def noise_read_message_def)
qed

lemma hs_mixE:
  assumes "hs_mix L R s t"
  obtains s' t' where "mix_hash L s b ex = Inr s'" "\<And>ex'. mix_hash L t b ex' = Inr t'" "R s' t'"
proof -
  obtain s' t' where "hs_mix_hash L s b = Inr s'" "hs_mix_hash L t b = Inr t'" "R s' t'"
    using assms unfolding hs_mix_def by blast
  then show ?thesis by (intro that) (auto simp: mix_hash_def)
qed

end
