(* ===== verification/DataPhase.thy ===== *)
theory DataPhase
  imports BlockList Noise
begin

text \<open>
  The data phase: its messages (\<open>src/ntcp2/data_phase/message.h\<close>), the SipHash wrapper of
  \<open>src/crypto/siphash.h\<close>, the key derivation and the reading and writing of messages
  (\<open>src/ntcp2/data_phase/data_phase.h\<close>). The mutexes of a message guard single operations and
  are not modelled. An operation that throws returns the exception only.
\<close>

section \<open>Messages\<close>

definition SizeLen :: nat where "SizeLen = 2"
definition MsgMinLen :: nat where "MsgMinLen = SizeLen"
definition MsgMaxLen :: nat where "MsgMaxLen = 65535 + MsgMinLen"

lemmas dm_sizes = SizeLen_def MsgMinLen_def MsgMaxLen_def

datatype dir = AliceToBob | BobToAlice

record data_message =
  dm_blocks :: "data_variant list"
  dm_buf :: "byte list"

definition dm_size :: "data_message \<Rightarrow> nat" where
  "dm_size m = TotalSize data_size (dm_blocks m)"

text \<open>The loop that serializes the blocks; \<open>V k\<close> is what the \<open>k\<close>-th block draws from outside.\<close>

fun write_blocks ::
  "(nat \<Rightarrow> block_env) \<Rightarrow> nat \<Rightarrow> data_variant list \<Rightarrow> bytes \<Rightarrow> (data_variant list \<times> bytes) result" where
  "write_blocks V k [] w = Inr ([], w)"
| "write_blocks V k (b # bs) w =
     bindr (WriteToBuffer data_buffer (data_serialize (V k)) w b) (\<lambda>(b, w).
     bindr (write_blocks V (Suc k) bs w) (\<lambda>(bs, w). Inr (b # bs, w)))"

definition dm_serialize :: "(nat \<Rightarrow> block_env) \<Rightarrow> data_message \<Rightarrow> data_message result" where
  "dm_serialize V m =
     (let ex = Ex ''DataPhase: Message'' ''serialize''; total_size = dm_size m in
      if total_size > MsgMaxLen then throw_ex ex Length_error ''invalid total message size.''
      else
        let buf = (if length (dm_buf m) < SizeLen + total_size
                   then sec_resize (SizeLen + total_size) (dm_buf m) else dm_buf m) in
        bindr (skip_bytes SizeLen (bytes_on buf)) (\<lambda>w.
        bindr (CheckBlockOrder_data (dm_blocks m) ex) (\<lambda>_.
        bindr (write_blocks V 0 (dm_blocks m) w) (\<lambda>(bs, w).
          Inr (m\<lparr>dm_blocks := bs, dm_buf := sbuf w\<rparr>)))))"

lemma read_be_gcount:
  "read_be r = Inr ((x::'a::len word), r') \<Longrightarrow> sbuf r' = sbuf r \<and> spos r' = spos r + LENGTH('a) div 8
     \<and> spos r' \<le> length (sbuf r)"
  by (auto simp: read_be_def read_bytes_def check_buf_def advance_def result_simps Let_def split: if_splits)

text \<open>A block takes at least the three bytes of its header from the reader.\<close>

lemma ReadToBlock_header:
  assumes "ReadToBlock tb sb de r b ex = Inr (b', r')"
  shows "gcount r' + 3 \<le> gcount r"
proof -
  obtain t r1 n r2 r3 buf where s: "read_be r = Inr (t::byte, r1)" "read_be r1 = Inr (n::u16, r2)"
    "skip_back HeaderLen r2 = Inr r3" "read_data (HeaderLen + unat n) r3 = Inr (buf, r')"
    using assms by (auto simp: ReadToBlock_def result_simps Let_def split: if_splits)
  have "sbuf r3 = sbuf r" "spos r3 = spos r" "spos r < length (sbuf r)"
    using read_be_gcount [OF s(1)] read_be_gcount [OF s(2)] s(3)
    by (auto simp: skip_back_def regress_def HeaderLen_def split: if_splits)
  then show ?thesis
    using s(4) by (auto simp: read_data_def check_buf_def advance_def result_simps Let_def HeaderLen_def gcount_def
        split: if_splits)
qed

text \<open>The loop that reads the blocks, until no more than a MAC is left.\<close>

function read_blocks ::
  "(nat \<Rightarrow> block_env) \<Rightarrow> data_variant list \<Rightarrow> bytes \<Rightarrow> data_variant list result" where
  "read_blocks V bs r =
     (let ex = Ex ''DataPhase'' ''deserialize''; W = V (length bs) in
      if gcount r \<le> 16 then Inr bs
      else
        bindr (dt_default (be_now W)) (\<lambda>b0.
        bindr (ReadToBlock (TypeToBlock_data W) set_data_buffer (data_deserialize W) r (DDateTime b0) ex) (\<lambda>(b, r').
          (case AddBlock copy_data CheckBlockOrder_data bs b ex of
             (_, Inl e) \<Rightarrow> Inl e
           | (bs', Inr _) \<Rightarrow> read_blocks V bs' r'))))"
  by pat_completeness auto
termination
  by (relation "measure (\<lambda>(V, bs, r). gcount r)") (auto dest: ReadToBlock_header)

declare read_blocks.simps [simp del]

definition dm_deserialize :: "(nat \<Rightarrow> block_env) \<Rightarrow> data_message \<Rightarrow> data_message result" where
  "dm_deserialize V m =
     bindr (skip_bytes SizeLen (bytes_on (dm_buf m))) (\<lambda>r.
     bindr (read_blocks V [] r) (\<lambda>bs. Inr (m\<lparr>dm_blocks := bs\<rparr>)))"

text \<open>
  Adding a block, and what the message holds afterwards: a block that violates the order stays.
\<close>

definition dm_add_block :: "data_variant \<Rightarrow> data_message \<Rightarrow> data_message \<times> unit result" where
  "dm_add_block b m =
     (let ex = Ex ''DataPhase: Message'' ''add_block'' in
      if TotalSize data_size (dm_blocks m) + data_size b > MsgMaxLen
      then (m, throw_ex ex Length_error ''invalid total message size.'')
      else (case AddBlock copy_data CheckBlockOrder_data (dm_blocks m) b ex of
              (bs, res) \<Rightarrow> (m\<lparr>dm_blocks := bs\<rparr>, res)))"

definition dm_get_block :: "nat \<Rightarrow> data_message \<Rightarrow> data_variant result" where
  "dm_get_block i m =
     (if i > length (dm_blocks m)
      then throw_ex (Ex ''DataPhase: Message'' ''get_block'') Invalid_argument ''index out-of-range.''
      else if i < length (dm_blocks m) then Inr (dm_blocks m ! i)
      else Inl (Undefined_behaviour ''element past the end''))"

definition dm_find_block :: "byte \<Rightarrow> data_message \<Rightarrow> data_variant option" where
  "dm_find_block t m = List.find (\<lambda>b. data_type b = t) (dm_blocks m)"

definition dm_clear_blocks :: "data_message \<Rightarrow> data_message" where
  "dm_clear_blocks m = m\<lparr>dm_blocks := []\<rparr>"

section \<open>A message written and read back\<close>

abbreviation frames :: "data_variant list \<Rightarrow> byte list" where
  "frames bs \<equiv> concat (map (\<lambda>b. val_frame (data_view b)) bs)"

lemma write_blocks_frames:
  assumes "write_blocks V k bs (written ys buf) = Inr (bs', w)"
    and "\<And>i. i < length bs \<Longrightarrow> data_sized (V (k + i)) (bs ! i)"
  shows "w = written (ys @ frames bs') buf \<and> length bs' = length bs
    \<and> (\<forall>i < length bs. data_serialize (V (k + i)) (bs ! i) = Inr (bs' ! i))"
  using assms
proof (induction bs arbitrary: k ys bs' w)
  case (Cons b bs)
  obtain b' w1 bs1 where s: "WriteToBuffer data_buffer (data_serialize (V k)) (written ys buf) b = Inr (b', w1)"
    "write_blocks V (Suc k) bs w1 = Inr (bs1, w)" "bs' = b' # bs1"
    using Cons.prems(1) by (auto simp: result_simps)
  have "data_sized (V k) b" using Cons.prems(2) [of 0] by simp
  then have w1: "w1 = written (ys @ val_frame (data_view b')) buf" "data_serialize (V k) b = Inr b'"
    using data_blocks.write_frame [OF s(1)] by simp_all
  have IH: "w = written ((ys @ val_frame (data_view b')) @ frames bs1) buf \<and> length bs1 = length bs
    \<and> (\<forall>i < length bs. data_serialize (V (Suc k + i)) (bs ! i) = Inr (bs1 ! i))"
    using Cons.IH [OF s(2) [unfolded w1(1)]] Cons.prems(2) [of "Suc _"] by simp
  then show ?case using s(3) w1(2) by (auto simp: less_Suc_eq_0_disj)
qed simp

lemma read_blocks_step:
  assumes "val_ok (V (length bs)) v" "16 < length (val_frame v) + length rest"
    and "data_order_seq (map data_type bs @ [val_type v])"
  shows "\<exists>b. read_blocks V bs (reading pre (val_frame v @ rest)) =
      read_blocks V (bs @ [b]) (reading (pre @ val_frame v) rest) \<and> data_view b = v \<and> data_type b = val_type v"
proof -
  let ?W = "V (length bs)"
  obtain b0 where b0: "dt_default (be_now ?W) = Inr b0" using dt_default_eq by blast
  obtain b where b: "ReadToBlock (TypeToBlock_data ?W) set_data_buffer (data_deserialize ?W)
      (reading pre (val_frame v @ rest)) (DDateTime b0) (Ex ''DataPhase'' ''deserialize'') =
      Inr (b, reading (pre @ val_frame v) rest)" "data_holds v b"
    using data_blocks.read_frame [OF assms(1)] by blast
  obtain c where c: "copy_data b = Inr c" "data_view c = v" "data_type c = val_type v"
    using b(2) by (auto simp: data_holds_def split: sum.splits)
  have "CheckBlockOrder_data (bs @ [c]) (Ex ''DataPhase'' ''deserialize'') = Inr ()"
    using assms(3) c(3) by (simp add: CheckBlockOrder_data_def data_order_iff)
  then have a: "AddBlock copy_data CheckBlockOrder_data bs b (Ex ''DataPhase'' ''deserialize'') = (bs @ [c], Inr ())"
    using c(1) by (simp add: AddBlock_def)
  have g: "\<not> gcount (reading pre (val_frame v @ rest)) \<le> 16" using assms(2) by (simp add: reading_sel)
  have "read_blocks V bs (reading pre (val_frame v @ rest)) = read_blocks V (bs @ [c]) (reading (pre @ val_frame v) rest)"
    by (subst read_blocks.simps) (simp only: Let_def if_not_P [OF g] b0 bindr_simps b(1) prod.case a sum.case)
  then show ?thesis using c by blast
qed

lemma read_blocks_frames:
  assumes "\<And>i. i < length vs \<Longrightarrow> val_ok (V (length bs + i)) (vs ! i)"
    and "data_order_seq (map data_type bs @ map val_type vs)" "length mac = 16"
  shows "\<exists>cs. read_blocks V bs (reading pre (concat (map val_frame vs) @ mac)) = Inr (bs @ cs) \<and> map data_view cs = vs"
  using assms(1,2)
proof (induction vs arbitrary: bs pre)
  case Nil
  then show ?case using assms(3) by (subst read_blocks.simps) (simp add: reading_sel)
next
  case (Cons v vs)
  have "data_order_seq (map data_type bs @ [val_type v])"
    using Cons.prems(2) data_order_seq_appendD [of "map data_type bs @ [val_type v]"] by simp
  then obtain b where b: "read_blocks V bs (reading pre (val_frame v @ concat (map val_frame vs) @ mac)) =
      read_blocks V (bs @ [b]) (reading (pre @ val_frame v) (concat (map val_frame vs) @ mac))"
    "data_view b = v" "data_type b = val_type v"
    using read_blocks_step [of V bs v "concat (map val_frame vs) @ mac" pre] Cons.prems(1) [of 0] assms(3) by auto
  have "\<exists>cs. read_blocks V (bs @ [b]) (reading (pre @ val_frame v) (concat (map val_frame vs) @ mac)) =
      Inr ((bs @ [b]) @ cs) \<and> map data_view cs = vs"
    using Cons.prems(1) [of "Suc _"] Cons.prems(2) b(3) by (intro Cons.IH) simp_all
  then obtain cs where "read_blocks V (bs @ [b]) (reading (pre @ val_frame v) (concat (map val_frame vs) @ mac)) =
      Inr (bs @ b # cs)" "map data_view cs = vs" by auto
  then show ?case using b by (intro exI [of _ "b # cs"]) simp
qed

lemma data_serialize_type:
  "data_serialize V b = Inr b' \<Longrightarrow> data_type b = val_type (data_view b') \<and> data_type b' = data_type b"
  by (cases b)
    (auto simp: mapr_Inr_iff data_type_def dt_serialize_def dt_check_iff dt_ok_def i2np_serialize_def i2np_check_Inr
      ib_serialize_def ib_check_Inr info_val_def opt_serialize_def opt_check_Inr options_val_def pad_serialize_def
      pad_check_params_def term_serialize_def term_check_Inr Let_def result_simps split: if_splits)

lemma skip_SizeLen: "2 \<le> length b \<Longrightarrow> skip_bytes SizeLen (bytes_on b) = Inr (written (take 2 b) b)"
proof -
  assume "2 \<le> length b"
  then have "length (take 2 b) = 2" "overwrite 0 (take 2 b) b = b"
    by (simp_all add: overwrite_def min_def)
  then show ?thesis
    using \<open>2 \<le> length b\<close> by (simp add: skip_bytes_def advance_def bytes_on_def written_def SizeLen_def)
qed

text \<open>
  What a message serializes to: the frames of its blocks after the two bytes of the length.
  The buffer grows when it has no room for them.
\<close>

definition dm_room :: "data_message \<Rightarrow> byte list" where
  "dm_room m = sec_resize (max (length (dm_buf m)) (2 + dm_size m)) (dm_buf m)"

lemma frames_size:
  assumes "length bs' = length bs"
    and "\<And>i. i < length bs \<Longrightarrow> data_serialize (V i) (bs ! i) = Inr (bs' ! i) \<and> data_sized (V i) (bs ! i)"
  shows "TotalSize data_size bs' = length (frames bs')" "map (val_type \<circ> data_view) bs' = map data_type bs"
proof -
  have "data_size (bs' ! i) = length (val_frame (data_view (bs' ! i)))
      \<and> val_type (data_view (bs' ! i)) = data_type (bs ! i)" if "i < length bs'" for i
    using data_serialize_size data_serialize_frame data_serialize_type assms that by metis
  then have "map data_size bs' = map (length \<circ> (\<lambda>b. val_frame (data_view b))) bs'"
    "map (val_type \<circ> data_view) bs' = map data_type bs"
    using assms(1) by (simp_all add: list_eq_iff_nth_eq del: length_frame)
  then show "TotalSize data_size bs' = length (frames bs')" "map (val_type \<circ> data_view) bs' = map data_type bs"
    unfolding TotalSize_def length_concat map_map by (simp_all only: comp_def)
qed

lemma dm_serialize_frames:
  assumes "dm_serialize V m = Inr m'"
    and "\<And>i. i < length (dm_blocks m) \<Longrightarrow> data_sized (V i) (dm_blocks m ! i)"
  shows "dm_buf m' = take 2 (dm_room m) @ frames (dm_blocks m') @ drop (2 + length (frames (dm_blocks m'))) (dm_room m)"
    and "dm_size m' = length (frames (dm_blocks m'))" "dm_size m \<le> MsgMaxLen"
    and "data_order_seq (map (val_type \<circ> data_view) (dm_blocks m'))"
    and "length (dm_blocks m') = length (dm_blocks m)"
proof -
  have room: "dm_room m = (if length (dm_buf m) < 2 + dm_size m then sec_resize (2 + dm_size m) (dm_buf m) else dm_buf m)"
    by (auto simp: dm_room_def max_def sec_resize_def)
  have len: "2 \<le> length (dm_room m)" by (simp add: dm_room_def)
  obtain bs w where s: "write_blocks V 0 (dm_blocks m) (written (take 2 (dm_room m)) (dm_room m)) = Inr (bs, w)"
    "m' = m\<lparr>dm_blocks := bs, dm_buf := sbuf w\<rparr>" "dm_size m \<le> MsgMaxLen"
    "CheckBlockOrder_data (dm_blocks m) (Ex ''DataPhase: Message'' ''serialize'') = Inr ()"
    using assms(1) skip_SizeLen [OF len] unfolding room
    by (auto simp: dm_serialize_def Let_def SizeLen_def result_simps split: if_splits)
  have w: "w = written (take 2 (dm_room m) @ frames bs) (dm_room m)" "length bs = length (dm_blocks m)"
    "\<And>i. i < length (dm_blocks m) \<Longrightarrow> data_serialize (V i) (dm_blocks m ! i) = Inr (bs ! i)"
    using write_blocks_frames [OF s(1)] assms(2) by simp_all
  have fs: "TotalSize data_size bs = length (frames bs)" "map (val_type \<circ> data_view) bs = map data_type (dm_blocks m)"
    using frames_size [of bs "dm_blocks m" V] w(2,3) assms(2) by simp_all
  show "dm_buf m' = take 2 (dm_room m) @ frames (dm_blocks m') @ drop (2 + length (frames (dm_blocks m'))) (dm_room m)"
    using s(2) w(1) len by (simp add: written_sel min_def)
  show "dm_size m' = length (frames (dm_blocks m'))" "dm_size m \<le> MsgMaxLen"
    "length (dm_blocks m') = length (dm_blocks m)"
    using s(2,3) fs(1) w(2) by (simp_all add: dm_size_def)
  show "data_order_seq (map (val_type \<circ> data_view) (dm_blocks m'))"
    using s(2,4) fs(2) by (simp add: CheckBlockOrder_data_def data_order_iff)
qed

text \<open>A reader of the frames, followed by a MAC, finds the values of the blocks.\<close>

lemma dm_deserialize_frames:
  assumes "dm_buf m = hdr @ concat (map val_frame vs) @ mac" "length hdr = 2" "length mac = 16"
    and "\<And>i. i < length vs \<Longrightarrow> val_ok (V i) (vs ! i)" "data_order_seq (map val_type vs)"
  shows "\<exists>bs. dm_deserialize V m = Inr (m\<lparr>dm_blocks := bs\<rparr>) \<and> map data_view bs = vs"
proof -
  have sk: "skip_bytes SizeLen (bytes_on (dm_buf m)) = Inr (reading hdr (concat (map val_frame vs) @ mac))"
    using assms(1,2) by (simp add: bytes_on_reading skip_bytes_reading SizeLen_def)
  obtain bs where "read_blocks V [] (reading hdr (concat (map val_frame vs) @ mac)) = Inr bs" "map data_view bs = vs"
    using read_blocks_frames [of vs V "[]" mac hdr] assms(3-5) by auto
  then show ?thesis by (intro exI [of _ bs]) (simp add: dm_deserialize_def sk)
qed

section \<open>Key derivation\<close>

record dp_prims =
  siphash :: "byte list \<Rightarrow> byte list \<Rightarrow> byte list"
  dp_hmac :: "byte list \<Rightarrow> byte list \<Rightarrow> byte list"

text \<open>
  \<open>SipHash::Hash\<close>: the IV hashed under the two key parts. \<open>HmacSha256::Hash(out, in, key)\<close>
  overwrites its first argument with the digest of the second under the third.
\<close>

definition SipHash_Hash :: "dp_prims \<Rightarrow> byte list \<Rightarrow> byte list \<Rightarrow> byte list \<Rightarrow> byte list result" where
  "SipHash_Hash P key_pt1 key_pt2 iv =
     bindr (write_data key_pt1 (bytes_on (fixed_default 16))) (\<lambda>w.
     bindr (write_data key_pt2 w) (\<lambda>w. Inr (siphash P iv (sbuf w))))"

definition HmacSha256_Hash :: "dp_prims \<Rightarrow> byte list \<Rightarrow> byte list \<Rightarrow> byte list" where
  "HmacSha256_Hash P inp key = dp_hmac P inp key"

record 'c dp_kdf =
  key_pt1_ab :: "byte list"
  key_pt2_ab :: "byte list"
  iv_ab :: "byte list"
  key_pt1_ba :: "byte list"
  key_pt2_ba :: "byte list"
  iv_ba :: "byte list"
  kdf_h :: "byte list"
  alice_to_bob :: 'c
  bob_to_alice :: 'c

text \<open>
  The call \<open>Hash(x, y, z)\<close> assigns \<open>x\<close>: the digests that are never a first argument keep the zero
  bytes they are created with.
\<close>

definition InitSipKeys :: "dp_prims \<Rightarrow> byte list \<Rightarrow> 'c dp_kdf \<Rightarrow> 'c dp_kdf result" where
  "InitSipKeys P temp_key k =
     bindr (write_data (kdf_h k) (bytes_on (fixed_default 39))) (\<lambda>w.
     bindr (write_data [0x73, 0x69, 0x70, 0x68, 0x61, 0x73, 0x68] w) (\<lambda>w.
     let sip_master_in = sbuf w;
         ask_master = fixed_default 32; sip_master = fixed_default 32;
         one_byte = [0x01];
         temp_key = HmacSha256_Hash P [0x61, 0x73, 0x6B, 0x01] ask_master;
         ask_master = HmacSha256_Hash P sip_master_in temp_key;
         temp_key = HmacSha256_Hash P one_byte sip_master;
         sip_master = HmacSha256_Hash P [] temp_key;
         sip_keys_ab = fixed_default 32; sip_keys_ba = fixed_default 32;
         temp_key = HmacSha256_Hash P one_byte sip_keys_ab in
     bindr (read_data 8 (bytes_on sip_keys_ab)) (\<lambda>(p1, r).
     bindr (read_data 8 r) (\<lambda>(p2, r).
     bindr (read_data 8 r) (\<lambda>(iv, r).
     bindr (write_data sip_keys_ab (bytes_on (fixed_default 33))) (\<lambda>w.
     bindr (write_be (0x02::byte) w) (\<lambda>w.
     let temp_key = HmacSha256_Hash P (sbuf w) sip_keys_ba in
     bindr (read_data 8 (bytes_on sip_keys_ba)) (\<lambda>(q1, r).
     bindr (read_data 8 r) (\<lambda>(q2, r).
     bindr (read_data 8 r) (\<lambda>(jv, r).
       Inr (k\<lparr>key_pt1_ab := p1, key_pt2_ab := p2, iv_ab := iv,
              key_pt1_ba := q1, key_pt2_ba := q2, iv_ba := jv\<rparr>)))))))))))"

text \<open>
  The constructor. \<open>noise::split\<close> gives the cipher states to send and to receive with; the
  initiator of the data phase is the responder of the handshake.
\<close>

definition kdf_new ::
  "('s, 'c) noise_lib \<Rightarrow> dp_prims \<Rightarrow> role \<Rightarrow> 's option \<Rightarrow> ('c dp_kdf \<times> 's) result" where
  "kdf_new L P rl st =
     (let ex = Ex ''DataPhaseKDF'' ''KDF'' in
      case st of
        None \<Rightarrow> throw_ex ex Invalid_argument ''null handshake state.''
      | Some s \<Rightarrow>
          bindr (noise_split L s ex) (\<lambda>(snd_cs, rcv_cs, temp_key, s).
          bindr (get_handshake_hash L s ex) (\<lambda>h.
          bindr (InitSipKeys P temp_key
             \<lparr>key_pt1_ab = fixed_default 8, key_pt2_ab = fixed_default 8, iv_ab = fixed_default 8,
              key_pt1_ba = fixed_default 8, key_pt2_ba = fixed_default 8, iv_ba = fixed_default 8, kdf_h = h,
              alice_to_bob = (if rl = Initiator then snd_cs else rcv_cs),
              bob_to_alice = (if rl = Initiator then rcv_cs else snd_cs)\<rparr>) (\<lambda>k. Inr (k, s)))))"

text \<open>The object of a data phase: its own null check comes after the one of its key derivation, which throws first.\<close>

definition dp_new :: "('s, 'c) noise_lib \<Rightarrow> dp_prims \<Rightarrow> role \<Rightarrow> 's option \<Rightarrow> ('c dp_kdf \<times> 's) result" where
  "dp_new L P rl st =
     bindr (kdf_new L P rl st) (\<lambda>k. case st of
       None \<Rightarrow> throw_ex (Ex ''DataPhase'' ''DataPhase'') Invalid_argument ''null handshake state.''
     | Some _ \<Rightarrow> Inr k)"

lemma dp_new_eq [simp]: "dp_new L P rl (Some s) = kdf_new L P rl (Some s)"
  by (cases "kdf_new L P rl (Some s)") (simp_all add: dp_new_def)

definition cipherstate :: "dir \<Rightarrow> 'c dp_kdf \<Rightarrow> 'c" where
  "cipherstate d k = (case d of AliceToBob \<Rightarrow> alice_to_bob k | BobToAlice \<Rightarrow> bob_to_alice k)"

definition set_cipherstate :: "dir \<Rightarrow> 'c \<Rightarrow> 'c dp_kdf \<Rightarrow> 'c dp_kdf" where
  "set_cipherstate d c k =
     (case d of AliceToBob \<Rightarrow> k\<lparr>alice_to_bob := c\<rparr> | BobToAlice \<Rightarrow> k\<lparr>bob_to_alice := c\<rparr>)"

definition DeriveMask :: "dp_prims \<Rightarrow> dir \<Rightarrow> 'c dp_kdf \<Rightarrow> (u16 \<times> 'c dp_kdf) result" where
  "DeriveMask P d k =
     (case d of
        AliceToBob \<Rightarrow>
          bindr (SipHash_Hash P (key_pt1_ab k) (key_pt2_ab k) (iv_ab k)) (\<lambda>digest.
          bindr (raw_read_bytes 2 (Some digest)) (\<lambda>m.
            Inr (word_of_be m, k\<lparr>iv_ab := take (length (iv_ab k)) digest\<rparr>)))
      | BobToAlice \<Rightarrow>
          bindr (SipHash_Hash P (key_pt1_ba k) (key_pt2_ba k) (iv_ba k)) (\<lambda>digest.
          bindr (raw_read_bytes 2 (Some digest)) (\<lambda>m.
            Inr (word_of_be m, k\<lparr>iv_ba := take (length (iv_ba k)) digest\<rparr>))))"

definition ProcessLength :: "dp_prims \<Rightarrow> u16 \<Rightarrow> dir \<Rightarrow> 'c dp_kdf \<Rightarrow> (u16 \<times> 'c dp_kdf) result" where
  "ProcessLength P len d k = bindr (DeriveMask P d k) (\<lambda>(mask, k). Inr (len XOR mask, k))"

section \<open>Writing and reading\<close>

definition write_dir :: "role \<Rightarrow> dir" where
  "write_dir rl = (if rl = Initiator then BobToAlice else AliceToBob)"

definition read_dir :: "role \<Rightarrow> dir" where
  "read_dir rl = (if rl = Initiator then AliceToBob else BobToAlice)"

text \<open>The length is the size of the message as a 16-bit number, to which the MAC's is added.\<close>

definition dp_Write ::
  "('s, 'c) noise_lib \<Rightarrow> dp_prims \<Rightarrow> (nat \<Rightarrow> block_env) \<Rightarrow> role \<Rightarrow> data_message \<Rightarrow> 'c dp_kdf
     \<Rightarrow> (data_message \<times> 'c dp_kdf) result" where
  "dp_Write L P V rl m k =
     (let ex = Ex ''DataPhase'' ''Write''; len = (word_of_nat (dm_size m) :: u16) in
      if len = 0 then throw_ex ex Invalid_argument ''empty message.''
      else
        let len = len + 16; d = write_dir rl;
            m = m\<lparr>dm_buf := sec_resize (SizeLen + unat len) (dm_buf m)\<rparr> in
        bindr (ProcessLength P len d k) (\<lambda>(len, k).
        bindr (raw_write_bytes (be_of_word len) (Some (dm_buf m))) (\<lambda>buf.
        bindr (dm_serialize V (m\<lparr>dm_buf := buf\<rparr>)) (\<lambda>m.
        bindr (noise_encrypt L (cipherstate d k) SizeLen (length (dm_buf m) - SizeLen) (dm_buf m) ex) (\<lambda>(buf, c).
          Inr (m\<lparr>dm_buf := buf\<rparr>, set_cipherstate d c k))))))"

text \<open>
  The length without the MAC is cast to a signed 16-bit number before it is compared with 0.
\<close>

definition dp_Read ::
  "('s, 'c) noise_lib \<Rightarrow> dp_prims \<Rightarrow> (nat \<Rightarrow> block_env) \<Rightarrow> role \<Rightarrow> bool \<Rightarrow> data_message \<Rightarrow> 'c dp_kdf
     \<Rightarrow> (data_message \<times> 'c dp_kdf) result" where
  "dp_Read L P V rl deobfs_len m k =
     (let ex = Ex ''DataPhase'' ''Read''; d = read_dir rl; buf = dm_buf m in
      if length buf < MsgMinLen \<or> length buf > MsgMaxLen
      then throw_ex ex Length_error ''invalid ciphertext size.''
      else
        bindr (raw_read_bytes 2 (Some buf)) (\<lambda>l.
        bindr (if deobfs_len then ProcessLength P (word_of_be l) d k else Inr (word_of_be l, k)) (\<lambda>(len, k).
        if sint (word_of_int (int (unat len) - 16) :: u16) \<le> 0 then Inr (m, k)
        else if unat len > MsgMaxLen - SizeLen then throw_ex ex Length_error ''invalid message size.''
        else
          bindr (noise_decrypt L (cipherstate d k) SizeLen (unat len) buf ex) (\<lambda>(buf, c).
          bindr (dm_deserialize V (m\<lparr>dm_buf := sec_resize (SizeLen + unat len) buf\<rparr>)) (\<lambda>m.
            Inr (m, set_cipherstate d c k))))))"

section \<open>The keys that obfuscate the length\<close>

text \<open>Whatever the handshake: all of the keys and both IVs are zero bytes.\<close>

lemma InitSipKeys_zero:
  assumes "length (kdf_h k) = 32"
  shows "InitSipKeys P temp_key k = Inr (k\<lparr>key_pt1_ab := replicate 8 0, key_pt2_ab := replicate 8 0,
    iv_ab := replicate 8 0, key_pt1_ba := replicate 8 0, key_pt2_ba := replicate 8 0, iv_ba := replicate 8 0\<rparr>)"
proof -
  let ?h = "kdf_h k" and ?s = "[0x73, 0x69, 0x70, 0x68, 0x61, 0x73, 0x68] :: byte list"
  have w: "write_data ?h (bytes_on (fixed_default 39)) = Inr (written ?h (fixed_default 39))"
    "write_data ?s (written ?h (fixed_default 39)) = Inr (written (?h @ ?s) (fixed_default 39))"
    using assms by (simp_all add: bytes_on_written write_data_fits fixed_default_def)
  have v: "write_data (fixed_default 32) (bytes_on (fixed_default 33)) = Inr (written (fixed_default 32) (fixed_default 33))"
    "write_be (2::byte) (written (fixed_default 32) (fixed_default 33)) = Inr (written (fixed_default 32 @ [2]) (fixed_default 33))"
    by (simp_all add: bytes_on_written write_data_fits write_be_fits fixed_default_def)
  have r: "read_data 8 (bytes_on (fixed_default 32)) = Inr (replicate 8 0, reading (replicate 8 0) (replicate 24 0))"
    "read_data 8 (reading (replicate 8 0) (replicate 24 0)) = Inr (replicate 8 0, reading (replicate 16 0) (replicate 16 0))"
    "read_data 8 (reading (replicate 16 0) (replicate 16 0)) = Inr (replicate 8 0, reading (replicate 24 0) (replicate 8 0))"
    by (simp_all add: bytes_on_reading read_data_reading fixed_default_def replicate_add [symmetric])
  show ?thesis
    unfolding InitSipKeys_def Let_def w bindr_simps v r prod.case ..
qed

lemma kdf_new_zero:
  assumes "kdf_new L P rl (Some s) = Inr (k, s')" and "\<And>s n h. hs_get_hash L s n = Inr h \<Longrightarrow> length h = n"
  shows "key_pt1_ab k = replicate 8 0 \<and> key_pt2_ab k = replicate 8 0 \<and> iv_ab k = replicate 8 0
    \<and> key_pt1_ba k = replicate 8 0 \<and> key_pt2_ba k = replicate 8 0 \<and> iv_ba k = replicate 8 0"
  using assms by (auto simp: kdf_new_def Let_def result_simps get_handshake_hash_def noise_result_Inr_iff InitSipKeys_zero)

text \<open>The cipher states: the initiator of the data phase receives with what it writes.\<close>

lemma kdf_new_ciphers:
  assumes "kdf_new L P rl (Some s) = Inr (k, s')" and "\<And>s n h. hs_get_hash L s n = Inr h \<Longrightarrow> length h = n"
  shows "\<exists>snd_cs rcv_cs temp s1. hs_split_save L s 32 = Inr (snd_cs, rcv_cs, temp, s1)
    \<and> cipherstate (write_dir rl) k = rcv_cs \<and> cipherstate (read_dir rl) k = snd_cs"
  using assms
  by (auto simp: kdf_new_def Let_def result_simps get_handshake_hash_def noise_split_def noise_result_Inr_iff
      InitSipKeys_zero cipherstate_def write_dir_def read_dir_def split: if_splits)

section \<open>A message sent and received\<close>

text \<open>Two sides that hold the same length keys for a direction.\<close>

definition same_sip_keys :: "dir \<Rightarrow> 'c dp_kdf \<Rightarrow> 'c dp_kdf \<Rightarrow> bool" where
  "same_sip_keys d k l \<longleftrightarrow> (case d of
     AliceToBob \<Rightarrow> key_pt1_ab k = key_pt1_ab l \<and> key_pt2_ab k = key_pt2_ab l \<and> iv_ab k = iv_ab l
   | BobToAlice \<Rightarrow> key_pt1_ba k = key_pt1_ba l \<and> key_pt2_ba k = key_pt2_ba l \<and> iv_ba k = iv_ba l)"

lemma cipherstate_set [simp]:
  "cipherstate d (set_cipherstate d c k) = c"
  "same_sip_keys e (set_cipherstate d c k) l \<longleftrightarrow> same_sip_keys e k l"
  "same_sip_keys e k (set_cipherstate d c l) \<longleftrightarrow> same_sip_keys e k l"
  by (simp_all add: same_sip_keys_def set_cipherstate_def cipherstate_def split: dir.splits)

lemma ProcessLength_twice:
  assumes "ProcessLength P len d k = Inr (x, k')" "same_sip_keys d k l"
  shows "\<exists>l'. ProcessLength P x d l = Inr (len, l') \<and> cipherstate d l' = cipherstate d l \<and> same_sip_keys d k' l'
    \<and> cipherstate d k' = cipherstate d k"
  using assms
  by (auto simp: ProcessLength_def DeriveMask_def result_simps cipherstate_def same_sip_keys_def xor.assoc
      split: dir.splits)

lemma dp_Write_Inr:
  assumes "dp_Write L P V rl m k = Inr (m', k')"
  defines "len \<equiv> word_of_nat (dm_size m) + 16 :: u16" and "d \<equiv> write_dir rl"
  shows "\<exists>olen k1 m2 buf c. ProcessLength P len d k = Inr (olen, k1)
    \<and> dm_serialize V (m\<lparr>dm_buf := be_of_word olen @ drop 2 (sec_resize (2 + unat len) (dm_buf m))\<rparr>) = Inr m2
    \<and> noise_encrypt L (cipherstate d k1) 2 (length (dm_buf m2) - 2) (dm_buf m2) (Ex ''DataPhase'' ''Write'') = Inr (buf, c)
    \<and> m' = m2\<lparr>dm_buf := buf\<rparr> \<and> k' = set_cipherstate d c k1 \<and> (word_of_nat (dm_size m) :: u16) \<noteq> 0"
proof -
  have nz: "(word_of_nat (dm_size m) :: u16) \<noteq> 0"
    using assms(1) by (auto simp: dp_Write_def Let_def split: if_splits)
  obtain x where x: "ProcessLength P len d k = Inr x"
    using assms(1) nz unfolding dp_Write_def Let_def len_def d_def
    by (cases "ProcessLength P (word_of_nat (dm_size m) + 16) (write_dir rl) k") simp_all
  obtain olen k1 where ok: "x = (olen, k1)" by (cases x)
  let ?b = "be_of_word olen @ drop 2 (sec_resize (2 + unat len) (dm_buf m))"
  have rw: "raw_write_bytes (be_of_word olen) (Some (sec_resize (2 + unat len) (dm_buf m))) = Inr ?b"
    by (simp add: raw_write_bytes_def)
  have "bindr (dm_serialize V (m\<lparr>dm_buf := ?b\<rparr>)) (\<lambda>m.
      bindr (noise_encrypt L (cipherstate d k1) 2 (length (dm_buf m) - 2) (dm_buf m) (Ex ''DataPhase'' ''Write'')) (\<lambda>(buf, c).
        Inr (m\<lparr>dm_buf := buf\<rparr>, set_cipherstate d c k1))) = Inr (m', k')"
    using assms(1) rw unfolding dp_Write_def Let_def if_not_P [OF nz] SizeLen_def len_def [symmetric] d_def [symmetric]
      x ok bindr_simps prod.case data_message.simps by simp
  then show ?thesis using x ok nz by (fastforce simp: bindr_Inr_iff)
qed

lemma dp_Read_eq:
  assumes "18 \<le> length (dm_buf r)" "length (dm_buf r) \<le> MsgMaxLen"
    and "(if deobfs then ProcessLength P (word_of_be (take 2 (dm_buf r))) (read_dir rl) l
          else Inr (word_of_be (take 2 (dm_buf r)), l)) = Inr (len, l1)"
    and "0 < sint (len - 16)"
    and "noise_decrypt L (cipherstate (read_dir rl) l1) 2 (unat len) (dm_buf r) (Ex ''DataPhase'' ''Read'') = Inr (buf, c)"
    and "dm_deserialize W (r\<lparr>dm_buf := sec_resize (2 + unat len) buf\<rparr>) = Inr r'"
  shows "dp_Read L P W rl deobfs r l = Inr (r', set_cipherstate (read_dir rl) c l1)"
proof -
  have g: "\<not> (length (dm_buf r) < MsgMinLen \<or> MsgMaxLen < length (dm_buf r))"
    using assms(1,2) by (simp add: dm_sizes)
  have rr: "raw_read_bytes 2 (Some (dm_buf r)) = Inr (take 2 (dm_buf r))"
    using assms(1) by (simp add: raw_read_bytes_def)
  have w: "(word_of_int (int (unat len) - 16) :: u16) = len - 16" by simp
  have g2: "\<not> sint (word_of_int (int (unat len) - 16) :: u16) \<le> 0" unfolding w using assms(4) by simp
  have g3: "\<not> MsgMaxLen - 2 < unat len" using unat_bound [of len] by (simp add: dm_sizes)
  show ?thesis
    unfolding dp_Read_def Let_def if_not_P [OF g] rr bindr_simps assms(3) prod.case if_not_P [OF g2]
      if_not_P [OF g3] SizeLen_def assms(5,6) ..
qed


lemma length_u16: "n \<le> 65519 \<Longrightarrow> unat (word_of_nat n + 16 :: u16) = n + 16"
  using u16_small [of "n + 16"] by simp

lemma sint_small: "n \<le> 32767 \<Longrightarrow> sint (word_of_nat n :: u16) = int n"
proof -
  assume n: "n \<le> 32767"
  then have "int (unat (word_of_nat n :: u16)) = int n" using u16_small [of n] by simp
  then have "uint (word_of_nat n :: u16) = int n" by (simp only: uint_nat)
  then show ?thesis using n by (simp add: sint_uint signed_take_bit_int_eq_self)
qed

text \<open>Decryption leaves the bytes in front of what it decrypts.\<close>

lemma noise_decrypt_head:
  assumes "noise_decrypt L c off n b ex = Inr (x, c')" "length h = off"
  shows "noise_decrypt L c off n (h @ drop off b) ex = Inr (h @ drop off x, c')"
proof -
  obtain p where "cs_decrypt L c (take n (drop off b)) = Inr (p, c')" "x = overwrite off p b" "off + n \<le> length b"
    using assms(1) by (auto simp: noise_decrypt_def result_simps noise_result_Inr_iff split: if_splits)
  then show ?thesis using assms(2) by (simp add: noise_decrypt_def overwrite_def add.commute)
qed

text \<open>
  What a side writes: the length, the frames of the blocks and space for a tag, then encrypted.
\<close>

lemma dp_write_frames:
  assumes wr: "dp_Write L P V rl m k = Inr (m', k')" and size: "dm_size m \<le> 32767" "dm_size m' = dm_size m"
    and sized: "\<And>i. i < length (dm_blocks m) \<Longrightarrow> data_sized (V i) (dm_blocks m ! i)"
  obtains olen k1 pre c where "ProcessLength P (word_of_nat (dm_size m) + 16) (write_dir rl) k = Inr (olen, k1)"
    "noise_encrypt L (cipherstate (write_dir rl) k1) 2 (16 + dm_size m) pre (Ex ''DataPhase'' ''Write'') = Inr (dm_buf m', c)"
    "k' = set_cipherstate (write_dir rl) c k1" "length pre = 2 + (16 + dm_size m)" "0 < dm_size m"
    "take (2 + dm_size m) pre = be_of_word olen @ concat (map val_frame (map data_view (dm_blocks m')))"
    "length (concat (map val_frame (map data_view (dm_blocks m')))) = dm_size m"
    "data_order_seq (map val_type (map data_view (dm_blocks m')))"
proof -
  let ?d = "write_dir rl" and ?n = "dm_size m" and ?fs = "concat (map val_frame (map data_view (dm_blocks m')))"
  let ?len = "word_of_nat ?n + 16 :: u16"
  have ul: "unat ?len = ?n + 16" using size(1) by (intro length_u16) simp
  obtain olen k1 m2 b c where w: "ProcessLength P ?len ?d k = Inr (olen, k1)"
    "dm_serialize V (m\<lparr>dm_buf := be_of_word olen @ drop 2 (sec_resize (2 + unat ?len) (dm_buf m))\<rparr>) = Inr m2"
    "noise_encrypt L (cipherstate ?d k1) 2 (length (dm_buf m2) - 2) (dm_buf m2) (Ex ''DataPhase'' ''Write'') = Inr (b, c)"
    "m' = m2\<lparr>dm_buf := b\<rparr>" "(word_of_nat ?n :: u16) \<noteq> 0" "k' = set_cipherstate ?d c k1"
    using dp_Write_Inr [OF wr] by blast
  define b1 where "b1 = be_of_word olen @ drop 2 (sec_resize (2 + unat ?len) (dm_buf m))"
  have l1: "length b1 = 18 + ?n" "take 2 b1 = be_of_word olen" by (simp_all add: b1_def ul)
  have npos: "0 < ?n" using w(5) by (cases ?n) simp_all
  let ?m1 = "m\<lparr>dm_buf := b1\<rparr>"
  have sz1: "dm_size ?m1 = ?n" "dm_blocks ?m1 = dm_blocks m" by (simp_all add: dm_size_def)
  have room: "dm_room ?m1 = b1" using l1 sz1(1) by (simp add: dm_room_def sec_resize_def)
  note fr = dm_serialize_frames [OF w(2) [folded b1_def], unfolded sz1(2), OF sized]
  have fs: "frames (dm_blocks m2) = ?fs" using w(4) by (simp add: comp_def)
  have fl: "length ?fs = ?n" using fr(2) size(2) w(4) fs by (simp add: dm_size_def)
  have b2: "dm_buf m2 = be_of_word olen @ ?fs @ drop (2 + ?n) b1"
    using fr(1) unfolding fs room fl l1(2) by simp
  have l2: "length (dm_buf m2) = 2 + (16 + ?n)" unfolding b2 length_append fl using l1(1) by simp
  have t2: "take (2 + ?n) (dm_buf m2) = be_of_word olen @ ?fs" unfolding b2 using fl by simp
  show ?thesis by (rule that [OF w(1) _ w(6) l2 npos t2 fl]) (use w(3,4) l2 fr(4) in \<open>simp_all add: comp_def\<close>)
qed

text \<open>What a side reads: the frames that decryption gives it after any two bytes of length.\<close>

lemma dp_read_frames:
  fixes vs :: "block_val list"
  defines "fs \<equiv> concat (map val_frame vs)"
  assumes r: "dm_buf r = h @ drop 2 b" "length h = 2" "length b = 18 + length fs" "0 < length fs" "length fs \<le> 32767"
    and len: "unat len = length fs + 16" "(if deobfs then ProcessLength P (word_of_be h) (read_dir rl) l else Inr (word_of_be h, l)) = Inr (len, l1)"
    and dec: "noise_decrypt L (cipherstate (read_dir rl) l1) 2 (16 + length fs) b (Ex ''DataPhase'' ''Read'') =
      Inr (h0 @ fs @ drop (2 + length fs) b, c)" "length h0 = 2"
    and ok: "\<And>i. i < length vs \<Longrightarrow> val_ok (W i) (vs ! i)" "data_order_seq (map val_type vs)"
  obtains r' where "dp_Read L P W rl deobfs r l = Inr (r', set_cipherstate (read_dir rl) c l1)" "map data_view (dm_blocks r') = vs"
proof -
  let ?n = "length fs" and ?pt = "h @ fs @ drop (2 + length fs) b"
  have d: "noise_decrypt L (cipherstate (read_dir rl) l1) 2 (unat len) (dm_buf r) (Ex ''DataPhase'' ''Read'') = Inr (?pt, c)"
    using noise_decrypt_head [OF dec(1) r(2)] dec(2) unfolding r(1) len(1) by (simp add: add.commute)
  have lpt: "length ?pt = 18 + ?n" using r(2,3) by simp
  have "length (drop (2 + ?n) b) = 16" using r(3) by simp
  then obtain bs where bs: "dm_deserialize W (r\<lparr>dm_buf := ?pt\<rparr>) = Inr (r\<lparr>dm_buf := ?pt, dm_blocks := bs\<rparr>)" "map data_view bs = vs"
    using dm_deserialize_frames [of "r\<lparr>dm_buf := ?pt\<rparr>" h vs "drop (2 + ?n) b" W] ok r(2) by (auto simp: fs_def)
  have "dp_Read L P W rl deobfs r l = Inr (r\<lparr>dm_buf := ?pt, dm_blocks := bs\<rparr>, set_cipherstate (read_dir rl) c l1)"
  proof (rule dp_Read_eq [OF _ _ _ _ d])
    show "18 \<le> length (dm_buf r)" "length (dm_buf r) \<le> MsgMaxLen" using r by (simp_all add: dm_sizes)
    show "(if deobfs then ProcessLength P (word_of_be (take 2 (dm_buf r))) (read_dir rl) l
      else Inr (word_of_be (take 2 (dm_buf r)), l)) = Inr (len, l1)" using len(2) r(1,2) by (auto split: if_splits)
    have "len = word_of_nat (unat len)" by simp
    then have "len - 16 = word_of_nat ?n" unfolding len(1) by simp
    then show "0 < sint (len - 16)" using sint_small [OF r(5)] r(4) by simp
    show "dm_deserialize W (r\<lparr>dm_buf := sec_resize (2 + unat len) ?pt\<rparr>) = Inr (r\<lparr>dm_buf := ?pt, dm_blocks := bs\<rparr>)"
      using bs(1) lpt len(1) by (simp add: sec_resize_def)
  qed
  then show ?thesis using that bs(2) by simp
qed

text \<open>
  A message that one side writes and the other side reads: the values of the blocks arrive,
  when the message has at most 32767 bytes and every block is acceptable to the reader.
\<close>

lemma dp_write_reads:
  assumes wr: "dp_Write L P V rl m k = Inr (m', k')"
    and dir: "read_dir rl' = write_dir rl"
    and keys: "same_sip_keys (write_dir rl) k l" "cs_pair L R (cipherstate (write_dir rl) k) (cipherstate (write_dir rl) l)"
    and size: "dm_size m \<le> 32767" "dm_size m' = dm_size m"
    and sized: "\<And>i. i < length (dm_blocks m) \<Longrightarrow> data_sized (V i) (dm_blocks m ! i)"
    and ok: "\<And>i. i < length (dm_blocks m') \<Longrightarrow> val_ok (W i) (data_view (dm_blocks m' ! i))"
  obtains len l1 where "ProcessLength P (word_of_be (take 2 (dm_buf m'))) (write_dir rl) l = Inr (len, l1)"
    "length (dm_buf m') = 2 + unat len" "16 < unat len"
    "\<And>deobfs r. dm_buf r = (if deobfs then dm_buf m' else be_of_word len @ drop 2 (dm_buf m')) \<Longrightarrow>
       \<exists>r' l'. dp_Read L P W rl' deobfs r (if deobfs then l else l1) = Inr (r', l')
         \<and> map data_view (dm_blocks r') = map data_view (dm_blocks m')
         \<and> same_sip_keys (write_dir rl) k' l' \<and> R (cipherstate (write_dir rl) k') (cipherstate (write_dir rl) l')"
proof -
  let ?d = "write_dir rl" and ?n = "dm_size m" and ?b = "dm_buf m'" and ?vs = "map data_view (dm_blocks m')"
  let ?len = "word_of_nat ?n + 16 :: u16" and ?fs = "concat (map val_frame ?vs)"
  have ul: "unat ?len = ?n + 16" using size(1) by (intro length_u16) simp
  obtain olen k1 pre c where w: "ProcessLength P ?len ?d k = Inr (olen, k1)"
    "noise_encrypt L (cipherstate ?d k1) 2 (16 + ?n) pre (Ex ''DataPhase'' ''Write'') = Inr (?b, c)"
    "k' = set_cipherstate ?d c k1" "length pre = 2 + (16 + ?n)" "0 < ?n"
    "take (2 + ?n) pre = be_of_word olen @ ?fs" "length ?fs = ?n" "data_order_seq (map val_type ?vs)"
    by (rule dp_write_frames [OF wr size sized])
  obtain l' where l': "ProcessLength P olen ?d l = Inr (?len, l')" "cipherstate ?d l' = cipherstate ?d l"
    "cipherstate ?d k1 = cipherstate ?d k" "same_sip_keys ?d k1 l'"
    using ProcessLength_twice [OF w(1) keys(1)] by blast
  have pair: "cs_pair L R (cipherstate ?d k1) (cipherstate ?d l')" using keys(2) l'(2,3) by simp
  have t16: "2 + (16 + ?n) - 16 = 2 + ?n" by simp
  obtain c2 where c2: "noise_decrypt L (cipherstate ?d l') 2 (16 + ?n) ?b (Ex ''DataPhase'' ''Read'') =
      Inr (be_of_word olen @ ?fs @ drop (2 + ?n) ?b, c2)" "length ?b = length pre" "take 2 ?b = take 2 pre" "R c c2"
    using noise_encrypt_decrypt [OF pair w(4,2), of "Ex ''DataPhase'' ''Read''"] unfolding t16 w(6) by auto
  have "take 2 pre = take 2 (take (2 + ?n) pre)" by (simp only: take_take min_absorb1 le_add1)
  then have b: "take 2 ?b = be_of_word olen" "length ?b = 18 + ?n" using c2(2,3) w(4) unfolding w(6) by simp_all
  have bt: "be_of_word olen @ drop 2 ?b = ?b" using append_take_drop_id [of 2 ?b] b(1) by simp
  have pl: "ProcessLength P (word_of_be (take 2 ?b)) ?d l = Inr (?len, l')" unfolding b(1) using l'(1) by simp
  have rd: "\<exists>r' l2. dp_Read L P W rl' deobfs r (if deobfs then l else l') = Inr (r', l2) \<and> map data_view (dm_blocks r') = ?vs
      \<and> same_sip_keys ?d k' l2 \<and> R (cipherstate ?d k') (cipherstate ?d l2)"
    if r: "dm_buf r = (if deobfs then ?b else be_of_word ?len @ drop 2 ?b)" for deobfs r
  proof -
    let ?h = "if deobfs then be_of_word olen else be_of_word ?len"
    have rb: "dm_buf r = ?h @ drop 2 ?b" using r bt by simp
    have ln: "(if deobfs then ProcessLength P (word_of_be ?h) (read_dir rl') (if deobfs then l else l')
        else Inr (word_of_be ?h, if deobfs then l else l')) = Inr (?len, l')" using l'(1) dir by simp
    obtain r' where "dp_Read L P W rl' deobfs r (if deobfs then l else l') = Inr (r', set_cipherstate (read_dir rl') c2 l')"
      "map data_view (dm_blocks r') = ?vs"
      by (rule dp_read_frames [OF rb _ _ _ _ _ ln, of ?vs L "be_of_word olen" c2 W])
        (use w(5,7,8) b(2) size(1) ul c2(1) dir ok in simp_all)
    then show ?thesis using w(3) c2(4) l'(4) dir by auto
  qed
  show ?thesis by (rule that [OF pl _ _ rd]) (use b ul w(5) in simp_all)
qed

lemma dp_write_read:
  assumes "dp_Write L P V rl m k = Inr (m', k')"
    and "read_dir rl' = write_dir rl"
    and "same_sip_keys (write_dir rl) k l" "cs_pair L R (cipherstate (write_dir rl) k) (cipherstate (write_dir rl) l)"
    and "dm_size m \<le> 32767" "dm_size m' = dm_size m"
    and "\<And>i. i < length (dm_blocks m) \<Longrightarrow> data_sized (V i) (dm_blocks m ! i)"
    and "\<And>i. i < length (dm_blocks m') \<Longrightarrow> val_ok (W i) (data_view (dm_blocks m' ! i))"
    and "dm_buf r = dm_buf m'"
  shows "\<exists>r' l'. dp_Read L P W rl' True r l = Inr (r', l')
    \<and> map data_view (dm_blocks r') = map data_view (dm_blocks m')
    \<and> same_sip_keys (write_dir rl) k' l' \<and> R (cipherstate (write_dir rl) k') (cipherstate (write_dir rl) l')"
  apply (rule dp_write_reads [OF assms(1-6)])
    apply (erule assms(7))
   apply (erule assms(8))
  subgoal premises p for len l1 using p(4) [of r True] assms(9) by simp
  done

text \<open>
  A length of 32784 or more is negative as a signed number: the message is dropped as if it
  were empty. Nothing is decrypted, but the IV of the length has been advanced.
\<close>

lemma sint_negative: "32768 \<le> unat (w::u16) \<Longrightarrow> sint w < 0"
proof -
  assume big: "32768 \<le> unat w"
  have "int 32768 \<le> int (unat w)" using big by (simp only: of_nat_le_iff)
  then have "32768 \<le> uint w" by simp
  moreover have "uint w < 65536" using unsigned_less [of w, where 'a = int] by simp
  ultimately have u: "32768 \<le> uint w" "uint w < 65536" by simp_all
  have "(uint w - 32768 + 65536) mod 65536 = (uint w - 32768) mod 65536" by (rule mod_add_self2)
  also have "\<dots> = uint w - 32768" using u by (intro mod_pos_pos_trivial) simp_all
  finally have m: "(uint w + 32768) mod 65536 = uint w - 32768" by (simp add: add.commute)
  have "sint w = take_bit (Suc 15) (uint w + 2 ^ 15) - 2 ^ 15"
    by (simp only: sint_uint signed_take_bit_eq_take_bit_shift) simp
  also have "\<dots> = uint w - 65536"
    using m by (simp add: take_bit_eq_mod)
  finally show ?thesis using u by simp
qed

lemma dp_Read_drops:
  assumes "MsgMinLen \<le> length (dm_buf m)" "length (dm_buf m) \<le> MsgMaxLen"
    and "(if deobfs then ProcessLength P (word_of_be (take 2 (dm_buf m))) (read_dir rl) k
          else Inr (word_of_be (take 2 (dm_buf m)), k)) = Inr (len, k1)"
    and "32784 \<le> unat len"
  shows "dp_Read L P V rl deobfs m k = Inr (m, k1)"
proof -
  have g: "\<not> (length (dm_buf m) < MsgMinLen \<or> MsgMaxLen < length (dm_buf m))"
    using assms(1,2) by simp
  have rr: "raw_read_bytes 2 (Some (dm_buf m)) = Inr (take 2 (dm_buf m))"
    using assms(1) by (simp add: raw_read_bytes_def dm_sizes)
  have w: "(word_of_int (int (unat len) - 16) :: u16) = len - 16" by simp
  have "16 \<le> len" using assms(4) by (simp add: word_le_nat_alt)
  then have "unat (len - 16) = unat len - 16" by (simp add: unat_sub)
  then have "sint (len - 16) < 0" using assms(4) by (intro sint_negative) simp
  then have g2: "sint (word_of_int (int (unat len) - 16) :: u16) \<le> 0" unfolding w by simp
  show ?thesis
    unfolding dp_Read_def Let_def if_not_P [OF g] rr bindr_simps assms(3) prod.case if_P [OF g2] ..
qed

text \<open>
  The length is not compared with the size of the buffer: decryption then leaves the buffer.
\<close>

lemma dp_Read_overrun:
  assumes "MsgMinLen \<le> length (dm_buf m)" "length (dm_buf m) \<le> MsgMaxLen"
    and "word_of_be (take 2 (dm_buf m)) = (len :: u16)"
    and "16 < unat len" "unat len < 32784" "length (dm_buf m) < 2 + unat len"
  shows "is_ub (dp_Read L P V rl False m k)"
proof -
  have rr: "raw_read_bytes 2 (Some (dm_buf m)) = Inr (take 2 (dm_buf m))"
    using assms(1) by (simp add: raw_read_bytes_def dm_sizes)
  have w: "(word_of_int (int (unat len) - 16) :: u16) = word_of_nat (unat len - 16)"
    using assms(4) by (simp add: of_nat_diff)
  have "sint (word_of_nat (unat len - 16) :: u16) = int (unat len - 16)"
    using assms(5) by (intro sint_small) simp
  then have g2: "\<not> sint (word_of_int (int (unat len) - 16) :: u16) \<le> 0" unfolding w using assms(4) by linarith
  have d: "noise_decrypt L c 2 (unat len) (dm_buf m) ex =
      Inl (Undefined_behaviour ''decryption past the end of the buffer'')" for c ex
    using assms(6) by (simp add: noise_decrypt_def)
  have g: "\<not> (length (dm_buf m) < MsgMinLen \<or> MsgMaxLen < length (dm_buf m))"
    using assms(1,2) by simp
  have g3: "\<not> MsgMaxLen - 2 < unat len" using assms(5) by (simp add: dm_sizes)
  show ?thesis
    unfolding dp_Read_def Let_def if_not_P [OF g] rr bindr_simps if_False assms(3) prod.case if_not_P [OF g2]
      SizeLen_def if_not_P [OF g3] d by simp
qed

text \<open>The index check of \<open>get_block\<close> lets the number of blocks through.\<close>

lemma dm_get_block_ub_iff: "is_ub (dm_get_block i m) \<longleftrightarrow> i = length (dm_blocks m)"
  by (auto simp: dm_get_block_def)

lemma dm_find_block_Some:
  "dm_find_block t m = Some b \<longleftrightarrow>
     (\<exists>i < length (dm_blocks m). dm_blocks m ! i = b \<and> data_type b = t
        \<and> (\<forall>j < i. data_type (dm_blocks m ! j) \<noteq> t))"
  by (auto simp: dm_find_block_def find_Some_iff)

text \<open>
  Adding a block that violates the order throws and leaves the block in the message, which
  can then not be serialized any more.
\<close>

lemma dm_serialize_order:
  "dm_serialize V m = Inr m' \<Longrightarrow>
     \<exists>u. CheckBlockOrder_data (dm_blocks m) (Ex ''DataPhase: Message'' ''serialize'') = Inr u"
  unfolding dm_serialize_def Let_def
  by (cases "CheckBlockOrder_data (dm_blocks m) (Ex ''DataPhase: Message'' ''serialize'')")
    (auto simp: bindr_Inr_iff split: if_splits)

lemma dm_add_block_poisons:
  assumes "dm_add_block b m = (m', Inl e)" "dm_blocks m' \<noteq> dm_blocks m"
  shows "\<exists>e. dm_serialize V m' = Inl e"
proof -
  obtain bs where a: "AddBlock copy_data CheckBlockOrder_data (dm_blocks m) b (Ex ''DataPhase: Message'' ''add_block'') = (bs, Inl e)"
    "m' = m\<lparr>dm_blocks := bs\<rparr>"
    using assms
    by (cases "AddBlock copy_data CheckBlockOrder_data (dm_blocks m) b (Ex ''DataPhase: Message'' ''add_block'')")
      (auto simp: dm_add_block_def Let_def split: if_splits)
  then have "CheckBlockOrder_data bs (Ex ''DataPhase: Message'' ''add_block'') = Inl e"
    using assms(2) by (auto simp: AddBlock_def split: sum.splits)
  then have "\<not> data_order_seq (map data_type bs)"
    using data_order_iff by (metis CheckBlockOrder_data_def Inl_Inr_False)
  then have c: "CheckBlockOrder_data bs ex \<noteq> Inr u" for ex u
    by (auto simp: CheckBlockOrder_data_def data_order_iff)
  have "dm_serialize V m' \<noteq> Inr x" for x
    using c a(2) dm_serialize_order [of V m' x] by auto
  then show ?thesis by (cases "dm_serialize V m'") auto
qed

section \<open>Writing succeeds\<close>

text \<open>A block that serializes, to the size it had before.\<close>

definition block_writes :: "block_env \<Rightarrow> data_variant \<Rightarrow> data_variant \<Rightarrow> bool" where
  "block_writes V b b' \<longleftrightarrow> data_serialize V b = Inr b' \<and> data_sized V b \<and> data_size b' = data_size b"

lemma block_writes_frame:
  "block_writes V b b' \<Longrightarrow> data_size b = length (val_frame (data_view b')) \<and> val_type (data_view b') = data_type b"
  using data_serialize_size [of V b b'] data_serialize_frame [of V b b'] data_serialize_type [of V b b']
  by (simp add: block_writes_def del: length_frame)

lemma write_blocks_total:
  assumes "length bs' = length bs" "\<And>i. i < length bs \<Longrightarrow> block_writes (V (k + i)) (bs ! i) (bs' ! i)"
    and "length ys + length (frames bs') \<le> length buf"
  shows "write_blocks V k bs (written ys buf) = Inr (bs', written (ys @ frames bs') buf)"
  using assms
proof (induction bs arbitrary: k ys bs')
  case (Cons b bs)
  obtain b' cs where bs': "bs' = b' # cs" using Cons.prems(1) by (cases bs') auto
  have b: "data_serialize (V k) b = Inr b'" "data_sized (V k) b"
    using Cons.prems(2) [of 0] by (simp_all add: bs' block_writes_def)
  have w: "WriteToBuffer data_buffer (data_serialize (V k)) (written ys buf) b =
      Inr (b', written (ys @ val_frame (data_view b')) buf)"
    using Cons.prems(3) by (intro data_blocks.write_room [OF b]) (simp add: bs')
  have "write_blocks V (Suc k) bs (written (ys @ val_frame (data_view b')) buf) =
      Inr (cs, written ((ys @ val_frame (data_view b')) @ frames cs) buf)"
    using Cons.prems Cons.prems(2) [of "Suc _"] by (intro Cons.IH) (simp_all add: bs')
  then show ?case by (simp add: w bs')
qed simp

lemma TotalSize_writes:
  assumes "length bs' = length bs" "\<And>i. i < length bs \<Longrightarrow> block_writes (V i) (bs ! i) (bs' ! i)"
  shows "TotalSize data_size bs = length (frames bs')" "TotalSize data_size bs' = length (frames bs')"
    "map (val_type \<circ> data_view) bs' = map data_type bs"
proof -
  have "data_size (bs ! i) = length (val_frame (data_view (bs' ! i)))
      \<and> data_size (bs' ! i) = length (val_frame (data_view (bs' ! i)))
      \<and> val_type (data_view (bs' ! i)) = data_type (bs ! i)" if "i < length bs" for i
    using block_writes_frame [OF assms(2) [OF that]] assms(2) [OF that] by (simp add: block_writes_def)
  then have "map data_size bs = map (length \<circ> (\<lambda>b. val_frame (data_view b))) bs'"
    "map data_size bs' = map (length \<circ> (\<lambda>b. val_frame (data_view b))) bs'"
    "map (val_type \<circ> data_view) bs' = map data_type bs"
    using assms(1) by (simp_all add: list_eq_iff_nth_eq del: length_frame)
  then show "TotalSize data_size bs = length (frames bs')" "TotalSize data_size bs' = length (frames bs')"
    "map (val_type \<circ> data_view) bs' = map data_type bs"
    unfolding TotalSize_def length_concat map_map by (simp_all only: comp_def)
qed

lemma dm_serialize_total:
  assumes "length bs' = length (dm_blocks m)"
    and "\<And>i. i < length (dm_blocks m) \<Longrightarrow> block_writes (V i) (dm_blocks m ! i) (bs' ! i)"
    and "data_order_seq (map data_type (dm_blocks m))" "dm_size m \<le> MsgMaxLen"
    and "2 + dm_size m \<le> length (dm_buf m)"
  shows "\<exists>buf. dm_serialize V m = Inr (m\<lparr>dm_blocks := bs', dm_buf := buf\<rparr>) \<and> length buf = length (dm_buf m)"
proof -
  have sz: "dm_size m = length (frames bs')"
    using TotalSize_writes(1) [OF assms(1,2)] by (simp add: dm_size_def del: length_frame)
  have c: "CheckBlockOrder_data (dm_blocks m) ex = Inr ()" for ex
    using assms(3) by (simp add: CheckBlockOrder_data_def data_order_iff)
  have g: "\<not> MsgMaxLen < dm_size m" "\<not> length (dm_buf m) < SizeLen + dm_size m"
    using assms(4,5) by (simp_all add: SizeLen_def)
  have sk: "skip_bytes SizeLen (bytes_on (dm_buf m)) = Inr (written (take 2 (dm_buf m)) (dm_buf m))"
    using assms(5) by (intro skip_SizeLen) simp
  have "write_blocks V 0 (dm_blocks m) (written (take 2 (dm_buf m)) (dm_buf m)) =
      Inr (bs', written (take 2 (dm_buf m) @ frames bs') (dm_buf m))"
    using assms(1,2,5) sz by (intro write_blocks_total) (simp_all del: length_frame)
  then show ?thesis
    unfolding dm_serialize_def Let_def if_not_P [OF g(1)] if_not_P [OF g(2)] sk bindr_simps c prod.case
    using assms(5) sz by (auto simp: written_sel length_overwrite_0 simp del: length_frame)
qed

definition sip_ok :: "dp_prims \<Rightarrow> 'c dp_kdf \<Rightarrow> bool" where
  "sip_ok P k \<longleftrightarrow> (\<forall>iv key. length (siphash P iv key) = 16)
     \<and> length (key_pt1_ab k) = 8 \<and> length (key_pt2_ab k) = 8 \<and> length (key_pt1_ba k) = 8 \<and> length (key_pt2_ba k) = 8"

lemma ProcessLength_total:
  assumes "sip_ok P k"
  shows "\<exists>x k'. ProcessLength P len d k = Inr (x, k') \<and> cipherstate e k' = cipherstate e k \<and> sip_ok P k'"
proof -
  have h: "SipHash_Hash P a b iv = Inr (siphash P iv (a @ b))" if "length a = 8" "length b = 8" for a b iv
    using that by (simp add: SipHash_Hash_def bytes_on_written write_data_fits fixed_default_def written_sel overwrite_def)
  have r: "raw_read_bytes 2 (Some (siphash P iv key)) = Inr (take 2 (siphash P iv key))" for iv key
    using assms by (simp add: raw_read_bytes_def sip_ok_def)
  have k: "length (key_pt1_ab k) = 8" "length (key_pt2_ab k) = 8" "length (key_pt1_ba k) = 8" "length (key_pt2_ba k) = 8"
    using assms by (simp_all add: sip_ok_def)
  let ?a = "siphash P (iv_ab k) (key_pt1_ab k @ key_pt2_ab k)" and ?b = "siphash P (iv_ba k) (key_pt1_ba k @ key_pt2_ba k)"
  have "ProcessLength P len d k = (case d of
      AliceToBob \<Rightarrow> Inr (len XOR word_of_be (take 2 ?a), k\<lparr>iv_ab := take (length (iv_ab k)) ?a\<rparr>)
    | BobToAlice \<Rightarrow> Inr (len XOR word_of_be (take 2 ?b), k\<lparr>iv_ba := take (length (iv_ba k)) ?b\<rparr>))"
    unfolding ProcessLength_def DeriveMask_def h [OF k(1,2)] h [OF k(3,4)] bindr_simps r prod.case
    by (cases d) simp_all
  moreover have "cipherstate e (k\<lparr>iv_ab := x\<rparr>) = cipherstate e k" "cipherstate e (k\<lparr>iv_ba := x\<rparr>) = cipherstate e k"
    "sip_ok P (k\<lparr>iv_ab := x\<rparr>)" "sip_ok P (k\<lparr>iv_ba := x\<rparr>)" for x
    using assms by (simp_all add: cipherstate_def sip_ok_def split: dir.split)
  ultimately show ?thesis by (cases d) auto
qed

lemma dp_Write_total:
  assumes "sip_ok P k" "\<And>p. \<exists>ct c'. cs_encrypt L (cipherstate (write_dir rl) k) p = Inr (ct, c')"
    and "length bs' = length (dm_blocks m)"
    and "\<And>i. i < length (dm_blocks m) \<Longrightarrow> block_writes (V i) (dm_blocks m ! i) (bs' ! i)"
    and "data_order_seq (map data_type (dm_blocks m))" "0 < dm_size m" "dm_size m \<le> 65519"
  shows "\<exists>m' k'. dp_Write L P V rl m k = Inr (m', k') \<and> dm_blocks m' = bs'"
proof -
  let ?d = "write_dir rl" and ?n = "dm_size m"
  have ul: "unat (word_of_nat ?n + 16 :: u16) = ?n + 16" using assms(7) by (rule length_u16)
  have nz: "(word_of_nat ?n :: u16) \<noteq> 0"
  proof
    assume "(word_of_nat ?n :: u16) = 0"
    then have "unat (word_of_nat ?n :: u16) = 0" by simp
    then show False using assms(6,7) u16_small [of ?n] by linarith
  qed
  obtain x k1 where x: "ProcessLength P (word_of_nat ?n + 16) ?d k = Inr (x, k1)" "cipherstate ?d k1 = cipherstate ?d k"
    using ProcessLength_total [OF assms(1)] by blast
  let ?b = "be_of_word x @ drop 2 (sec_resize (2 + (?n + 16)) (dm_buf m))"
  have rw: "raw_write_bytes (be_of_word x) (Some (sec_resize (2 + (?n + 16)) (dm_buf m))) = Inr ?b"
    by (simp add: raw_write_bytes_def)
  obtain buf where s: "dm_serialize V (m\<lparr>dm_buf := ?b\<rparr>) = Inr (m\<lparr>dm_buf := ?b, dm_blocks := bs', dm_buf := buf\<rparr>)"
    "length buf = ?n + 18"
    using dm_serialize_total [of bs' "m\<lparr>dm_buf := ?b\<rparr>" V] assms(3-7)
    by (auto simp: dm_size_def dm_sizes)
  obtain ct c' where ct: "cs_encrypt L (cipherstate ?d k) (take ?n (drop 2 buf)) = Inr (ct, c')"
    using assms(2) by blast
  have e: "noise_encrypt L (cipherstate ?d k) 2 (?n + 18 - 2) buf ex = Inr (overwrite 2 ct buf, c')" for ex
    using s(2) ct by (simp add: noise_encrypt_def)
  show ?thesis
    unfolding dp_Write_def Let_def if_not_P [OF nz] ul x(1) bindr_simps prod.case rw SizeLen_def
    using rw s e x(2) by (simp add: add.commute)
qed

text \<open>
  The reading loop ends: what it reads is bounded by the bytes of the buffer, and it keeps the
  blocks that it started with and the order of the blocks.
\<close>

lemma AddBlock_Inr:
  "AddBlock copy CheckBlockOrder_data bs b ex = (bs', Inr u) \<Longrightarrow>
     \<exists>b'. bs' = bs @ [b'] \<and> data_order_seq (map data_type bs')"
  by (auto simp: AddBlock_def CheckBlockOrder_data_def data_order_iff split: sum.splits)

lemma read_blocks_bound:
  "read_blocks V bs r = Inr bs' \<Longrightarrow> data_order_seq (map data_type bs) \<Longrightarrow>
     (\<exists>cs. bs' = bs @ cs \<and> 3 * length cs \<le> gcount r) \<and> data_order_seq (map data_type bs')"
proof (induction V bs r rule: read_blocks.induct)
  case (1 V bs r)
  show ?case
  proof (cases "gcount r \<le> 16")
    case True
    then show ?thesis using "1.prems" by (simp add: read_blocks.simps [of V bs r])
  next
    case False
    obtain b0 where b0: "dt_default (be_now (V (length bs))) = Inr b0" using dt_default_eq by blast
    let ?R = "ReadToBlock (TypeToBlock_data (V (length bs))) set_data_buffer (data_deserialize (V (length bs))) r
      (DDateTime b0) (Ex ''DataPhase'' ''deserialize'')"
    obtain b r' where rd: "?R = Inr (b, r')"
      using "1.prems"(1) False b0 by (cases ?R) (auto simp: read_blocks.simps [of V bs r] Let_def)
    obtain bs1 u where ad: "AddBlock copy_data CheckBlockOrder_data bs b (Ex ''DataPhase'' ''deserialize'') = (bs1, Inr u)"
      and rec: "read_blocks V bs1 r' = Inr bs'"
      using "1.prems"(1) False b0 rd
      by (auto simp: read_blocks.simps [of V bs r] Let_def split: prod.splits sum.splits)
    obtain b' where b': "bs1 = bs @ [b']" "data_order_seq (map data_type bs1)" using AddBlock_Inr [OF ad] by blast
    have "(\<exists>cs. bs' = bs1 @ cs \<and> 3 * length cs \<le> gcount r') \<and> data_order_seq (map data_type bs')"
      using "1.IH" [OF refl refl False b0 rd refl ad [symmetric] refl rec b'(2)]  .
    then obtain cs where "bs' = bs @ b' # cs" "3 * length cs \<le> gcount r'" "data_order_seq (map data_type bs')"
      using b'(1) by auto
    then show ?thesis using ReadToBlock_header [OF rd] by (intro conjI exI [of _ "b' # cs"]) simp_all
  qed
qed

section \<open>A conversation\<close>

lemma dp_Write_sip:
  assumes "dp_Write L P V rl m k = Inr (m', k')" "sip_ok P k"
  shows "sip_ok P k'"
proof -
  obtain olen k1 c where w: "ProcessLength P (word_of_nat (dm_size m) + 16) (write_dir rl) k = Inr (olen, k1)"
    "k' = set_cipherstate (write_dir rl) c k1"
    using dp_Write_Inr [OF assms(1)] by blast
  then have "sip_ok P k1"
    using ProcessLength_total [OF assms(2), of "word_of_nat (dm_size m) + 16" "write_dir rl"] by auto
  then show ?thesis by (simp add: w(2) sip_ok_def set_cipherstate_def split: dir.splits)
qed

text \<open>
  The messages that one side writes, each with what its blocks draw from outside, and the other
  side reading their buffers one after the other.
\<close>

fun write_all ::
  "('s, 'c) noise_lib \<Rightarrow> dp_prims \<Rightarrow> role \<Rightarrow> ((nat \<Rightarrow> block_env) \<times> data_message) list \<Rightarrow> 'c dp_kdf
     \<Rightarrow> (data_message list \<times> 'c dp_kdf) result" where
  "write_all L P rl [] k = Inr ([], k)"
| "write_all L P rl ((V, m) # ms) k =
     bindr (dp_Write L P V rl m k) (\<lambda>(m, k).
     bindr (write_all L P rl ms k) (\<lambda>(ms, k). Inr (m # ms, k)))"

fun read_all ::
  "('s, 'c) noise_lib \<Rightarrow> dp_prims \<Rightarrow> (nat \<Rightarrow> block_env) \<Rightarrow> role \<Rightarrow> byte list list \<Rightarrow> data_message \<Rightarrow> 'c dp_kdf
     \<Rightarrow> (data_message list \<times> 'c dp_kdf) result" where
  "read_all L P W rl [] r k = Inr ([], k)"
| "read_all L P W rl (b # bs) r k =
     bindr (dp_Read L P W rl True (r\<lparr>dm_buf := b\<rparr>) k) (\<lambda>(r, k).
     bindr (read_all L P W rl bs r k) (\<lambda>(rs, k). Inr (r # rs, k)))"

text \<open>
  A message that can be sent: its blocks serialize, to values the reader accepts, in an order
  that the protocol allows, and it is neither empty nor longer than 32767 bytes.
\<close>

definition sendable :: "(nat \<Rightarrow> block_env) \<Rightarrow> (nat \<Rightarrow> block_env) \<times> data_message \<Rightarrow> bool" where
  "sendable W vm \<longleftrightarrow> (case vm of (V, m) \<Rightarrow>
     data_order_seq (map data_type (dm_blocks m)) \<and> 0 < dm_size m \<and> dm_size m \<le> 32767
     \<and> (\<forall>i < length (dm_blocks m). \<exists>b'. block_writes (V i) (dm_blocks m ! i) b' \<and> val_ok (W i) (data_view b')))"

lemma sendable_sent:
  assumes "sendable W (V, m)" "sip_ok P k" "same_sip_keys (write_dir rl) k l" "read_dir rl' = write_dir rl"
    and "cs_synced L (Suc n) (cipherstate (write_dir rl) k) (cipherstate (write_dir rl) l)"
  shows "\<exists>m' k' r' l'. dp_Write L P V rl m k = Inr (m', k')
    \<and> dp_Read L P W rl' True (r\<lparr>dm_buf := dm_buf m'\<rparr>) l = Inr (r', l')
    \<and> map data_view (dm_blocks r') = map data_view (dm_blocks m')
    \<and> sip_ok P k' \<and> same_sip_keys (write_dir rl) k' l'
    \<and> cs_synced L n (cipherstate (write_dir rl) k') (cipherstate (write_dir rl) l')"
proof -
  let ?bs = "dm_blocks m"
  have m: "data_order_seq (map data_type ?bs)" "0 < dm_size m" "dm_size m \<le> 32767"
    using assms(1) by (simp_all add: sendable_def)
  obtain f where f: "\<And>i. i < length ?bs \<Longrightarrow> block_writes (V i) (?bs ! i) (f i) \<and> val_ok (W i) (data_view (f i))"
    using assms(1) by (auto simp: sendable_def) metis
  let ?cs = "map f [0..<length ?bs]"
  have cs: "length ?cs = length ?bs" "\<And>i. i < length ?bs \<Longrightarrow> block_writes (V i) (?bs ! i) (?cs ! i)"
    "\<And>i. i < length ?cs \<Longrightarrow> val_ok (W i) (data_view (?cs ! i))"
    using f by simp_all
  have enc: "\<And>p. \<exists>ct c'. cs_encrypt L (cipherstate (write_dir rl) k) p = Inr (ct, c')"
    "cs_pair L (cs_synced L n) (cipherstate (write_dir rl) k) (cipherstate (write_dir rl) l)"
    using assms(5) by auto
  have "dm_size m \<le> 65519" using m(3) by simp
  then obtain m' k' where w: "dp_Write L P V rl m k = Inr (m', k')" "dm_blocks m' = ?cs"
    using dp_Write_total [OF assms(2) enc(1) cs(1,2) m(1,2)] by blast
  have sz: "dm_size m' = dm_size m"
    using TotalSize_writes(1,2) [OF cs(1,2)] w(2) by (simp add: dm_size_def del: length_frame)
  have sized: "\<And>i. i < length ?bs \<Longrightarrow> data_sized (V i) (?bs ! i)"
    using cs(2) by (simp add: block_writes_def)
  have "\<exists>r' l'. dp_Read L P W rl' True (r\<lparr>dm_buf := dm_buf m'\<rparr>) l = Inr (r', l')
    \<and> map data_view (dm_blocks r') = map data_view (dm_blocks m')
    \<and> same_sip_keys (write_dir rl) k' l' \<and> cs_synced L n (cipherstate (write_dir rl) k') (cipherstate (write_dir rl) l')"
    using cs(3) w(2) by (intro dp_write_read [OF w(1) assms(4,3) enc(2) m(3) sz sized]) simp_all
  then show ?thesis using w(1) dp_Write_sip [OF w(1) assms(2)] by blast
qed

lemma all_sent:
  assumes "list_all (sendable W) ms" "sip_ok P k" "same_sip_keys (write_dir rl) k l" "read_dir rl' = write_dir rl"
    and "cs_synced L (length ms) (cipherstate (write_dir rl) k) (cipherstate (write_dir rl) l)"
  shows "\<exists>ms' k' rs l'. write_all L P rl ms k = Inr (ms', k')
    \<and> read_all L P W rl' (map dm_buf ms') r l = Inr (rs, l')
    \<and> map (map data_view \<circ> dm_blocks) rs = map (map data_view \<circ> dm_blocks) ms'"
  using assms(1,2,3,5)
proof (induction ms arbitrary: k l r)
  case (Cons vm ms)
  obtain V m where vm: "vm = (V, m)" by (cases vm)
  have s: "sendable W (V, m)" "list_all (sendable W) ms" using Cons.prems(1) by (simp_all add: vm)
  obtain m' k' r' l' where one: "dp_Write L P V rl m k = Inr (m', k')"
    "dp_Read L P W rl' True (r\<lparr>dm_buf := dm_buf m'\<rparr>) l = Inr (r', l')"
    "map data_view (dm_blocks r') = map data_view (dm_blocks m')" "sip_ok P k'" "same_sip_keys (write_dir rl) k' l'"
    "cs_synced L (length ms) (cipherstate (write_dir rl) k') (cipherstate (write_dir rl) l')"
    using sendable_sent [OF s(1) Cons.prems(2,3) assms(4) Cons.prems(4) [unfolded length_Cons], of r] by blast
  obtain ms' k2 rs l2 where rest: "write_all L P rl ms k' = Inr (ms', k2)"
    "read_all L P W rl' (map dm_buf ms') r' l' = Inr (rs, l2)"
    "map (map data_view \<circ> dm_blocks) rs = map (map data_view \<circ> dm_blocks) ms'"
    using Cons.IH [OF s(2) one(4-6), of r'] by blast
  have "write_all L P rl (vm # ms) k = Inr (m' # ms', k2)"
    "read_all L P W rl' (map dm_buf (m' # ms')) r l = Inr (r' # rs, l2)"
    "map (map data_view \<circ> dm_blocks) (r' # rs) = map (map data_view \<circ> dm_blocks) (m' # ms')"
    using rest one(1-3) by (simp_all add: vm)
  then show ?case by blast
qed simp

end
