(* ===== verification/Demo.thy ===== *)
theory Demo
  imports DataPhase
begin

text \<open>
  Concrete values for the parameters of the model: a toy instance of the primitives and of the
  Noise library that meets what the lemmas assume of them, and an identity and a router info
  over it. They show that the hypotheses of the properties can hold together; nothing about
  the code rests on them.
\<close>

section \<open>Primitives\<close>

definition demo_hmac :: "byte list \<Rightarrow> byte list \<Rightarrow> byte list" where
  "demo_hmac d k = resize 32 (k @ d)"

definition demo_prims :: prims where
  "demo_prims = \<lparr>base_mult = (\<lambda>sk. Some (resize 32 sk)), scalar_mult = (\<lambda>sk pk. Some (resize 32 (sk @ pk))),
     sha256 = resize 32, aead_enc = (\<lambda>k n ad m. Some (m @ replicate 16 0)),
     aead_dec = (\<lambda>k n ad c. Some (take (length c - 16) c))\<rparr>"

definition demo_sign :: sign_prims where
  "demo_sign = \<lparr>sign_keypair = (\<lambda>r. Some (rand_bytes r 32, resize 64 (rand_bytes r 32))),
     sk_to_pk = (\<lambda>sk. Some (resize 32 (drop 32 sk))),
     sign_detached = (\<lambda>msg sk. Some (resize 32 (drop 32 sk) @ replicate 32 1)),
     verify_detached = (\<lambda>sig msg pk. take 32 sig = pk)\<rparr>"

definition demo_blake :: blake2b_prim where
  "demo_blake = (\<lambda>n inp key salt pers. replicate n 0)"

definition demo_env :: ident_env where
  "demo_env = \<lparr>env_prims = demo_prims, env_sign = demo_sign, env_hmac = demo_hmac, env_blake = demo_blake\<rparr>"

definition demo_rng :: rng where "demo_rng i = word_of_nat i"

lemma demo_prims_ok: "prims_ok demo_prims"
  by (simp add: prims_ok_def demo_prims_def)

lemma demo_hmac_ok: "hmac_ok demo_hmac"
  by (simp add: hmac_ok_def demo_hmac_def)

lemma demo_sign_len: "sign_len_ok demo_sign"
  by (simp add: sign_len_ok_def demo_sign_def)

lemma demo_sign_verifies:
  "sign_detached demo_sign msg sk = Some sig \<Longrightarrow> sk_to_pk demo_sign sk = Some pk \<Longrightarrow>
     verify_detached demo_sign sig msg pk"
  by (auto simp: demo_sign_def)

section \<open>Keys, an identity and a router info\<close>

definition demo_keys :: keypair where
  "demo_keys = \<lparr>pubkey = replicate 32 3, pvtkey = replicate 32 4\<rparr>"

definition demo_ecies :: ecies_state where
  "demo_ecies = state_members (HmacSha256 demo_hmac) demo_keys"

definition demo_signer :: signer where
  "demo_signer = \<lparr>pk_ptr = replicate 32 6, sk_ptr = Some (replicate 32 5 @ replicate 32 6)\<rparr>"

definition demo_cert :: certificate where
  "demo_cert = \<lparr>cert_type = KeyCert, cert_length = 7, sign_type = EdDSA, crypto_type = EciesX25519,
     cert_buffer = replicate 7 0, locally_unreachable = False\<rparr>"

definition demo_ident :: identity where
  "demo_ident = \<lparr>padding = replicate 320 0, cert = demo_cert, crypto = \<lparr>ckind = Kind_Hmac, cobj = demo_ecies\<rparr>,
     signing = \<lparr>skind = Kind_EdDSA, sobj = demo_signer\<rparr>, id_hash = replicate 32 0, id_buf = replicate 391 0\<rparr>"

definition demo_options :: mapping where
  "demo_options = \<lparr>kv = [MappingEntry (ascii ''s'') [65], MappingEntry (ascii ''v'') [50]], map_buffer = []\<rparr>"

definition demo_info :: info where
  "demo_info = (info_members demo_ident)\<lparr>ri_options := demo_options\<rparr>"

lemma demo_keys_ok: "keypair_ok demo_keys"
  by (simp add: keypair_ok_def demo_keys_def)

lemma demo_ecies_ok: "ecies_ok demo_ecies"
  by (simp add: demo_ecies_def state_members_ok demo_keys_ok)

lemma demo_ident_ok: "ident_ok demo_ident" "length (padding demo_ident) = 320"
  by (simp_all add: demo_ident_def ident_ok_def demo_cert_def sign_code_def crypto_code_def demo_ecies_def
      state_members_def demo_keys_def demo_signer_def)

lemma demo_options_ok: "mapping_ok demo_options" "ri_options_ok demo_options"
proof -
  show "mapping_ok demo_options"
    by (simp add: mapping_ok_def demo_options_def entry_ok_def entry_size_def ascii_def less_entry_key
        mapping_sizes)
  then show "ri_options_ok demo_options"
    by (simp add: ri_options_ok_def demo_options_def kv_lookup_def ascii_def)
qed

lemma demo_info_ok: "info_ok demo_info" "ri_options_ok (ri_options demo_info)"
  using demo_ident_ok demo_options_ok by (simp_all add: info_ok_def demo_info_def info_members_def)

lemma demo_fresh: "info_fresh (ri_identity demo_info) (info_members demo_ident)"
  by (simp add: info_fresh_def demo_info_def info_members_def demo_ident_def demo_cert_def)

lemma demo_info_serializes: "\<exists>i'. info_serialize demo_env r now demo_info = Inr i'"
proof -
  have s: "env_sign demo_env = demo_sign" by (simp add: demo_env_def)
  let ?i = "ident_written demo_env r (ri_identity demo_info)"
  have sg: "signing ?i = \<lparr>skind = Kind_EdDSA, sobj = demo_signer\<rparr>"
    using ident_written_ok(5) [of "ri_identity demo_info"] demo_info_ok(1)
    by (simp add: info_ok_def demo_info_def info_members_def demo_ident_def)
  have "info_body demo_env r now demo_info \<noteq> []" by (simp add: info_body_def)
  then have "\<exists>sig. ident_sign demo_env (info_body demo_env r now demo_info) ?i = Inr sig"
    by (simp add: ident_sign_def s signing_sign_Inr_iff sg demo_signer_def demo_sign_def)
  then show ?thesis
    using info_serialize_Inr_iff [OF demo_info_ok(1), of demo_env r now] demo_sign_len s by auto
qed

section \<open>A Noise library, the keys of a data phase and a message\<close>

definition demo_noise :: "(nat, nat) noise_lib" where
  "demo_noise = \<lparr>NOISE_ROLE_INITIATOR = 1, NOISE_ROLE_RESPONDER = 2,
     hs_new_by_name = (\<lambda>nm r. Inr 0), hs_start = (\<lambda>s. Inr s),
     hs_write_message = (\<lambda>s m n. Inr (m, s)), hs_read_message = (\<lambda>s m n. Inr (m, s)),
     hs_local_public = (\<lambda>s. Some (Inr (replicate 32 0))), hs_remote_public = (\<lambda>s. Some (Inr (replicate 32 0))),
     hs_generate_keypair = (\<lambda>s. Some (Inr s)), hs_set_keypair = (\<lambda>s sk pk. Some (Inr s)),
     hs_set_remote = (\<lambda>s pk. Some (Inr s)), hs_get_hash = (\<lambda>s n. Inr (replicate n 0)),
     hs_mix_hash = (\<lambda>s b. Inr s), hs_split_save = (\<lambda>s n. Inr (0, 0, replicate n 0, s)),
     cs_encrypt = (\<lambda>c p. Inr (p @ replicate 16 9, Suc c)),
     cs_decrypt = (\<lambda>c ct. Inr (take (length ct - 16) ct, Suc c)),
     noise_strerror = (\<lambda>e. ''error'')\<rparr>"

lemma demo_noise_synced: "cs_synced demo_noise n c d"
  by (induction n arbitrary: c d) (simp_all add: cs_pair_def demo_noise_def)

lemma demo_noise_hash: "hs_get_hash demo_noise s n = Inr h \<Longrightarrow> length h = n"
  by (auto simp: demo_noise_def)

definition demo_dp :: dp_prims where
  "demo_dp = \<lparr>siphash = (\<lambda>iv key. 7 # 7 # replicate 14 7), dp_hmac = (\<lambda>d k. replicate 32 0)\<rparr>"

definition demo_block_env :: block_env where
  "demo_block_env = \<lparr>be_ident = demo_env, be_now = 1000, be_now_ms = 0, be_rng = demo_rng, be_r1 = demo_rng,
     be_r2 = demo_rng, be_fresh = Inr demo_ident, be_msg_id = 1\<rparr>"

definition demo_kdf :: "nat dp_kdf" where
  "demo_kdf = \<lparr>key_pt1_ab = replicate 8 0, key_pt2_ab = replicate 8 0, iv_ab = replicate 8 0,
     key_pt1_ba = replicate 8 0, key_pt2_ba = replicate 8 0, iv_ba = replicate 8 0, kdf_h = replicate 32 0,
     alice_to_bob = 0, bob_to_alice = 0\<rparr>"

definition demo_time_block :: date_time_block where
  "demo_time_block = \<lparr>block_type = DateTime, block_data_size = 4, block_buf = replicate 7 0, timestamp = 1000\<rparr>"

definition demo_padding_block :: padding_block where
  "demo_padding_block = \<lparr>block_type = Padding, block_data_size = 2, block_buf = [], pad_bytes = [0, 0]\<rparr>"

definition demo_message :: data_message where
  "demo_message = \<lparr>dm_blocks = [DDateTime demo_time_block, DPadding demo_padding_block], dm_buf = []\<rparr>"

lemma demo_dp_ok: "sip_ok demo_dp demo_kdf" "same_sip_keys d demo_kdf demo_kdf"
  by (simp_all add: sip_ok_def demo_dp_def demo_kdf_def same_sip_keys_def split: dir.split)

lemma demo_blocks_write:
  "\<exists>b'. block_writes demo_block_env (DDateTime demo_time_block) b' \<and> data_view b' = DateTimeV 1000"
  "\<exists>b'. block_writes demo_block_env (DPadding demo_padding_block) b' \<and> data_view b' = PaddingV [0, 1]"
proof -
  have t: "dt_ok 1000 demo_time_block" "length (block_buf demo_time_block) = 7"
    by (simp_all add: dt_ok_def demo_time_block_def check_lag_s_def MaxLagDelta_def LagDelta_def)
  have e: "be_now demo_block_env = 1000" "be_rng demo_block_env = demo_rng" by (simp_all add: demo_block_env_def)
  show "\<exists>b'. block_writes demo_block_env (DDateTime demo_time_block) b' \<and> data_view b' = DateTimeV 1000"
    using dt_serialize_eq [OF t]
    by (simp add: block_writes_def data_size_def e mapr_simps demo_time_block_def block_size_def head_of_def block.defs HeaderLen_def)
  have p: "pad_ok demo_padding_block"
    by (simp add: pad_ok_def demo_padding_block_def MaxPaddingLen_eq)
  have r: "rand_bytes demo_rng 2 = [0, 1]" "length (pad_bytes demo_padding_block) = 2"
    by (simp_all add: rand_bytes_def demo_rng_def demo_padding_block_def upt_rec)
  have w: "pad_serialize demo_rng demo_padding_block = Inr (demo_padding_block\<lparr>block_data_size := 2,
      pad_bytes := [0, 1], block_buf := frame Padding [0, 1]\<rparr>)"
    using pad_serialize_eq [OF p, of demo_rng] unfolding Let_def r by simp
  show "\<exists>b'. block_writes demo_block_env (DPadding demo_padding_block) b' \<and> data_view b' = PaddingV [0, 1]"
    using w
    by (simp add: block_writes_def data_size_def e demo_padding_block_def block_size_def head_of_def block.defs HeaderLen_def)
qed

lemma demo_sendable: "sendable (\<lambda>_. demo_block_env) (\<lambda>_. demo_block_env, demo_message)"
proof -
  have "check_lag_s 1000 1000" by simp
  then have "\<exists>b'. block_writes demo_block_env (dm_blocks demo_message ! i) b' \<and> val_ok demo_block_env (data_view b')"
    if "i < 2" for i
    using that demo_blocks_write
    by (auto simp: demo_message_def less_Suc_eq numeral_2_eq_2 demo_block_env_def MaxPaddingLen_eq)
  moreover have "data_order_seq (map data_type (dm_blocks demo_message))"
    by (simp add: demo_message_def data_type_def block_types demo_time_block_def demo_padding_block_def)
  moreover have "dm_size demo_message = 12"
    by (simp add: dm_size_def TotalSize_def demo_message_def data_size_def demo_time_block_def demo_padding_block_def
        block_size_def HeaderLen_def head_of_def block.defs)
  ultimately show ?thesis by (simp add: sendable_def demo_message_def)
qed

lemma demo_ident_fresh: "length (cert_buffer (cert demo_ident)) = 7" "\<not> locally_unreachable (cert demo_ident)"
  by (simp_all add: demo_ident_def demo_cert_def)

lemma demo_Derive:
  "length key_in = 32 \<Longrightarrow> length key_out = 32 \<Longrightarrow>
     \<exists>k. Derive (HmacSha256 demo_hmac) key_out key_in salt ctx = Inr k"
  using Derive_rfc [of demo_hmac key_in key_out salt ctx] demo_hmac_ok by (simp add: hmac_ok_def)

lemma demo_state: "\<exists>s. state_of_keys demo_prims (HmacSha256 demo_hmac) demo_keys = Inr s"
proof -
  obtain k where "Derive (HmacSha256 demo_hmac) (fixed_default 32) (pvtkey demo_keys) (replicate 32 0)
      (kdf_ctx (HmacSha256 demo_hmac)) = Inr k"
    using demo_Derive [of "pvtkey demo_keys" "fixed_default 32"] by (auto simp: fixed_default_def demo_keys_def)
  then show ?thesis
    by (simp add: demo_prims_def state_of_keys_def derive_ep_def DeriveEphemeralKeys_def state_members_def
        keypair_default_def KeyLen_def HmacSha256_def)
qed

end
