(* ===== verification/Aes.thy ===== *)
theory Aes
  imports SecBytes
begin

text \<open>
  The cipher that obfuscates the ephemeral keys of the handshake, \<open>src/crypto/aes.h\<close>. The CBC
  encryption and decryption of the AES library are arguments: functions of the key, the IV and
  the data. A pointer into a buffer is the list of the bytes from it on, or \<open>None\<close> for the null
  pointer.
\<close>

record aes_prims =
  cbc_encrypt :: "byte list \<Rightarrow> byte list \<Rightarrow> byte list \<Rightarrow> byte list"
  cbc_decrypt :: "byte list \<Rightarrow> byte list \<Rightarrow> byte list \<Rightarrow> byte list"

definition AesKeyLen :: nat where "AesKeyLen = 32"
definition AesIVLen :: nat where "AesIVLen = 16"
definition AesBlockLen :: nat where "AesBlockLen = 16"

record aes =
  aes_key :: "byte list"
  aes_iv :: "byte list"

definition aes_new :: "byte list \<Rightarrow> byte list \<Rightarrow> aes" where
  "aes_new key iv = \<lparr>aes_key = key, aes_iv = iv\<rparr>"

definition aes_rekey :: "byte list \<Rightarrow> byte list \<Rightarrow> aes \<Rightarrow> aes" where
  "aes_rekey key iv a = a\<lparr>aes_key := overwrite 0 (take AesKeyLen key) (aes_key a),
     aes_iv := overwrite 0 (take AesIVLen iv) (aes_iv a)\<rparr>"

definition aes_create_key_iv :: "rng \<Rightarrow> rng \<Rightarrow> byte list \<times> byte list" where
  "aes_create_key_iv r1 r2 = (rand_bytes r1 AesKeyLen, rand_bytes r2 AesIVLen)"

datatype aes_mode = Mode_Encrypt | Mode_Decrypt

text \<open>The library's context is made from the key and the IV on every call: no IV is carried over.\<close>

definition aes_process ::
  "aes_prims \<Rightarrow> aes_mode \<Rightarrow> exception \<Rightarrow> byte list option \<Rightarrow> nat \<Rightarrow> aes \<Rightarrow> byte list result" where
  "aes_process C md ex in_out n a =
     (case in_out of
        None \<Rightarrow> throw_ex ex Invalid_argument ''null buffers.''
      | Some b \<Rightarrow>
          if n = 0 then throw_ex ex Invalid_argument ''null buffer lenghts.''
          else if n mod AesBlockLen \<noteq> 0
          then throw_ex ex Length_error ''buffer must be a multiple of AES block size.''
          else if length b < n then Inl (Undefined_behaviour ''cipher past the end of the buffer'')
          else Inr (overwrite 0 ((case md of Mode_Encrypt \<Rightarrow> cbc_encrypt C | Mode_Decrypt \<Rightarrow> cbc_decrypt C)
                 (aes_key a) (aes_iv a) (take n b)) b))"

definition aes_encrypt :: "aes_prims \<Rightarrow> byte list option \<Rightarrow> nat \<Rightarrow> aes \<Rightarrow> byte list result" where
  "aes_encrypt C in_out n a = aes_process C Mode_Encrypt (Ex ''AES'' ''Encrypt'') in_out n a"

definition aes_decrypt :: "aes_prims \<Rightarrow> byte list option \<Rightarrow> nat \<Rightarrow> aes \<Rightarrow> byte list result" where
  "aes_decrypt C in_out n a = aes_process C Mode_Decrypt (Ex ''AES'' ''Decrypt'') in_out n a"

section \<open>Encrypting and decrypting in place\<close>

text \<open>What the library documents: CBC keeps the length of whole blocks, and decryption inverts encryption.\<close>

definition cbc_ok :: "aes_prims \<Rightarrow> bool" where
  "cbc_ok C \<longleftrightarrow> (\<forall>k iv d. length (cbc_encrypt C k iv d) = length d
     \<and> cbc_decrypt C k iv (cbc_encrypt C k iv d) = d)"

lemma aes_encrypt_Inr_iff:
  "aes_encrypt C p n a = Inr c \<longleftrightarrow> (\<exists>b. p = Some b \<and> 0 < n \<and> 16 dvd n \<and> n \<le> length b
     \<and> c = overwrite 0 (cbc_encrypt C (aes_key a) (aes_iv a) (take n b)) b)"
  by (auto simp: aes_encrypt_def aes_process_def AesBlockLen_def mod_eq_0_iff_dvd split: option.splits)

lemma aes_safe_iff:
  "is_ub (aes_encrypt C p n a) \<longleftrightarrow> (\<exists>b. p = Some b \<and> 0 < n \<and> 16 dvd n \<and> length b < n)"
  "is_ub (aes_decrypt C p n a) \<longleftrightarrow> (\<exists>b. p = Some b \<and> 0 < n \<and> 16 dvd n \<and> length b < n)"
  by (auto simp: aes_encrypt_def aes_decrypt_def aes_process_def AesBlockLen_def mod_eq_0_iff_dvd split: option.splits)

lemma aes_encrypt_eq:
  assumes "cbc_ok C" "0 < n" "16 dvd n" "n \<le> length b"
  shows "\<exists>x. aes_encrypt C (Some b) n a = Inr (x @ drop n b) \<and> length x = n
    \<and> (\<forall>rest. aes_decrypt C (Some (x @ rest)) n a = Inr (take n b @ rest))"
proof -
  let ?x = "cbc_encrypt C (aes_key a) (aes_iv a) (take n b)"
  have len: "length ?x = n" using assms(1,4) by (simp add: cbc_ok_def)
  have inv: "cbc_decrypt C (aes_key a) (aes_iv a) ?x = take n b" using assms(1) by (simp add: cbc_ok_def)
  have "aes_encrypt C (Some b) n a = Inr (?x @ drop n b)"
    using assms(2-4) len by (simp add: aes_encrypt_Inr_iff overwrite_def)
  moreover have "aes_decrypt C (Some (?x @ rest)) n a = Inr (take n b @ rest)" for rest
    using assms(2-4) len inv
    by (simp add: aes_decrypt_def aes_process_def AesBlockLen_def mod_eq_0_iff_dvd overwrite_def)
  ultimately show ?thesis using len by blast
qed

end
