(* ===== verification/SessionRequest.thy ===== *)
theory SessionRequest
  imports Noise Aes TimeRand RouterInfo
begin

text \<open>
  The first message of the handshake: \<open>src/ntcp2/session_request/message.h\<close> (the options and the
  message), \<open>kdf.h\<close> and the handler of \<open>session_request.h\<close>. The handshake state is shared by
  pointer between the session, the handler and its KDF: operations take it and return it
  updated, and a handler is the cipher it holds. The clock's seconds are the argument \<open>now\<close>, and
  the padding length of the default options is the value that \<open>RandInRange\<close> drew.
\<close>

section \<open>Options\<close>

definition OptionsSize :: nat where "OptionsSize = 16"
definition NoisePayloadSize :: nat where "NoisePayloadSize = 32 + (OptionsSize + 16)"
definition CiphertextOffset :: nat where "CiphertextOffset = 32"
definition CiphertextSize :: nat where "CiphertextSize = OptionsSize + 16"
definition PaddingOffset :: nat where "PaddingOffset = 64"
definition SrMaxSize :: nat where "SrMaxSize = 65535"
definition MinMsg3Pt2Size :: nat where "MinMsg3Pt2Size = InfoMinLen + 16"
definition MaxMsg3Pt2Size :: nat where "MaxMsg3Pt2Size = 65471"
definition MinPaddingSize :: nat where "MinPaddingSize = 32"
definition MaxPaddingSize :: nat where "MaxPaddingSize = SrMaxSize - NoisePayloadSize"

lemmas sr_sizes = OptionsSize_def NoisePayloadSize_def CiphertextOffset_def CiphertextSize_def PaddingOffset_def
  SrMaxSize_def MinMsg3Pt2Size_def MaxMsg3Pt2Size_def MinPaddingSize_def MaxPaddingSize_def InfoMinLen_def

text \<open>Where the enumeration of the source says the fields of the options are.\<close>

definition VersionOffset :: nat where "VersionOffset = 1"
definition PadLengthOffset :: nat where "PadLengthOffset = 2"
definition Msg3Pt2LengthOffset :: nat where "Msg3Pt2LengthOffset = 4"
definition TimestampOffset :: nat where "TimestampOffset = 8"

record sr_options =
  so_version :: byte
  so_pad_len :: u16
  so_m3p2_len :: u16
  so_timestamp :: u32
  so_buffer :: "byte list"

definition so_check_params :: "u32 \<Rightarrow> exception \<Rightarrow> sr_options \<Rightarrow> unit result" where
  "so_check_params now ex x =
     (if so_version x \<noteq> ntcp2_version then throw_ex ex Runtime_error ''invalid version.''
      else if unat (so_pad_len x) > MaxPaddingSize then throw_ex ex Runtime_error ''invalid padding size.''
      else if unat (so_m3p2_len x) < MinMsg3Pt2Size \<or> unat (so_m3p2_len x) > MaxMsg3Pt2Size
      then throw_ex ex Runtime_error ''invalid message 3 pt 2 size.''
      else if \<not> check_lag_s now (so_timestamp x) then throw_ex ex Runtime_error ''invalid timestamp.''
      else Inr ())"

definition so_serialize :: "u32 \<Rightarrow> sr_options \<Rightarrow> sr_options result" where
  "so_serialize now x =
     bindr (so_check_params now (Ex ''SessionRequest: Options'' ''serialize'') x) (\<lambda>_.
     bindr (write_be (so_version x) (bytes_on (so_buffer x))) (\<lambda>w.
     bindr (write_be (so_pad_len x) w) (\<lambda>w.
     bindr (write_be (so_m3p2_len x) w) (\<lambda>w.
     bindr (write_be (so_timestamp x) w) (\<lambda>w. Inr (x\<lparr>so_buffer := sbuf w\<rparr>))))))"

definition so_deserialize :: "u32 \<Rightarrow> sr_options \<Rightarrow> sr_options result" where
  "so_deserialize now x =
     bindr (read_be (bytes_on (so_buffer x))) (\<lambda>(v, r).
     bindr (read_be r) (\<lambda>(p, r).
     bindr (read_be r) (\<lambda>(m, r).
     bindr (read_be r) (\<lambda>(t, r).
     let x = x\<lparr>so_version := v, so_pad_len := p, so_m3p2_len := m, so_timestamp := t\<rparr> in
     bindr (so_check_params now (Ex ''SessionRequest: Options'' ''deserialize'') x) (\<lambda>_. Inr x)))))"

definition so_update :: "u32 \<Rightarrow> u16 \<Rightarrow> u16 \<Rightarrow> sr_options \<Rightarrow> sr_options result" where
  "so_update now m3p2_size pad_size x =
     (let x = x\<lparr>so_version := ntcp2_version, so_m3p2_len := m3p2_size, so_pad_len := pad_size, so_timestamp := now\<rparr> in
      bindr (so_check_params now (Ex ''SessionRequest: Options'' ''update'') x) (\<lambda>_. so_serialize now x))"

text \<open>The constructors; the fields that they leave uninitialised are assigned by \<open>update\<close>.\<close>

definition so_blank :: sr_options where
  "so_blank = \<lparr>so_version = 0, so_pad_len = 0, so_m3p2_len = 0, so_timestamp = 0,
     so_buffer = fixed_default OptionsSize\<rparr>"

definition so_of_sizes :: "u32 \<Rightarrow> u16 \<Rightarrow> u16 \<Rightarrow> sr_options result" where
  "so_of_sizes now m3p2_size pad_size = so_update now m3p2_size pad_size so_blank"

definition so_default :: "u32 \<Rightarrow> u32 \<Rightarrow> sr_options result" where
  "so_default now drawn =
     (let x = so_blank\<lparr>so_m3p2_len := word_of_nat MinMsg3Pt2Size, so_pad_len := ucast drawn\<rparr>
      in so_update now (so_m3p2_len x) (so_pad_len x) x)"

section \<open>The message\<close>

record sr_message =
  sr_data :: "byte list"
  sr_padding :: "byte list"
  sr_ciphertext :: "byte list"
  sr_options :: sr_options

definition sr_members :: "nat \<Rightarrow> rng \<Rightarrow> u16 \<Rightarrow> sr_options \<Rightarrow> sr_message" where
  "sr_members n r padlen x =
     \<lparr>sr_data = sec_of_size n,
      sr_padding = (if padlen \<noteq> 0 then RandBytes r (sec_resize (unat padlen) []) else []),
      sr_ciphertext = fixed_default CiphertextSize, sr_options = x\<rparr>"

definition sr_default :: "u32 \<Rightarrow> u32 \<Rightarrow> rng \<Rightarrow> sr_message result" where
  "sr_default now drawn r =
     bindr (so_default now drawn) (\<lambda>x. Inr (sr_members NoisePayloadSize r (so_pad_len x) x))"

definition sr_of_sizes :: "u32 \<Rightarrow> rng \<Rightarrow> u16 \<Rightarrow> u16 \<Rightarrow> sr_message result" where
  "sr_of_sizes now r m3p2_len padlen =
     bindr (so_of_sizes now m3p2_len padlen)
       (\<lambda>x. Inr (sr_members (NoisePayloadSize + unat padlen) r padlen x))"

section \<open>The key derivation\<close>

definition srk_new :: "'s option \<Rightarrow> 's result" where
  "srk_new st = (case st of
     None \<Rightarrow> throw_ex (Ex ''SessionRequestKDF'' ''SessionRequestKDF'') Invalid_argument ''null handshake state.''
   | Some s \<Rightarrow> Inr s)"

definition srk_set_remote_key :: "('s, 'c) noise_lib \<Rightarrow> byte list \<Rightarrow> 's \<Rightarrow> 's result" where
  "srk_set_remote_key L k s = set_remote_public_key L s k (Ex ''SessionRequestKDF'' ''set_remote_key'')"

definition srk_get_local_public_key :: "('s, 'c) noise_lib \<Rightarrow> 's \<Rightarrow> byte list result" where
  "srk_get_local_public_key L s = get_local_public_key L s (Ex ''SessionRequestKDF'' ''get_local_public_key'')"

definition srk_set_local_keys :: "('s, 'c) noise_lib \<Rightarrow> keypair \<Rightarrow> 's \<Rightarrow> 's result" where
  "srk_set_local_keys L k s = set_local_keypair L s k (Ex ''SessionRequestKDF'' ''set_local_keys'')"

definition srk_generate_keys :: "('s, 'c) noise_lib \<Rightarrow> 's \<Rightarrow> 's result" where
  "srk_generate_keys L s = generate_keypair L s (Ex ''SessionRequestKDF'' ''generate_keys'')"

definition srk_Derive :: "('s, 'c) noise_lib \<Rightarrow> 's \<Rightarrow> 's result" where
  "srk_Derive L s =
     noise_result L (Ex ''SessionRequestKDF'' ''Derive'') ''unable to derive session request keys'' (hs_start L s)"

definition srk_Derive_key :: "('s, 'c) noise_lib \<Rightarrow> byte list \<Rightarrow> 's \<Rightarrow> 's result" where
  "srk_Derive_key L k s = bindr (srk_set_remote_key L k s) (srk_Derive L)"

section \<open>The handler\<close>

text \<open>The handler's own null check comes after the one of its KDF, which throws first.\<close>

definition srq_new :: "'s option \<Rightarrow> byte list \<Rightarrow> byte list \<Rightarrow> ('s \<times> aes) result" where
  "srq_new st router_hash iv =
     bindr (srk_new st) (\<lambda>s. case st of
       None \<Rightarrow> throw_ex (Ex ''SessionRequest'' ''SessionRequest'') Invalid_argument ''null handshake state.''
     | Some _ \<Rightarrow> Inr (s, aes_new router_hash iv))"

text \<open>A copy of \<open>n\<close> bytes at \<open>off\<close> of one buffer over the beginning of another, or of the whole of one buffer to \<open>off\<close> in another.\<close>

definition copy_from :: "nat \<Rightarrow> nat \<Rightarrow> byte list \<Rightarrow> byte list \<Rightarrow> byte list result" where
  "copy_from off n src dst =
     (if off + n > length src \<or> n > length dst then Inl (Undefined_behaviour ''copy past the end of a buffer'')
      else Inr (overwrite 0 (take n (drop off src)) dst))"

definition copy_to :: "nat \<Rightarrow> byte list \<Rightarrow> byte list \<Rightarrow> byte list result" where
  "copy_to off src dst =
     (if off + length src > length dst then Inl (Undefined_behaviour ''copy past the end of a buffer'')
      else Inr (overwrite off src dst))"

definition srq_Write ::
  "('s, 'c) noise_lib \<Rightarrow> aes_prims \<Rightarrow> u32 \<Rightarrow> aes \<Rightarrow> sr_message \<Rightarrow> 's \<Rightarrow> (sr_message \<times> 's) result" where
  "srq_Write L C now a m s =
     (let ex = Ex ''SessionRequest'' ''Write'';
          buf = sec_resize (NoisePayloadSize + unat (so_pad_len (sr_options m))) (sr_data m) in
      bindr (so_serialize now (sr_options m)) (\<lambda>x.
      bindr (noise_write_message L s (so_buffer x) buf ex) (\<lambda>(buf, s).
      bindr (aes_encrypt C (Some buf) 32 a) (\<lambda>buf.
      bindr (copy_from CiphertextOffset CiphertextSize buf (sr_ciphertext m)) (\<lambda>ct.
      if unat (so_pad_len x) < MinPaddingSize \<or> unat (so_pad_len x) > MaxPaddingSize
      then throw_ex ex Length_error ''invalid padding length.''
      else
        bindr (copy_to PaddingOffset (sr_padding m) buf) (\<lambda>buf.
          Inr (m\<lparr>sr_options := x, sr_ciphertext := ct, sr_data := buf\<rparr>, s)))))))"

definition srq_Read ::
  "('s, 'c) noise_lib \<Rightarrow> aes_prims \<Rightarrow> u32 \<Rightarrow> aes \<Rightarrow> sr_message \<Rightarrow> 's \<Rightarrow> (sr_message \<times> 's) result" where
  "srq_Read L C now a m s =
     (let ex = Ex ''SessionRequest'' ''Read''; n = length (sr_data m) in
      if n < NoisePayloadSize \<or> n > SrMaxSize then throw_ex ex Length_error ''invalid message size.''
      else
        bindr (copy_from CiphertextOffset CiphertextSize (sr_data m) (sr_ciphertext m)) (\<lambda>ct.
        bindr (aes_decrypt C (Some (sr_data m)) 32 a) (\<lambda>buf.
        bindr (noise_read_message L s (take NoisePayloadSize buf) (so_buffer (sr_options m)) ex) (\<lambda>(out, s).
        bindr (so_deserialize now ((sr_options m)\<lparr>so_buffer := out\<rparr>)) (\<lambda>x.
        if unat (so_pad_len x) < MinPaddingSize \<or> unat (so_pad_len x) > MaxPaddingSize
        then throw_ex ex Length_error ''invalid padding length.''
        else
          bindr (if n - NoisePayloadSize = unat (so_pad_len x)
                 then copy_from PaddingOffset (unat (so_pad_len x)) buf (sec_resize (unat (so_pad_len x)) (sr_padding m))
                 else Inr (sr_padding m)) (\<lambda>pad.
            Inr (m\<lparr>sr_options := x, sr_ciphertext := ct, sr_data := buf, sr_padding := pad\<rparr>, s)))))))"

definition srq_ProcessMessage ::
  "('s, 'c) noise_lib \<Rightarrow> aes_prims \<Rightarrow> role \<Rightarrow> u32 \<Rightarrow> aes \<Rightarrow> sr_message \<Rightarrow> 's \<Rightarrow> (sr_message \<times> 's) result" where
  "srq_ProcessMessage L C rl now a m s =
     (if rl = Initiator then srq_Write L C now a m s else srq_Read L C now a m s)"

section \<open>Options in their buffer\<close>

definition so_ok :: "u32 \<Rightarrow> sr_options \<Rightarrow> bool" where
  "so_ok now x \<longleftrightarrow> so_version x = ntcp2_version \<and> unat (so_pad_len x) \<le> MaxPaddingSize
     \<and> MinMsg3Pt2Size \<le> unat (so_m3p2_len x) \<and> unat (so_m3p2_len x) \<le> MaxMsg3Pt2Size
     \<and> check_lag_s now (so_timestamp x)"

lemma so_check_iff: "so_check_params now ex x = Inr u \<longleftrightarrow> so_ok now x"
  by (auto simp: so_check_params_def so_ok_def)

definition so_bytes :: "sr_options \<Rightarrow> byte list" where
  "so_bytes x = so_version x # be_of_word (so_pad_len x) @ be_of_word (so_m3p2_len x) @ be_of_word (so_timestamp x)"

lemma length_so_bytes [simp]: "length (so_bytes x) = 9"
  by (simp add: so_bytes_def)

lemma so_serialize_eq:
  assumes "so_ok now x" "length (so_buffer x) = 16"
  shows "so_serialize now x = Inr (x\<lparr>so_buffer := so_bytes x @ drop 9 (so_buffer x)\<rparr>)"
proof -
  have c: "so_check_params now (Ex ''SessionRequest: Options'' ''serialize'') x = Inr ()"
    using assms(1) by (simp add: so_check_iff)
  show ?thesis
    using assms(2) by (simp add: so_serialize_def c bytes_on_written write_be_fits written_sel overwrite_def so_bytes_def)
qed

lemma so_serialize_Inr: "so_serialize now x = Inr y \<Longrightarrow> so_ok now x"
  by (auto simp: so_serialize_def result_simps so_check_iff)

lemma so_deserialize_bytes:
  assumes "so_buffer x = so_bytes y @ rest"
  shows "so_deserialize now x =
    (let z = x\<lparr>so_version := so_version y, so_pad_len := so_pad_len y, so_m3p2_len := so_m3p2_len y,
       so_timestamp := so_timestamp y\<rparr> in
     bindr (so_check_params now (Ex ''SessionRequest: Options'' ''deserialize'') z) (\<lambda>_. Inr z))"
  using assms by (simp add: so_deserialize_def bytes_on_reading so_bytes_def field_get Let_def)

text \<open>The fields are not where the enumeration of the source says: the version is the first byte.\<close>

lemma so_offsets:
  assumes "so_serialize now x = Inr y" "length (so_buffer x) = 16"
  shows "so_buffer y ! 0 = 2 \<and> take 2 (drop 1 (so_buffer y)) = be_of_word (so_pad_len x)
    \<and> take 2 (drop 3 (so_buffer y)) = be_of_word (so_m3p2_len x) \<and> take 4 (drop 5 (so_buffer y)) = be_of_word (so_timestamp x)"
  using so_serialize_eq [OF so_serialize_Inr [OF assms(1)] assms(2)] so_serialize_Inr [OF assms(1)] assms
  by (simp add: so_bytes_def so_ok_def ntcp2_version_def)

section \<open>A message written and read\<close>

text \<open>
  What the handlers of the first two messages do to their buffers: the Noise message at the
  beginning of the buffer, its first 32 bytes encrypted.
\<close>

lemma obfuscated_message:
  assumes "cbc_ok C" "hs_message L 48 R s t" "length payload = 16" "64 \<le> length buf"
  obtains x msg s' t' where
    "noise_write_message L s payload buf ex = Inr (overwrite 0 msg buf, s')"
    "aes_encrypt C (Some (overwrite 0 msg buf)) 32 a = Inr (x @ drop 32 msg @ drop 64 buf)"
    "length x = 32" "length msg = 64" "R s' t'"
    "\<And>rest. aes_decrypt C (Some (x @ drop 32 msg @ rest)) 32 a = Inr (msg @ rest)"
    "\<And>b ex'. 16 \<le> length b \<Longrightarrow> noise_read_message L t msg b ex' = Inr (overwrite 0 payload b, t')"
proof -
  obtain msg s' t' where m: "noise_write_message L s payload buf ex = Inr (overwrite 0 msg buf, s')"
    "length msg = 64" "R s' t'"
    "\<And>b ex'. 16 \<le> length b \<Longrightarrow> noise_read_message L t msg b ex' = Inr (overwrite 0 payload b, t')"
    using hs_messageE [OF assms(2), of payload buf ex] assms(3,4) by auto
  have o: "overwrite 0 msg buf = msg @ drop 64 buf" using m(2) by (simp add: overwrite_def)
  obtain x where x: "aes_encrypt C (Some (msg @ drop 64 buf)) 32 a = Inr (x @ drop 32 (msg @ drop 64 buf))" "length x = 32"
    "\<And>rest. aes_decrypt C (Some (x @ rest)) 32 a = Inr (take 32 (msg @ drop 64 buf) @ rest)"
    using aes_encrypt_eq [OF assms(1), of 32 "msg @ drop 64 buf" a] m(2) by auto
  have d: "aes_decrypt C (Some (x @ drop 32 msg @ rest)) 32 a = Inr (msg @ rest)" for rest
    using x(3) [of "drop 32 msg @ rest"] m(2) by (simp add: append_assoc [symmetric] del: append_assoc)
  show ?thesis by (rule that [OF m(1) _ x(2) m(2,3) d m(4)]) (use x(1) m(2) o in simp)
qed

lemma copy_from_append:
  "length a = off \<Longrightarrow> length b = n \<Longrightarrow> length dst = n \<Longrightarrow> copy_from off n (a @ b @ rest) dst = Inr b"
  by (simp add: copy_from_def overwrite_def)

lemma copy_to_end:
  "length a = off \<Longrightarrow> length src = length b \<Longrightarrow> copy_to off src (a @ b) = Inr (a @ src)"
  by (simp add: copy_to_def overwrite_def)

text \<open>
  The options of either message: their serialisation keeps what the message is about, and
  reading what it wrote gives them back while the timestamp is fresh.
\<close>

locale padded_options =
  fixes ser des :: "u32 \<Rightarrow> 'o \<Rightarrow> 'o result"
    and buffer :: "'o \<Rightarrow> byte list"
    and put :: "byte list \<Rightarrow> 'o \<Rightarrow> 'o"
    and pad_len :: "'o \<Rightarrow> u16"
    and fields :: "'o \<Rightarrow> 'f"
    and ok fresh :: "u32 \<Rightarrow> 'o \<Rightarrow> bool"
  assumes written: "ok now x \<Longrightarrow> length (buffer x) = 16 \<Longrightarrow>
      \<exists>y. ser now x = Inr y \<and> length (buffer y) = 16 \<and> pad_len y = pad_len x \<and> fields y = fields x
        \<and> (\<forall>now' z. fresh now' x \<longrightarrow> des now' (put (buffer y) z) = Inr y)"
    and bounded: "ok now x \<Longrightarrow> unat (pad_len x) \<le> MaxPaddingSize"
begin

lemma message_written_read:
  assumes "cbc_ok C" "hs_message L 48 R s t" "ok now x" "length (buffer x) = 16" "length pad = unat (pad_len x)"
    "MinPaddingSize \<le> unat (pad_len x)" "fresh now' x"
  obtains y b e body k s' t' where
    "ser now x = Inr y" "fields y = fields x" "pad_len y = pad_len x" "R s' t'" "length body = 64" "length k = 32"
    "noise_write_message L s (buffer y) (sec_resize (NoisePayloadSize + unat (pad_len x)) d) ex = Inr (b, s')"
    "aes_encrypt C (Some b) 32 a = Inr e"
    "\<forall>ct. length ct = 32 \<longrightarrow> copy_from CiphertextOffset CiphertextSize e ct = Inr k"
    "copy_to PaddingOffset pad e = Inr (body @ pad)"
    "\<forall>z. des now' (put (buffer y) z) = Inr y"
    "\<forall>rest. rest = [] \<or> rest = pad \<longrightarrow> (\<exists>q. aes_decrypt C (Some (body @ rest)) 32 a = Inr q
       \<and> (\<forall>ct. length ct = 32 \<longrightarrow> copy_from CiphertextOffset CiphertextSize (body @ rest) ct = Inr k
            \<and> copy_from CiphertextOffset CiphertextSize q ct = Inr k)
       \<and> (\<forall>b ex. length b = 16 \<longrightarrow> noise_read_message L t (take NoisePayloadSize q) b ex = Inr (buffer y, t'))
       \<and> (rest = [] \<longleftrightarrow> length rest \<noteq> unat (pad_len x))
       \<and> (rest \<noteq> [] \<longrightarrow> (\<forall>p. copy_from PaddingOffset (unat (pad_len x)) q (sec_resize (unat (pad_len x)) p) = Inr pad)))"
proof -
  let ?n = "unat (pad_len x)" and ?b = "sec_resize (64 + unat (pad_len x)) d"
  obtain y where y: "ser now x = Inr y" "length (buffer y) = 16" "pad_len y = pad_len x" "fields y = fields x"
    "\<forall>z. des now' (put (buffer y) z) = Inr y"
    using written [OF assms(3,4)] assms(7) by blast
  have bl: "length ?b = 64 + ?n" "64 \<le> length ?b" by (simp_all add: sec_resize_def)
  obtain o32 msg s' t' where w: "noise_write_message L s (buffer y) ?b ex = Inr (overwrite 0 msg ?b, s')"
    "aes_encrypt C (Some (overwrite 0 msg ?b)) 32 a = Inr (o32 @ drop 32 msg @ drop 64 ?b)"
    "length o32 = 32" "length msg = 64" "R s' t'"
    "\<And>rest. aes_decrypt C (Some (o32 @ drop 32 msg @ rest)) 32 a = Inr (msg @ rest)"
    "\<And>b ex'. 16 \<le> length b \<Longrightarrow> noise_read_message L t msg b ex' = Inr (overwrite 0 (buffer y) b, t')"
    by (rule obfuscated_message [OF assms(1,2) y(2) bl(2)]) blast
  have cf: "copy_from CiphertextOffset CiphertextSize (u @ drop 32 msg @ rest) ct = Inr (drop 32 msg)"
    if "length u = 32" "length ct = 32" for u ct rest
    using that w(4) by (intro copy_from_append) (simp_all add: sr_sizes)
  have cm: "copy_from CiphertextOffset CiphertextSize (msg @ rest) ct = Inr (drop 32 msg)" if "length ct = 32" for ct rest
    using cf [of "take 32 msg" ct rest] that w(4) by (simp add: append_assoc [symmetric] del: append_assoc)
  have ctp: "copy_to PaddingOffset pad (o32 @ drop 32 msg @ drop 64 ?b) = Inr ((o32 @ drop 32 msg) @ pad)"
    using copy_to_end [of "o32 @ drop 32 msg" 64 pad "drop 64 ?b"] w(3,4) assms(5) bl(1) by (simp add: sr_sizes)
  have rd: "noise_read_message L t (take NoisePayloadSize (msg @ rest)) b ex = Inr (buffer y, t')" if "length b = 16" for b rest ex
    using w(4) w(7) [of b ex] y(2) that by (simp add: sr_sizes overwrite_def)
  have cp: "copy_from PaddingOffset ?n (msg @ pad) (sec_resize ?n p) = Inr pad" for p
    using assms(5) w(4) copy_from_append [of msg 64 pad ?n "sec_resize ?n p" "[]"] by (simp add: sr_sizes sec_resize_def)
  have n: "rest = [] \<longleftrightarrow> length rest \<noteq> ?n" if "rest = [] \<or> rest = pad" for rest
    using that assms(5,6) by (auto simp: sr_sizes)
  show ?thesis
    by (rule that [OF y(1,4,3) w(5) _ _ _ w(2) _ ctp y(5), of "drop 32 msg"])
      (use w(1,3,4,6) cf cm rd cp n in \<open>auto simp: sr_sizes\<close>)
qed

end

text \<open>Messages with the buffers of the sizes their constructors give them.\<close>

definition sr_sized :: "sr_message \<Rightarrow> bool" where
  "sr_sized m \<longleftrightarrow> length (so_buffer (sr_options m)) = 16 \<and> length (sr_ciphertext m) = 32"

definition so_fields :: "sr_options \<Rightarrow> byte \<times> u16 \<times> u16 \<times> u32" where
  "so_fields x = (so_version x, so_pad_len x, so_m3p2_len x, so_timestamp x)"

interpretation request_options: padded_options so_serialize so_deserialize so_buffer "\<lambda>b x. x\<lparr>so_buffer := b\<rparr>" so_pad_len so_fields so_ok
    "\<lambda>now x. check_lag_s now (so_timestamp x)"
proof
  fix now x assume x: "so_ok now x" "length (so_buffer x) = 16"
  show "\<exists>y. so_serialize now x = Inr y \<and> length (so_buffer y) = 16 \<and> so_pad_len y = so_pad_len x \<and> so_fields y = so_fields x
      \<and> (\<forall>now' z. check_lag_s now' (so_timestamp x) \<longrightarrow> so_deserialize now' (z\<lparr>so_buffer := so_buffer y\<rparr>) = Inr y)"
    using so_serialize_eq [OF x] so_deserialize_bytes [where y = x and rest = "drop 9 (so_buffer x)"] x
    by (simp add: so_fields_def so_check_params_def so_ok_def)
qed (simp add: so_ok_def)

text \<open>
  The reader finds the options and the ciphertext of the writer. It finds the padding only when
  it was given all of the message; the session gives it the first 64 bytes and reads the padding
  from the socket.
\<close>

lemma srq_write_read:
  assumes "cbc_ok C" "hs_message L 48 R s t"
    and m: "sr_sized m" "so_ok now (sr_options m)" "length (sr_padding m) = unat (so_pad_len (sr_options m))"
      "MinPaddingSize \<le> unat (so_pad_len (sr_options m))"
    and r: "sr_sized r" "check_lag_s now' (so_timestamp (sr_options m))"
  obtains m' s' t' body where "srq_Write L C now a m s = Inr (m', s')" "R s' t'"
    "sr_data m' = body @ sr_padding m" "length body = 64"
    "so_fields (sr_options m') = so_fields (sr_options m)" "sr_padding m' = sr_padding m" "length (sr_ciphertext m') = 32"
    "\<And>rest. rest = [] \<or> rest = sr_padding m \<Longrightarrow>
       \<exists>x. srq_Read L C now' a (r\<lparr>sr_data := body @ rest\<rparr>) t =
         Inr (r\<lparr>sr_data := x, sr_options := sr_options m', sr_ciphertext := sr_ciphertext m',
           sr_padding := (if rest = [] then sr_padding r else sr_padding m)\<rparr>, t')"
proof -
  let ?n = "unat (so_pad_len (sr_options m))"
  have l: "length (so_buffer (sr_options m)) = 16" "length (sr_ciphertext m) = 32"
    "length (so_buffer (sr_options r)) = 16" "length (sr_ciphertext r) = 32" using m(1) r(1) by (simp_all add: sr_sized_def)
  have pl: "\<not> (?n < MinPaddingSize \<or> MaxPaddingSize < ?n)" using m(2,4) by (simp add: so_ok_def)
  obtain y b e body k s' t' where w: "so_serialize now (sr_options m) = Inr y" "so_fields y = so_fields (sr_options m)"
    "so_pad_len y = so_pad_len (sr_options m)" "R s' t'" "length body = 64" "length k = 32"
    "noise_write_message L s (so_buffer y) (sec_resize (NoisePayloadSize + ?n) (sr_data m)) (Ex ''SessionRequest'' ''Write'') = Inr (b, s')"
    "aes_encrypt C (Some b) 32 a = Inr e" "\<forall>ct. length ct = 32 \<longrightarrow> copy_from CiphertextOffset CiphertextSize e ct = Inr k"
    "copy_to PaddingOffset (sr_padding m) e = Inr (body @ sr_padding m)"
    "\<forall>z. so_deserialize now' (z\<lparr>so_buffer := so_buffer y\<rparr>) = Inr y"
    "\<forall>rest. rest = [] \<or> rest = sr_padding m \<longrightarrow> (\<exists>q. aes_decrypt C (Some (body @ rest)) 32 a = Inr q
       \<and> (\<forall>ct. length ct = 32 \<longrightarrow> copy_from CiphertextOffset CiphertextSize (body @ rest) ct = Inr k
            \<and> copy_from CiphertextOffset CiphertextSize q ct = Inr k)
       \<and> (\<forall>b ex. length b = 16 \<longrightarrow> noise_read_message L t (take NoisePayloadSize q) b ex = Inr (so_buffer y, t'))
       \<and> (rest = [] \<longleftrightarrow> length rest \<noteq> ?n)
       \<and> (rest \<noteq> [] \<longrightarrow> (\<forall>p. copy_from PaddingOffset ?n q (sec_resize ?n p) = Inr (sr_padding m))))"
    by (rule request_options.message_written_read [OF assms(1,2) m(2) l(1) m(3,4) r(2)]) blast
  have "\<exists>x. srq_Read L C now' a (r\<lparr>sr_data := body @ rest\<rparr>) t = Inr (r\<lparr>sr_data := x, sr_options := y, sr_ciphertext := k,
      sr_padding := (if rest = [] then sr_padding r else sr_padding m)\<rparr>, t')" if rest: "rest = [] \<or> rest = sr_padding m" for rest
  proof -
    obtain q where q: "aes_decrypt C (Some (body @ rest)) 32 a = Inr q" and rd: "\<forall>ct. length ct = 32 \<longrightarrow>
        copy_from CiphertextOffset CiphertextSize (body @ rest) ct = Inr k \<and> copy_from CiphertextOffset CiphertextSize q ct = Inr k"
      "\<forall>b ex. length b = 16 \<longrightarrow> noise_read_message L t (take NoisePayloadSize q) b ex = Inr (so_buffer y, t')"
      "rest = [] \<longleftrightarrow> length rest \<noteq> ?n"
      "rest \<noteq> [] \<longrightarrow> (\<forall>p. copy_from PaddingOffset ?n q (sec_resize ?n p) = Inr (sr_padding m))"
      using mp [OF spec [OF w(12)] rest] by (elim exE conjE) (rule that)
    have n: "length (body @ rest) - NoisePayloadSize = length rest" "\<not> (length (body @ rest) < NoisePayloadSize \<or> SrMaxSize < length (body @ rest))"
      using w(5) rest m(3) pl by (auto simp: sr_sizes)
    show ?thesis
      using q rd n w(3,11) l(3,4) pl by (intro exI [of _ q], cases "rest = []") (simp_all add: srq_Read_def Let_def)
  qed
  then show ?thesis
    by (intro that [of "m\<lparr>sr_options := y, sr_ciphertext := k, sr_data := body @ sr_padding m\<rparr>" s' t' body])
      (use w(1-10) l(2) pl in \<open>simp_all add: srq_Write_def Let_def\<close>)
qed

end
