(* ===== verification/SessionCreated.thy ===== *)
theory SessionCreated
  imports SessionRequest
begin

text \<open>
  The second message of the handshake: \<open>src/ntcp2/session_created/message.h\<close>, \<open>kdf.h\<close> (the key
  derivation of the second and the third message) and the handler of \<open>session_created.h\<close>. The
  sizes are those of the first message. The handler's \<open>Initiator\<close> is the side that writes.
\<close>

section \<open>Options and message\<close>

record sc_options =
  co_pad_len :: u16
  co_timestamp :: u32
  co_buffer :: "byte list"

definition co_check_params :: "u32 \<Rightarrow> exception \<Rightarrow> sc_options \<Rightarrow> unit result" where
  "co_check_params now ex x =
     (if unat (co_pad_len x) > MaxPaddingSize then throw_ex ex Length_error ''invalid padding size.''
      else if \<not> check_lag_s now (co_timestamp x) then throw_ex ex Runtime_error ''invalid timestamp.''
      else Inr ())"

definition co_serialize :: "u32 \<Rightarrow> sc_options \<Rightarrow> sc_options result" where
  "co_serialize now x =
     bindr (co_check_params now (Ex ''SessionRequest'' ''serialize'') x) (\<lambda>_.
     bindr (write_be (co_pad_len x) (bytes_on (co_buffer x))) (\<lambda>w.
     bindr (write_be (co_timestamp x) w) (\<lambda>w. Inr (x\<lparr>co_buffer := sbuf w\<rparr>))))"

definition co_deserialize :: "u32 \<Rightarrow> sc_options \<Rightarrow> sc_options result" where
  "co_deserialize now x =
     bindr (read_be (bytes_on (co_buffer x))) (\<lambda>(p, r).
     bindr (read_be r) (\<lambda>(t, r).
     let x = x\<lparr>co_pad_len := p, co_timestamp := t\<rparr> in
     bindr (co_check_params now (Ex ''SessionRequest'' ''deserialize'') x) (\<lambda>_. Inr x)))"

definition co_of_size :: "u32 \<Rightarrow> u16 \<Rightarrow> sc_options result" where
  "co_of_size now padlen =
     co_serialize now \<lparr>co_pad_len = padlen, co_timestamp = now, co_buffer = fixed_default OptionsSize\<rparr>"

definition co_default :: "u32 \<Rightarrow> u32 \<Rightarrow> sc_options result" where
  "co_default now drawn = co_of_size now (ucast drawn)"

definition co_update :: "u32 \<Rightarrow> u16 \<Rightarrow> sc_options \<Rightarrow> sc_options result" where
  "co_update now pad_size x = co_serialize now (x\<lparr>co_pad_len := pad_size, co_timestamp := now\<rparr>)"

record sc_message =
  sc_data :: "byte list"
  sc_padding :: "byte list"
  sc_options :: sc_options
  sc_ciphertext :: "byte list"

definition sc_default :: "u32 \<Rightarrow> u32 \<Rightarrow> rng \<Rightarrow> sc_message result" where
  "sc_default now drawn r =
     bindr (co_default now drawn) (\<lambda>x.
       Inr \<lparr>sc_data = sec_of_size NoisePayloadSize,
         sc_padding = (if co_pad_len x \<noteq> 0 then RandBytes r (sec_resize (unat (co_pad_len x)) []) else []),
         sc_options = x, sc_ciphertext = fixed_default CiphertextSize\<rparr>)"

definition sc_of_size :: "u32 \<Rightarrow> rng \<Rightarrow> u16 \<Rightarrow> sc_message result" where
  "sc_of_size now r padlen =
     bindr (co_of_size now padlen) (\<lambda>x.
       Inr \<lparr>sc_data = [], sc_padding = RandBytes r (sec_resize (unat padlen) []), sc_options = x,
         sc_ciphertext = fixed_default CiphertextSize\<rparr>)"

section \<open>The key derivation\<close>

definition nat_text :: "nat \<Rightarrow> string" where
  "nat_text n = map (\<lambda>b. char_of (unat b)) (to_string n)"

definition sck_new :: "'s option \<Rightarrow> 's result" where
  "sck_new st = (case st of
     None \<Rightarrow> throw_ex (Ex ''SessionCreatedConfirmedKDF'' ''SessionCreatedKDF'') Invalid_argument ''null handshake state.''
   | Some s \<Rightarrow> Inr s)"

definition sck_Derive :: "('s, 'c) noise_lib \<Rightarrow> byte list \<Rightarrow> byte list \<Rightarrow> 's \<Rightarrow> 's result" where
  "sck_Derive L ciphertext pad s =
     (let ex = Ex ''SessionCreatedConfirmedKDF'' ''Derive'' in
      if ciphertext = [] \<or> pad = []
      then throw_ex ex Length_error (''null MixHash parameter(s): ciphertext - '' @ nat_text (length ciphertext)
             @ '' padding - '' @ nat_text (length pad))
      else bindr (mix_hash L s ciphertext ex) (\<lambda>s. mix_hash L s pad ex))"

section \<open>The handler\<close>

definition scr_new ::
  "('s, 'c) noise_lib \<Rightarrow> 's option \<Rightarrow> sr_message \<Rightarrow> byte list \<Rightarrow> byte list \<Rightarrow> ('s \<times> aes) result" where
  "scr_new L st m router_hash iv =
     bindr (sck_new st) (\<lambda>s. case st of
       None \<Rightarrow> throw_ex (Ex ''SessionCreated'' ''SessionCreated'') Invalid_argument ''null handshake state.''
     | Some _ \<Rightarrow> bindr (sck_Derive L (sr_ciphertext m) (sr_padding m) s) (\<lambda>s. Inr (s, aes_new router_hash iv)))"

definition scr_Write ::
  "('s, 'c) noise_lib \<Rightarrow> aes_prims \<Rightarrow> u32 \<Rightarrow> aes \<Rightarrow> sc_message \<Rightarrow> 's \<Rightarrow> (sc_message \<times> 's) result" where
  "scr_Write L C now a m s =
     (let ex = Ex ''SessionCreated'' ''Write'';
          buf = sec_resize (NoisePayloadSize + unat (co_pad_len (sc_options m))) (sc_data m) in
      bindr (co_serialize now (sc_options m)) (\<lambda>x.
      bindr (noise_write_message L s (co_buffer x) buf ex) (\<lambda>(buf, s).
      bindr (aes_encrypt C (Some buf) 32 a) (\<lambda>buf.
      bindr (copy_from CiphertextOffset CiphertextSize buf (sc_ciphertext m)) (\<lambda>ct.
      bindr (if co_pad_len x \<noteq> 0 then copy_to PaddingOffset (sc_padding m) buf else Inr buf) (\<lambda>buf.
        Inr (m\<lparr>sc_options := x, sc_ciphertext := ct, sc_data := buf\<rparr>, s)))))))"

definition scr_Read ::
  "('s, 'c) noise_lib \<Rightarrow> aes_prims \<Rightarrow> u32 \<Rightarrow> aes \<Rightarrow> sc_message \<Rightarrow> 's \<Rightarrow> (sc_message \<times> 's) result" where
  "scr_Read L C now a m s =
     (let ex = Ex ''SessionCreated'' ''Read''; n = length (sc_data m) in
      if n < NoisePayloadSize \<or> n > SrMaxSize then throw_ex ex Length_error ''invalid message size.''
      else
        bindr (aes_decrypt C (Some (sc_data m)) 32 a) (\<lambda>buf.
        bindr (copy_from CiphertextOffset CiphertextSize buf (sc_ciphertext m)) (\<lambda>ct.
        bindr (noise_read_message L s (take NoisePayloadSize buf) (co_buffer (sc_options m)) ex) (\<lambda>(out, s).
        bindr (co_deserialize now ((sc_options m)\<lparr>co_buffer := out\<rparr>)) (\<lambda>x.
        if unat (co_pad_len x) < MinPaddingSize \<or> unat (co_pad_len x) > MaxPaddingSize
        then throw_ex ex Length_error ''invalid padding length.''
        else
          bindr (if n - NoisePayloadSize = unat (co_pad_len x)
                 then copy_from PaddingOffset (unat (co_pad_len x)) buf (sec_resize (unat (co_pad_len x)) (sc_padding m))
                 else Inr (sc_padding m)) (\<lambda>pad.
            Inr (m\<lparr>sc_options := x, sc_ciphertext := ct, sc_data := buf, sc_padding := pad\<rparr>, s)))))))"

definition scr_ProcessMessage ::
  "('s, 'c) noise_lib \<Rightarrow> aes_prims \<Rightarrow> role \<Rightarrow> u32 \<Rightarrow> aes \<Rightarrow> sc_message \<Rightarrow> 's \<Rightarrow> (sc_message \<times> 's) result" where
  "scr_ProcessMessage L C rl now a m s =
     (if rl = Initiator then scr_Write L C now a m s else scr_Read L C now a m s)"

section \<open>A message written and read\<close>

definition co_ok :: "u32 \<Rightarrow> sc_options \<Rightarrow> bool" where
  "co_ok now x \<longleftrightarrow> unat (co_pad_len x) \<le> MaxPaddingSize \<and> check_lag_s now (co_timestamp x)"

lemma co_check_iff: "co_check_params now ex x = Inr u \<longleftrightarrow> co_ok now x"
  by (auto simp: co_check_params_def co_ok_def)

definition co_bytes :: "sc_options \<Rightarrow> byte list" where
  "co_bytes x = be_of_word (co_pad_len x) @ be_of_word (co_timestamp x)"

lemma length_co_bytes [simp]: "length (co_bytes x) = 6"
  by (simp add: co_bytes_def)

lemma co_serialize_eq:
  assumes "co_ok now x" "length (co_buffer x) = 16"
  shows "co_serialize now x = Inr (x\<lparr>co_buffer := co_bytes x @ drop 6 (co_buffer x)\<rparr>)"
proof -
  have c: "co_check_params now (Ex ''SessionRequest'' ''serialize'') x = Inr ()"
    using assms(1) by (simp add: co_check_iff)
  show ?thesis
    using assms(2) by (simp add: co_serialize_def c bytes_on_written write_be_fits written_sel overwrite_def co_bytes_def)
qed

lemma co_deserialize_bytes:
  assumes "co_buffer x = co_bytes y @ rest"
  shows "co_deserialize now x =
    (let z = x\<lparr>co_pad_len := co_pad_len y, co_timestamp := co_timestamp y\<rparr> in
     bindr (co_check_params now (Ex ''SessionRequest'' ''deserialize'') z) (\<lambda>_. Inr z))"
  using assms by (simp add: co_deserialize_def bytes_on_reading co_bytes_def field_get Let_def)

definition sc_sized :: "sc_message \<Rightarrow> bool" where
  "sc_sized m \<longleftrightarrow> length (co_buffer (sc_options m)) = 16 \<and> length (sc_ciphertext m) = 32"

definition co_fields :: "sc_options \<Rightarrow> u16 \<times> u32" where
  "co_fields x = (co_pad_len x, co_timestamp x)"

interpretation created_options: padded_options co_serialize co_deserialize co_buffer "\<lambda>b x. x\<lparr>co_buffer := b\<rparr>" co_pad_len co_fields co_ok
    "\<lambda>now x. check_lag_s now (co_timestamp x)"
proof
  fix now x assume x: "co_ok now x" "length (co_buffer x) = 16"
  show "\<exists>y. co_serialize now x = Inr y \<and> length (co_buffer y) = 16 \<and> co_pad_len y = co_pad_len x \<and> co_fields y = co_fields x
      \<and> (\<forall>now' z. check_lag_s now' (co_timestamp x) \<longrightarrow> co_deserialize now' (z\<lparr>co_buffer := co_buffer y\<rparr>) = Inr y)"
    using co_serialize_eq [OF x] co_deserialize_bytes [where y = x and rest = "drop 6 (co_buffer x)"] x
    by (simp add: co_fields_def co_check_params_def co_ok_def)
qed (simp add: co_ok_def)

lemma scr_write_read:
  assumes "cbc_ok C" "hs_message L 48 R s t"
    and m: "sc_sized m" "co_ok now (sc_options m)" "length (sc_padding m) = unat (co_pad_len (sc_options m))"
      "MinPaddingSize \<le> unat (co_pad_len (sc_options m))"
    and r: "sc_sized r" "check_lag_s now' (co_timestamp (sc_options m))"
  obtains m' s' t' body where "scr_Write L C now a m s = Inr (m', s')" "R s' t'"
    "sc_data m' = body @ sc_padding m" "length body = 64"
    "co_fields (sc_options m') = co_fields (sc_options m)" "sc_padding m' = sc_padding m" "length (sc_ciphertext m') = 32"
    "\<And>rest. rest = [] \<or> rest = sc_padding m \<Longrightarrow>
       \<exists>x. scr_Read L C now' a (r\<lparr>sc_data := body @ rest\<rparr>) t =
         Inr (r\<lparr>sc_data := x, sc_options := sc_options m', sc_ciphertext := sc_ciphertext m',
           sc_padding := (if rest = [] then sc_padding r else sc_padding m)\<rparr>, t')"
proof -
  let ?n = "unat (co_pad_len (sc_options m))"
  have l: "length (co_buffer (sc_options m)) = 16" "length (sc_ciphertext m) = 32"
    "length (co_buffer (sc_options r)) = 16" "length (sc_ciphertext r) = 32" using m(1) r(1) by (simp_all add: sc_sized_def)
  have nz: "co_pad_len (sc_options m) \<noteq> 0" using m(4) by (auto simp: sr_sizes)
  have pl: "\<not> (?n < MinPaddingSize \<or> MaxPaddingSize < ?n)" using m(2,4) by (simp add: co_ok_def)
  obtain y b e body k s' t' where w: "co_serialize now (sc_options m) = Inr y" "co_fields y = co_fields (sc_options m)"
    "co_pad_len y = co_pad_len (sc_options m)" "R s' t'" "length body = 64" "length k = 32"
    "noise_write_message L s (co_buffer y) (sec_resize (NoisePayloadSize + ?n) (sc_data m)) (Ex ''SessionCreated'' ''Write'') = Inr (b, s')"
    "aes_encrypt C (Some b) 32 a = Inr e" "\<forall>ct. length ct = 32 \<longrightarrow> copy_from CiphertextOffset CiphertextSize e ct = Inr k"
    "copy_to PaddingOffset (sc_padding m) e = Inr (body @ sc_padding m)"
    "\<forall>z. co_deserialize now' (z\<lparr>co_buffer := co_buffer y\<rparr>) = Inr y"
    "\<forall>rest. rest = [] \<or> rest = sc_padding m \<longrightarrow> (\<exists>q. aes_decrypt C (Some (body @ rest)) 32 a = Inr q
       \<and> (\<forall>ct. length ct = 32 \<longrightarrow> copy_from CiphertextOffset CiphertextSize (body @ rest) ct = Inr k
            \<and> copy_from CiphertextOffset CiphertextSize q ct = Inr k)
       \<and> (\<forall>b ex. length b = 16 \<longrightarrow> noise_read_message L t (take NoisePayloadSize q) b ex = Inr (co_buffer y, t'))
       \<and> (rest = [] \<longleftrightarrow> length rest \<noteq> ?n)
       \<and> (rest \<noteq> [] \<longrightarrow> (\<forall>p. copy_from PaddingOffset ?n q (sec_resize ?n p) = Inr (sc_padding m))))"
    by (rule created_options.message_written_read [OF assms(1,2) m(2) l(1) m(3,4) r(2)]) blast
  have "\<exists>x. scr_Read L C now' a (r\<lparr>sc_data := body @ rest\<rparr>) t = Inr (r\<lparr>sc_data := x, sc_options := y, sc_ciphertext := k,
      sc_padding := (if rest = [] then sc_padding r else sc_padding m)\<rparr>, t')" if rest: "rest = [] \<or> rest = sc_padding m" for rest
  proof -
    obtain q where q: "aes_decrypt C (Some (body @ rest)) 32 a = Inr q" and rd: "\<forall>ct. length ct = 32 \<longrightarrow>
        copy_from CiphertextOffset CiphertextSize (body @ rest) ct = Inr k \<and> copy_from CiphertextOffset CiphertextSize q ct = Inr k"
      "\<forall>b ex. length b = 16 \<longrightarrow> noise_read_message L t (take NoisePayloadSize q) b ex = Inr (co_buffer y, t')"
      "rest = [] \<longleftrightarrow> length rest \<noteq> ?n"
      "rest \<noteq> [] \<longrightarrow> (\<forall>p. copy_from PaddingOffset ?n q (sec_resize ?n p) = Inr (sc_padding m))"
      using mp [OF spec [OF w(12)] rest] by (elim exE conjE) (rule that)
    have n: "length (body @ rest) - NoisePayloadSize = length rest" "\<not> (length (body @ rest) < NoisePayloadSize \<or> SrMaxSize < length (body @ rest))"
      using w(5) rest m(3) pl by (auto simp: sr_sizes)
    show ?thesis
      using q rd n w(3,11) l(3,4) pl by (intro exI [of _ q], cases "rest = []") (simp_all add: scr_Read_def Let_def)
  qed
  then show ?thesis
    by (intro that [of "m\<lparr>sc_options := y, sc_ciphertext := k, sc_data := body @ sc_padding m\<rparr>" s' t' body])
      (use w(1-10) l(2) nz in \<open>simp_all add: scr_Write_def Let_def\<close>)
qed

text \<open>The constructors both sides run mix the same bytes into their hashes.\<close>

lemma sck_Derive_pair:
  assumes "hs_mix L (hs_mix L R) s t" "ct \<noteq> []" "pad \<noteq> []"
  obtains s' t' where "sck_Derive L ct pad s = Inr s'" "sck_Derive L ct pad t = Inr t'" "R s' t'"
proof -
  let ?ex = "Ex ''SessionCreatedConfirmedKDF'' ''Derive''"
  obtain s1 t1 where 1: "mix_hash L s ct ?ex = Inr s1" "\<And>ex. mix_hash L t ct ex = Inr t1" "hs_mix L R s1 t1"
    by (rule hs_mixE [OF assms(1), where b = ct and ex = ?ex]) blast
  obtain s2 t2 where 2: "mix_hash L s1 pad ?ex = Inr s2" "\<And>ex. mix_hash L t1 pad ex = Inr t2" "R s2 t2"
    by (rule hs_mixE [OF 1(3), where b = pad and ex = ?ex]) blast
  show ?thesis using that [OF _ _ 2(3)] 1 2 assms(2,3) by (simp add: sck_Derive_def)
qed

end
