(* ===== verification/SessionConfirmed.thy ===== *)
theory SessionConfirmed
  imports SessionCreated BlockList
begin

text \<open>
  The third message of the handshake: \<open>src/ntcp2/session_confirmed/message.h\<close> and the handler of
  \<open>session_confirmed.h\<close>. \<open>V k\<close> is what the \<open>k\<close>-th block of the message draws from outside. The
  options block of a message is default-constructed and never empty, so it is always part of
  what is sent.
\<close>

section \<open>The message\<close>

definition CfMinPayloadSize :: nat where "CfMinPayloadSize = InfoMinLen + 16"
definition CfMaxPayloadSize :: nat where "CfMaxPayloadSize = 65471"
definition CfMinPaddingSize :: nat where "CfMinPaddingSize = 32"
definition CfMaxPaddingSize :: nat where "CfMaxPaddingSize = CfMaxPayloadSize - CfMinPayloadSize"
definition PartOneSize :: nat where "PartOneSize = 32 + 16"
definition CfMinSize :: nat where "CfMinSize = PartOneSize + CfMinPayloadSize"
definition CfMaxSize :: nat where "CfMaxSize = PartOneSize + CfMaxPayloadSize"

lemmas cf_sizes = CfMinPayloadSize_def CfMaxPayloadSize_def CfMinPaddingSize_def CfMaxPaddingSize_def
  PartOneSize_def CfMinSize_def CfMaxSize_def InfoMinLen_def

record conf_message =
  cf_data :: "byte list"
  cf_payload :: "byte list"
  cf_info :: info_block
  cf_opt :: options_block
  cf_pad :: padding_block

text \<open>The sizes, which are cut to 16 bits.\<close>

definition cf_payload_size :: "conf_message \<Rightarrow> u16" where
  "cf_payload_size m =
     word_of_nat (unat (block_size (cf_info m))
       + (if block_data_size (cf_opt m) \<noteq> 0 then unat (block_size (cf_opt m)) else 0)
       + (if block_data_size (cf_pad m) \<noteq> 0 then unat (block_size (cf_pad m)) else 0) + 16)"

definition cf_size :: "conf_message \<Rightarrow> u16" where
  "cf_size m = word_of_nat (PartOneSize + unat (cf_payload_size m))"

definition cf_serialize :: "(nat \<Rightarrow> block_env) \<Rightarrow> conf_message \<Rightarrow> conf_message result" where
  "cf_serialize V m =
     (let m = m\<lparr>cf_data := sec_resize (unat (cf_size m)) (cf_data m),
                cf_payload := sec_resize (unat (cf_payload_size m)) (cf_payload m)\<rparr> in
      bindr (ib_serialize (V 0) (cf_info m)) (\<lambda>i.
      bindr (write_data (block_buf i) (bytes_on (cf_payload m))) (\<lambda>w.
      bindr (if block_data_size (cf_opt m) \<noteq> 0
             then bindr (opt_serialize (cf_opt m)) (\<lambda>o'. bindr (write_data (block_buf o') w) (\<lambda>w. Inr (o', w)))
             else Inr (cf_opt m, w)) (\<lambda>(o', w).
      bindr (if block_data_size (cf_pad m) \<noteq> 0
             then bindr (pad_serialize (be_rng (V 2)) (cf_pad m)) (\<lambda>p. bindr (write_data (block_buf p) w) (\<lambda>w. Inr (p, w)))
             else Inr (cf_pad m, w)) (\<lambda>(p, w).
        Inr (m\<lparr>cf_info := i, cf_opt := o', cf_pad := p, cf_payload := sbuf w\<rparr>))))))"

text \<open>
  The constructors: a message of a given size to read into, and messages made from a router info
  with padding of a drawn or a given length.
\<close>

definition cf_of_size :: "u16 \<Rightarrow> conf_message result" where
  "cf_of_size n =
     bindr opt_default (\<lambda>o'. bindr pad_default (\<lambda>p.
       Inr \<lparr>cf_data = sec_of_size (unat n), cf_payload = [], cf_info = ib_default, cf_opt = o', cf_pad = p\<rparr>))"

definition cf_of_info :: "(nat \<Rightarrow> block_env) \<Rightarrow> (nat \<Rightarrow> block_env) \<Rightarrow> info option \<Rightarrow> u16 \<Rightarrow> conf_message result" where
  "cf_of_info U V i padlen =
     bindr (ib_of_info (U 0) i) (\<lambda>ib. bindr opt_default (\<lambda>o'. bindr (pad_of_size (be_rng (U 2)) padlen) (\<lambda>p.
       cf_serialize V \<lparr>cf_data = [], cf_payload = [], cf_info = ib, cf_opt = o', cf_pad = p\<rparr>)))"

definition cf_of_info_drawn ::
  "(nat \<Rightarrow> block_env) \<Rightarrow> (nat \<Rightarrow> block_env) \<Rightarrow> info option \<Rightarrow> u32 \<Rightarrow> conf_message result" where
  "cf_of_info_drawn U V i drawn = cf_of_info U V i (ucast drawn)"

section \<open>Deserialization\<close>

text \<open>
  \<open>read_deserialize\<close>: the size is read past the position of the reader; a block without data is
  skipped and keeps what the message held.
\<close>

definition read_deserialize ::
  "('b \<Rightarrow> byte list \<Rightarrow> 'b) \<Rightarrow> ('b \<Rightarrow> 'b result) \<Rightarrow> 'b \<Rightarrow> bytes \<Rightarrow> ('b \<times> bytes) result" where
  "read_deserialize set_buf deser b r =
     bindr (raw_read_bytes 2 (Some (drop (count r + 1) (sbuf r)))) (\<lambda>n.
     let block_size = (word_of_be n :: u16) in
     if block_size \<noteq> 0
     then bindr (read_data (HeaderLen + unat block_size) r) (\<lambda>(buf, r).
          bindr (deser (set_buf b buf)) (\<lambda>b. Inr (b, r)))
     else bindr (skip_bytes HeaderLen r) (\<lambda>r. Inr (b, r)))"

definition cf_process_block ::
  "(nat \<Rightarrow> block_env) \<Rightarrow> nat \<Rightarrow> conf_message \<Rightarrow> bytes \<Rightarrow> (nat \<times> conf_message \<times> bytes) result" where
  "cf_process_block V block_count m r =
     (let ex = Ex ''SessionConfirmedMessage'' ''deserialize'' in
      bindr (raw_read_bytes 1 (Some (drop (count r) (sbuf r)))) (\<lambda>t.
      let block_type = (word_of_be t :: byte) in
      if block_count = 0 \<and> block_type \<noteq> Info
      then throw_ex ex Logic_error ''RouterInfo must be the first block.''
      else if block_count = 1 \<and> block_type \<noteq> Options \<and> block_type \<noteq> Padding
      then throw_ex ex Logic_error ''second block must be Options or Padding block.''
      else if block_count = 2 \<and> block_type \<noteq> Padding
      then throw_ex ex Logic_error ''last block must be Padding block.''
      else if block_count = 3 then throw_ex ex Logic_error ''Padding must be the final block.''
      else if block_type = Info
      then bindr (read_deserialize (\<lambda>b x. b\<lparr>block_buf := x\<rparr>) (ib_deserialize (V 0)) (cf_info m) r)
             (\<lambda>(b, r). Inr (block_count + 1, m\<lparr>cf_info := b\<rparr>, r))
      else if block_type = Options
      then bindr (read_deserialize (\<lambda>b x. b\<lparr>block_buf := x\<rparr>) opt_deserialize (cf_opt m) r)
             (\<lambda>(b, r). Inr (block_count + 1, m\<lparr>cf_opt := b\<rparr>, r))
      else if block_type = Padding
      then bindr (read_deserialize (\<lambda>b x. b\<lparr>block_buf := x\<rparr>) pad_deserialize (cf_pad m) r)
             (\<lambda>(b, r). Inr (3, m\<lparr>cf_pad := b\<rparr>, r))
      else Inr (block_count, m, r)))"

text \<open>Every pass of the loop takes at least a header, since every other type throws.\<close>

lemma read_deserialize_consumes:
  "read_deserialize f d b r = Inr (b', r') \<Longrightarrow> gcount r' + HeaderLen \<le> gcount r \<and> sbuf r' = sbuf r"
  by (auto simp: read_deserialize_def read_data_def skip_bytes_def check_buf_def advance_def result_simps Let_def
      HeaderLen_def gcount_def split: if_splits)

lemma cf_process_block_consumes:
  assumes "cf_process_block V k m r = Inr (k', m', r')" "k \<le> 3"
  shows "gcount r' + HeaderLen \<le> gcount r \<and> k < k' \<and> k' \<le> 3"
proof -
  have lt: "k = 0 \<or> k = 1 \<or> k = 2 \<or> k = 3" using assms(2) by auto
  show ?thesis
    using assms(1) lt unfolding cf_process_block_def Let_def
    by (auto simp: result_simps dest!: read_deserialize_consumes split: if_splits)
qed

text \<open>The loop, which may read three blocks at most.\<close>

function cf_blocks :: "(nat \<Rightarrow> block_env) \<Rightarrow> nat \<Rightarrow> conf_message \<Rightarrow> bytes \<Rightarrow> (conf_message \<times> bytes) result" where
  "cf_blocks V k m r =
     (if k \<le> 3 \<and> gcount r \<ge> HeaderLen + 16
      then bindr (cf_process_block V k m r) (\<lambda>(k, m, r). cf_blocks V k m r)
      else Inr (m, r))"
  by pat_completeness auto
termination
  by (relation "measure (\<lambda>(V, k, m, r). gcount r)") (auto dest!: cf_process_block_consumes simp: HeaderLen_def)

declare cf_blocks.simps [simp del]

definition cf_deserialize :: "(nat \<Rightarrow> block_env) \<Rightarrow> conf_message \<Rightarrow> conf_message result" where
  "cf_deserialize V m =
     (let ex = Ex ''SessionConfirmedMessage'' ''deserialize''; r = bytes_on (cf_payload m) in
      if gcount r \<le> 16 then throw_ex ex Logic_error ''payload must contain a RouterInfo block.''
      else
        bindr (cf_blocks V 0 m r) (\<lambda>(m, r).
        if gcount r > 16 then throw_ex ex Length_error ''invalid trailing bytes.'' else Inr m))"

section \<open>The handler\<close>

definition sco_new :: "('s, 'c) noise_lib \<Rightarrow> 's option \<Rightarrow> sc_message \<Rightarrow> 's result" where
  "sco_new L st m =
     bindr (sck_new st) (\<lambda>s. case st of
       None \<Rightarrow> throw_ex (Ex ''SessionConfirmed'' ''SessionConfirmed'') Invalid_argument ''null handshake state.''
     | Some _ \<Rightarrow> sck_Derive L (sc_ciphertext m) (sc_padding m) s)"

definition sco_Write ::
  "('s, 'c) noise_lib \<Rightarrow> (nat \<Rightarrow> block_env) \<Rightarrow> sr_options \<Rightarrow> conf_message \<Rightarrow> 's \<Rightarrow> (conf_message \<times> 's) result" where
  "sco_Write L V opts m s =
     (let ex = Ex ''SessionConfirmed'' ''Write'' in
      bindr (cf_serialize V m) (\<lambda>m.
      if so_m3p2_len opts \<noteq> cf_payload_size m
      then throw_ex ex Logic_error ''part two size must equal size sent in SessionRequest.''
      else
        bindr (noise_write_message L s (take (length (cf_payload m) - 16) (cf_payload m)) (cf_data m) ex)
          (\<lambda>(buf, s). Inr (m\<lparr>cf_data := buf\<rparr>, s))))"

definition sco_Read ::
  "('s, 'c) noise_lib \<Rightarrow> (nat \<Rightarrow> block_env) \<Rightarrow> sr_options \<Rightarrow> conf_message \<Rightarrow> 's \<Rightarrow> (conf_message \<times> 's) result" where
  "sco_Read L V opts m s =
     (let ex = Ex ''SessionConfirmed'' ''Read''; n = unat (so_m3p2_len opts) in
      if n < 16 then Inl (Throw Length_error ''vector::_M_default_append'')
      else
        let payload = sec_resize (n - 16) (cf_payload m) in
        if length (cf_data m) < CfMinSize \<or> length (cf_data m) > CfMaxSize
        then throw_ex ex Length_error ''invalid message size.''
        else
          bindr (noise_read_message L s (cf_data m) payload ex) (\<lambda>(payload, s).
          if n \<noteq> length payload + 16
          then throw_ex ex Logic_error ''part two size must equal size sent in SessionRequest.''
          else bindr (cf_deserialize V (m\<lparr>cf_payload := payload\<rparr>)) (\<lambda>m. Inr (m, s))))"

definition sco_ProcessMessage ::
  "('s, 'c) noise_lib \<Rightarrow> (nat \<Rightarrow> block_env) \<Rightarrow> role \<Rightarrow> sr_options \<Rightarrow> conf_message \<Rightarrow> 's \<Rightarrow> (conf_message \<times> 's) result" where
  "sco_ProcessMessage L V rl opts m s =
     (if rl = Initiator then sco_Write L V opts m s else sco_Read L V opts m s)"

section \<open>What a message serializes to\<close>

text \<open>
  The frames of the three blocks. A message whose blocks have the sizes their constructors give
  them, and fits into 16 bits.
\<close>

definition cf_frames :: "conf_message \<Rightarrow> byte list" where
  "cf_frames m = val_frame (info_val (cf_info m)) @ frame Options (opt_payload (cf_opt m))
     @ frame Padding (pad_bytes (cf_pad m))"

definition cf_sized :: "(nat \<Rightarrow> block_env) \<Rightarrow> conf_message \<Rightarrow> bool" where
  "cf_sized V m \<longleftrightarrow> info_sized (V 0) (cf_info m) \<and> length (block_buf (cf_opt m)) = 15 \<and> block_data_size (cf_opt m) = 12
     \<and> pad_bytes (cf_pad m) \<noteq> [] \<and> block_data_size (cf_pad m) = word_of_nat (length (pad_bytes (cf_pad m)))
     \<and> unat (block_size (cf_info m)) + length (pad_bytes (cf_pad m)) \<le> 65452"

lemma pad_serialize_keeps:
  "pad_serialize r b = Inr b' \<Longrightarrow> length (pad_bytes b') = length (pad_bytes b)
     \<and> block_data_size b' = word_of_nat (length (pad_bytes b))"
  by (auto simp: pad_serialize_def Let_def result_simps split: if_splits)

lemma ib_serialize_keeps: "ib_serialize V b = Inr b' \<Longrightarrow> block_data_size b' = block_data_size b"
  by (auto simp: ib_serialize_def Let_def result_simps)

lemma opt_serialize_keeps: "opt_serialize b = Inr b' \<Longrightarrow> block_data_size b' = block_data_size b"
  by (auto simp: opt_serialize_def result_simps)

lemma cf_sizes_sized:
  assumes "cf_sized V m"
  shows "unat (cf_payload_size m) = unat (block_size (cf_info m)) + length (pad_bytes (cf_pad m)) + 34"
    and "unat (cf_size m) = unat (block_size (cf_info m)) + length (pad_bytes (cf_pad m)) + 82"
proof -
  let ?n = "length (pad_bytes (cf_pad m))"
  have pn: "?n \<noteq> 0" "block_data_size (cf_pad m) = word_of_nat ?n" "block_data_size (cf_opt m) = 12"
    and lim: "unat (block_size (cf_info m)) + ?n \<le> 65452"
    using assms by (auto simp: cf_sized_def)
  have un: "unat (word_of_nat ?n :: u16) = ?n" using lim by (intro u16_small) simp
  then have nz: "block_data_size (cf_pad m) \<noteq> 0" using pn by auto
  have "cf_payload_size m = word_of_nat (unat (block_size (cf_info m)) + ?n + 34)"
    using nz pn(2,3) un by (simp add: cf_payload_size_def block_size_def HeaderLen_def)
  then show sz: "unat (cf_payload_size m) = unat (block_size (cf_info m)) + ?n + 34"
    using lim u16_small [of "unat (block_size (cf_info m)) + ?n + 34"] by simp
  show "unat (cf_size m) = unat (block_size (cf_info m)) + ?n + 82"
    using lim u16_small [of "unat (block_size (cf_info m)) + ?n + 82"] by (simp add: cf_size_def sz PartOneSize_def ac_simps)
qed

lemma cf_blocks_written:
  assumes z: "cf_sized V m" and s: "ib_serialize (V 0) (cf_info m) = Inr i" "opt_serialize (cf_opt m) = Inr o'"
    "pad_serialize rng (cf_pad m) = Inr p"
  shows "block_buf i = val_frame (info_val i)" "block_buf o' = frame Options (opt_payload o')" "block_buf p = frame Padding (pad_bytes p)"
    and "length (block_buf i) = unat (block_size (cf_info m))" "length (block_buf o') = 15"
    and "length (pad_bytes p) = length (pad_bytes (cf_pad m))"
    and "block_data_size i = block_data_size (cf_info m)" "block_data_size o' = block_data_size (cf_opt m)"
      "block_data_size p = block_data_size (cf_pad m)"
    and "\<exists>x. ib_info i = Some x" "drop_bit 1 (ib_flag i) = 0"
proof -
  have isz: "info_sized (V 0) (cf_info m)" "length (block_buf (cf_opt m)) = 15"
    using z by (auto simp: cf_sized_def)
  show ik: "block_data_size i = block_data_size (cf_info m)" by (rule ib_serialize_keeps [OF s(1)])
  obtain x where x: "ib_info i = Some x" "block_buf i = frame Info (ib_flag i # ri_buf x)" "unat (block_size i) = 4 + length (ri_buf x)"
    using ib_ser_frame [OF s(1) isz(1)] by blast
  show "\<exists>x. ib_info i = Some x" using x(1) by blast
  have "block_size i = block_size (cf_info m)" using ik by (simp add: block_size_def)
  then show "length (block_buf i) = unat (block_size (cf_info m))" unfolding x(2) length_frame using x(3) by simp
  show "drop_bit 1 (ib_flag i) = 0"
    using ib_serialize_Inr [OF s(1)] s(1) by (auto simp: ib_serialize_def Let_def result_simps)
  show "block_buf i = val_frame (info_val i)" by (rule info_serialized_frame [OF s(1) isz(1)])
  show o: "block_buf o' = frame Options (opt_payload o')" "block_data_size o' = block_data_size (cf_opt m)"
    using opt_ser_frame [OF s(2) isz(2)] opt_serialize_keeps [OF s(2)] by simp_all
  show "length (block_buf o') = 15" unfolding o(1) by (simp add: opt_payload_def)
  show "block_buf p = frame Padding (pad_bytes p)" "length (pad_bytes p) = length (pad_bytes (cf_pad m))"
    "block_data_size p = block_data_size (cf_pad m)"
    using pad_ser_frame [OF s(3)] pad_serialize_keeps [OF s(3)] z by (auto simp: cf_sized_def)
qed

lemma cf_serialize_frames:
  assumes "cf_serialize V m = Inr m'" "cf_sized V m"
  obtains tail where "cf_payload m' = cf_frames m' @ tail" "length tail = 16"
    "unat (cf_payload_size m') = length (cf_frames m') + 16" "length (cf_data m') = 64 + length (cf_frames m')"
    "\<exists>i. ib_info (cf_info m') = Some i" "cf_payload_size m' = cf_payload_size m"
    "length (pad_bytes (cf_pad m')) = length (pad_bytes (cf_pad m))" "drop_bit 1 (ib_flag (cf_info m')) = 0"
proof -
  let ?n = "length (pad_bytes (cf_pad m))"
  have "unat (block_data_size (cf_pad m)) = ?n"
    using assms(2) u16_small [of ?n] by (auto simp: cf_sized_def)
  then have nz: "block_data_size (cf_opt m) \<noteq> 0" "block_data_size (cf_pad m) \<noteq> 0"
    using assms(2) by (auto simp: cf_sized_def)
  let ?pl = "sec_resize (unat (cf_payload_size m)) (cf_payload m)" and ?L = "unat (block_size (cf_info m)) + ?n + 18"
  obtain i w1 o' w2 p w3 where s: "ib_serialize (V 0) (cf_info m) = Inr i"
    "write_data (block_buf i) (bytes_on ?pl) = Inr w1"
    "opt_serialize (cf_opt m) = Inr o'" "write_data (block_buf o') w1 = Inr w2"
    "pad_serialize (be_rng (V 2)) (cf_pad m) = Inr p" "write_data (block_buf p) w2 = Inr w3"
    and m': "m' = m\<lparr>cf_data := sec_resize (unat (cf_size m)) (cf_data m), cf_info := i, cf_opt := o', cf_pad := p, cf_payload := sbuf w3\<rparr>"
    using assms(1) nz unfolding cf_serialize_def Let_def by (auto simp: result_simps)
  note b = cf_blocks_written [OF assms(2) s(1,3,5)] and sz = cf_sizes_sized [OF assms(2)]
  have ps: "cf_payload_size m = cf_payload_size m'" by (simp add: cf_payload_size_def m' block_size_def b(7-9))
  have pl: "length ?pl = ?L + 16" by (simp add: sz(1) sec_resize_def)
  have fr: "cf_frames m' = block_buf i @ block_buf o' @ block_buf p" by (simp add: cf_frames_def m' b(1-3))
  have lp: "length (block_buf p) = 3 + ?n" by (simp add: b(3,6))
  have fl: "length (cf_frames m') = ?L" unfolding fr using b(4,5) lp by simp
  have "w1 = written (block_buf i) ?pl"
    using s(2) b(4) pl by (simp add: bytes_on_written write_data_fits)
  then have "w2 = written (block_buf i @ block_buf o') ?pl"
    using s(4) b(4,5) pl by (simp add: write_data_fits)
  then have w3: "w3 = written (cf_frames m') ?pl"
    using s(6) b(4,5) lp pl by (simp add: write_data_fits fr)
  have cp: "cf_payload m' = sbuf w3" unfolding m' by simp
  have py: "cf_payload m' = cf_frames m' @ drop ?L ?pl"
    unfolding cp w3 written_sel overwrite_def fl ..
  show ?thesis
    by (rule that [OF py]) (use pl fl sz ps b(6,10,11) in \<open>simp_all add: m' sec_resize_def\<close>)
qed

section \<open>A message read back\<close>

lemma read_deserialize_frame:
  assumes "p \<noteq> []" "length p \<le> 65535"
  shows "read_deserialize f d b (reading pre (frame t p @ rest)) =
    bindr (d (f b (frame t p))) (\<lambda>b. Inr (b, reading (pre @ frame t p) rest))"
proof -
  have n: "raw_read_bytes 2 (Some (drop (count (reading pre (frame t p @ rest)) + 1) (sbuf (reading pre (frame t p @ rest))))) =
      Inr (be_of_word (word_of_nat (length p) :: u16))"
    by (simp add: raw_read_bytes_def count_def reading_sel frame_def)
  have u: "unat (word_of_nat (length p) :: u16) = length p" using assms(2) by (rule u16_small)
  then have nz: "(word_of_nat (length p) :: u16) \<noteq> 0" using assms(1) by auto
  have wb: "word_of_be (be_of_word (w :: u16)) = w" for w by simp
  have rd: "read_data (HeaderLen + length p) (reading pre (frame t p @ rest)) =
      Inr (frame t p, reading (pre @ frame t p) rest)"
    by (simp add: read_data_reading HeaderLen_def)
  show ?thesis
    unfolding read_deserialize_def n bindr_simps Let_def wb if_P [OF nz] u rd prod.case by simp
qed

lemma block_type_frame:
  "raw_read_bytes 1 (Some (drop (count (reading pre (frame t p @ rest))) (sbuf (reading pre (frame t p @ rest))))) = Inr [t]"
  by (simp add: raw_read_bytes_def count_def reading_sel frame_def)


lemma length_opt_payload [simp]: "length (opt_payload b) = 12"
  by (simp add: opt_payload_def)

lemma cf_blocks_stop: "gcount r < 19 \<Longrightarrow> cf_blocks V k m r = Inr (m, r)"
  by (subst cf_blocks.simps) (simp add: HeaderLen_def)

lemma cf_blocks_step:
  assumes "k \<le> 3" "19 \<le> gcount r" "cf_process_block V k m r = Inr (k', m', r')"
  shows "cf_blocks V k m r = cf_blocks V k' m' r'"
  by (subst cf_blocks.simps) (use assms in \<open>simp add: HeaderLen_def\<close>)

text \<open>
  Three blocks in a row. The reader goes on while more than a header and a MAC are left, but the
  payload it is given has no MAC any more: padding of less than 16 bytes is not read, and of 14 or
  15 bytes it is an error.
\<close>

lemma cf_deserialize_frames:
  assumes pl: "cf_payload r = val_frame (InfoV f bs) @ frame Options (opt_payload x) @ frame Padding p"
    and ok: "drop_bit 1 f = 0" "info_readable (V 0) bs" "p \<noteq> []" "length p \<le> MaxPaddingLen"
  obtains ib ob where "info_val ib = InfoV f bs" "options_val ob = options_val x"
    "ib_deserialize (V 0) ((cf_info r)\<lparr>block_buf := frame Info (f # bs)\<rparr>) = Inr ib"
    "cf_deserialize V r =
      (if 16 \<le> length p
       then Inr (r\<lparr>cf_info := ib, cf_opt := ob,
         cf_pad := (cf_pad r)\<lparr>block_buf := frame Padding p, block_type := Padding,
           block_data_size := word_of_nat (length p), pad_bytes := p\<rparr>\<rparr>)
       else if length p \<le> 13 then Inr (r\<lparr>cf_info := ib, cf_opt := ob\<rparr>)
       else throw_ex (Ex ''SessionConfirmedMessage'' ''deserialize'') Length_error ''invalid trailing bytes.'')"
proof -
  let ?i = "frame Info (f # bs)" and ?o = "frame Options (opt_payload x)" and ?p = "frame Padding p"
  have bl: "length bs \<le> MaxLen" using ok(2) by (auto simp: info_readable_def)
  obtain ib where ib: "ib_deserialize (V 0) ((cf_info r)\<lparr>block_buf := ?i\<rparr>) = Inr ib" "info_val ib = InfoV f bs"
    using info_val_deserialized [of "(cf_info r)\<lparr>block_buf := ?i\<rparr>" f bs "V 0"] ok(1,2) by auto
  have "block_buf ((cf_opt r)\<lparr>block_buf := ?o\<rparr>) = val_frame (options_val x)" by (simp only: view_payloads(1)) simp
  from options_val_deserialized [OF this [unfolded options_val_def [of x]]]
  obtain ob where ob: "opt_deserialize ((cf_opt r)\<lparr>block_buf := ?o\<rparr>) = Inr ob" "options_val ob = options_val x"
    unfolding options_val_def [of x] by auto
  let ?pb = "(cf_pad r)\<lparr>block_buf := ?p, block_type := Padding, block_data_size := word_of_nat (length p), pad_bytes := p\<rparr>"
  have pb: "pad_deserialize ((cf_pad r)\<lparr>block_buf := ?p\<rparr>) = Inr ?pb"
    using pad_deserialize_frame [of "(cf_pad r)\<lparr>block_buf := ?p\<rparr>" p] ok(3,4) by simp
  let ?r1 = "reading ?i (?o @ ?p)" and ?r2 = "reading (?i @ ?o) ?p"
  let ?m1 = "r\<lparr>cf_info := ib\<rparr>" and ?m2 = "r\<lparr>cf_info := ib, cf_opt := ob\<rparr>"
  have s1: "cf_process_block V 0 r (reading [] (?i @ ?o @ ?p)) = Inr (1, ?m1, ?r1)"
    using bl ib(1) unfolding cf_process_block_def Let_def
    by (subst block_type_frame, subst read_deserialize_frame) (simp_all add: block_types MaxLen_def)
  have s2: "cf_process_block V 1 ?m1 ?r1 = Inr (2, ?m2, ?r2)"
    using ob(1) unfolding cf_process_block_def Let_def
    by (subst block_type_frame, subst read_deserialize_frame) (simp_all add: block_types opt_payload_def)
  have s3: "cf_process_block V 2 ?m2 ?r2 = Inr (3, ?m2\<lparr>cf_pad := ?pb\<rparr>, reading (?i @ ?o @ ?p) [])"
    using pb ok(3,4) read_deserialize_frame [of p "\<lambda>b x. b\<lparr>block_buf := x\<rparr>" pad_deserialize "cf_pad r" "?i @ ?o" Padding "[]"]
    unfolding cf_process_block_def Let_def
    using block_type_frame [of "?i @ ?o" Padding p "[]"] by (simp add: block_types MaxPaddingLen_eq)
  have b1: "cf_blocks V 0 r (reading [] (?i @ ?o @ ?p)) = cf_blocks V 2 ?m2 ?r2"
    using cf_blocks_step [OF _ _ s1] cf_blocks_step [OF _ _ s2] ok(3) by (simp add: bytes_simps Suc_le_eq)
  have "cf_deserialize V r =
      (if 16 \<le> length p then Inr (?m2\<lparr>cf_pad := ?pb\<rparr>) else if length p \<le> 13 then Inr ?m2
       else throw_ex (Ex ''SessionConfirmedMessage'' ''deserialize'') Length_error ''invalid trailing bytes.'')"
  proof (cases "16 \<le> length p")
    case True
    then have "cf_blocks V 2 ?m2 ?r2 = Inr (?m2\<lparr>cf_pad := ?pb\<rparr>, reading (?i @ ?o @ ?p) [])"
      using cf_blocks_step [OF _ _ s3] by (simp add: bytes_simps cf_blocks_stop)
    with True show ?thesis
      using b1 by (simp add: cf_deserialize_def pl bytes_on_reading reading_sel)
  next
    case False
    then have "cf_blocks V 2 ?m2 ?r2 = Inr (?m2, ?r2)" by (simp add: bytes_simps cf_blocks_stop)
    with False show ?thesis
      using b1 by (simp add: cf_deserialize_def pl bytes_on_reading reading_sel)
  qed
  then show ?thesis by (rule that [OF ib(2) ob(2) ib(1)])
qed


text \<open>The handlers: what the reader is given to deserialize are the frames of the writer.\<close>

lemma sco_write_read:
  assumes hs: "hs_message L 64 R s t" and ser: "cf_serialize V m = Inr m'" "cf_sized V m"
    and len: "so_m3p2_len opts = cf_payload_size m" "MinMsg3Pt2Size \<le> unat (so_m3p2_len opts)"
      "unat (so_m3p2_len opts) \<le> MaxMsg3Pt2Size"
  obtains buf s' t' where "sco_Write L V opts m s = Inr (m'\<lparr>cf_data := buf\<rparr>, s')" "R s' t'"
    "length buf = PartOneSize + unat (so_m3p2_len opts)"
    "\<And>W r. sco_Read L W opts (r\<lparr>cf_data := buf\<rparr>) t =
       bindr (cf_deserialize W (r\<lparr>cf_data := buf, cf_payload := cf_frames m'\<rparr>)) (\<lambda>m. Inr (m, t'))"
proof -
  obtain tail where py: "cf_payload m' = cf_frames m' @ tail" "length tail = 16"
    "unat (cf_payload_size m') = length (cf_frames m') + 16" "length (cf_data m') = 64 + length (cf_frames m')"
    "cf_payload_size m' = cf_payload_size m"
    by (rule cf_serialize_frames [OF ser]) blast
  obtain msg s' t' where w: "noise_write_message L s (cf_frames m') (cf_data m') (Ex ''SessionConfirmed'' ''Write'') =
      Inr (overwrite 0 msg (cf_data m'), s')" "length msg = length (cf_frames m') + 64" "R s' t'"
    "\<And>b ex'. length (cf_frames m') \<le> length b \<Longrightarrow> noise_read_message L t msg b ex' = Inr (overwrite 0 (cf_frames m') b, t')"
    by (rule hs_messageE [OF hs, of "cf_frames m'" "cf_data m'" "Ex ''SessionConfirmed'' ''Write''"])
      (use py(4) in simp, blast)
  have W: "sco_Write L V opts m s = Inr (m'\<lparr>cf_data := msg\<rparr>, s')"
    using ser(1) w(1,2) py len(1) by (simp add: sco_Write_def overwrite_def)
  have n: "unat (so_m3p2_len opts) = length (cf_frames m') + 16" using py(3,5) len(1) by simp
  have R: "sco_Read L W opts (r\<lparr>cf_data := msg\<rparr>) t =
      bindr (cf_deserialize W (r\<lparr>cf_data := msg, cf_payload := cf_frames m'\<rparr>)) (\<lambda>m. Inr (m, t'))" for W r
    using w(2,4) n len(2,3) by (simp add: sco_Read_def overwrite_def cf_sizes sr_sizes)
  show ?thesis by (rule that [OF W w(3) _ R]) (use w(2) n in \<open>simp add: cf_sizes\<close>)
qed

end
