(* ===== verification/EventLoop.thy ===== *)
theory EventLoop
  imports Main
begin

text \<open>
  The interface of what an I/O context runs: a state that events change one after the other, with
  an invariant and states in which nothing happens any more. Sessions and listeners provide it. A
  loop that ends has a rank, which every event lowers until the state is idle.
\<close>

locale event_loop =
  fixes step :: "'e \<Rightarrow> 's \<Rightarrow> 's" and inv :: "'s \<Rightarrow> bool" and idle :: "'s \<Rightarrow> bool"
  assumes step_inv: "inv s \<Longrightarrow> inv (step e s)"
    and step_idle: "idle s \<Longrightarrow> step e s = s"
begin

lemma run_inv: "inv s \<Longrightarrow> inv (fold step es s)"
  by (induction es arbitrary: s) (simp_all add: step_inv)

lemma run_idle: "idle s \<Longrightarrow> fold step es s = s"
  by (induction es) (simp_all add: step_idle)

lemma idle_stays: "idle (fold step es s) \<Longrightarrow> fold step (es @ fs) s = fold step es s"
  by (simp add: run_idle)

end

locale ending_loop = event_loop +
  fixes rank :: "'b \<Rightarrow> nat"
  assumes step_rank: "inv s \<Longrightarrow> idle (step e s) \<or> rank (step e s) < rank s"
begin

lemma run_ends:
  assumes "inv s" "rank s < length es"
  shows "idle (fold step es s)"
  using assms
proof (induction es arbitrary: s)
  case (Cons e es)
  show ?case
  proof (cases "idle (step e s)")
    case False
    then have "rank (step e s) < length es" using step_rank [OF Cons.prems(1), of e] Cons.prems(2) by auto
    then show ?thesis using Cons step_inv by simp
  qed (simp add: run_idle)
qed simp

end

end
