(* ===== verification/Session.thy ===== *)
theory Session
  imports SessionConfirmed DataPhase EventLoop
begin

text \<open>
  A connection: \<open>src/ntcp2/session/session.h\<close>. A session keeps one asynchronous operation of its
  socket outstanding; when it completes, its handler runs to the end and starts the next one. The
  handlers are functions of the session, the error code and the bytes that were transferred; the
  operation that is outstanding is a field of the session. The network, the clock and the random
  numbers are what an operation is given with its environment.

  The template parameter is a field. The router infos are shared by pointer in the source: a block
  made of a session's own info serializes that info, so the field is updated with it.
\<close>

section \<open>The state of a session\<close>

definition MaxSessions :: nat where "MaxSessions = 3"
definition MaxConnections :: nat where "MaxConnections = 11"

datatype ip = v4 | v6

record ('s, 'c) sess_lib =
  sl_noise :: "('s, 'c) noise_lib"
  sl_aes :: aes_prims
  sl_dp :: dp_prims
  sl_sha :: "byte list \<Rightarrow> byte list"
  sl_make_address :: "byte list \<Rightarrow> byte list result"
  sl_is_v6 :: "byte list \<Rightarrow> bool"

text \<open>
  The environment of an operation: the time, the padding length that \<open>RandInRange\<close> drew, random
  bytes, what the blocks draw, what opening the socket throws, the error code of binding it, and
  the text of the address of the initiating end.
\<close>

record sess_env =
  sn_now :: u32
  sn_drawn :: u32
  sn_rng :: rng
  sn_U :: "nat \<Rightarrow> block_env"
  sn_V :: "nat \<Rightarrow> block_env"
  sn_open :: "unit result"
  sn_bind :: "string option"
  sn_host :: "byte list result"

datatype net_error = Eof | Net_error string

datatype pending =
    Connecting
  | WaitRequest | WriteRequest | ReadRequest | ReadRequestPadding
  | WaitCreated | WriteCreated | ReadCreated | ReadCreatedPadding
  | WaitConfirmed | WriteConfirmed | ReadConfirmed
  | WaitData | WriteData | ReadDataLength | ReadData u16

record ('s, 'c) session =
  ss_role :: role
  ss_state :: 's
  ss_dest :: "info option"
  ss_info :: info
  ss_remote_key :: "byte list"
  ss_connect_key :: "byte list"
  ss_iv :: "byte list"
  ss_remote_host :: "(byte list \<times> u16) option"
  ss_srq :: "sr_message option"
  ss_scr :: "sc_message option"
  ss_sco :: "conf_message option"
  ss_dp_msg :: "data_message option"
  ss_dp :: "'c dp_kdf option"
  ss_ready :: bool
  ss_stopped :: bool
  ss_waiting :: "pending option"

text \<open>Dereferencing a pointer, and a copy of the first \<open>n\<close> bytes of a temporary.\<close>

definition deref :: "'a option \<Rightarrow> 'a result" where
  "deref p = (case p of None \<Rightarrow> Inl (Undefined_behaviour ''null pointer'') | Some x \<Rightarrow> Inr x)"

definition first_bytes :: "nat \<Rightarrow> byte list \<Rightarrow> byte list result" where
  "first_bytes n b = (if length b < n then Inl (Undefined_behaviour ''copy past the end of a buffer'') else Inr (take n b))"

definition decoded_option :: "string \<Rightarrow> info \<Rightarrow> byte list result" where
  "decoded_option k i = bindr (mapping_entry_at (ascii k) (ri_options i)) (Decode Base64)"

section \<open>Constructors\<close>

definition sess_members :: "role \<Rightarrow> 's \<Rightarrow> info option \<Rightarrow> info \<Rightarrow> ('s, 'c) session" where
  "sess_members rl st dest i =
     \<lparr>ss_role = rl, ss_state = st, ss_dest = dest, ss_info = i, ss_remote_key = fixed_default 32,
      ss_connect_key = fixed_default 32, ss_iv = fixed_default 16, ss_remote_host = None,
      ss_srq = None, ss_scr = None, ss_sco = None, ss_dp_msg = None, ss_dp = None,
      ss_ready = False, ss_stopped = False, ss_waiting = None\<rparr>"

definition sess_out :: "('s, 'c) sess_lib \<Rightarrow> sess_env \<Rightarrow> info option \<Rightarrow> info option \<Rightarrow> ('s, 'c) session result" where
  "sess_out L E dest own =
     (let ex = Ex ''Session'' ''Session'' in
      case (dest, own) of
        (Some d, Some i) \<Rightarrow>
          bindr (cf_of_info_drawn (sn_U E) (sn_V E) (Some i) (sn_drawn E)) (\<lambda>sco.
          bindr (init_handshake (sl_noise L) Initiator ex) (\<lambda>st.
          bindr (bindr (decoded_option ''s'' d) (first_bytes 32)) (\<lambda>key.
          bindr (bindr (decoded_option ''i'' d) (first_bytes 16)) (\<lambda>iv.
            Inr ((sess_members Initiator st (Some d) (case ib_info (cf_info sco) of None \<Rightarrow> i | Some i' \<Rightarrow> i'))
              \<lparr>ss_sco := Some sco, ss_remote_key := key, ss_iv := iv\<rparr>)))))
      | _ \<Rightarrow> throw_ex ex Invalid_argument ''null remote or local RouterInfo.'')"

definition sess_in :: "('s, 'c) sess_lib \<Rightarrow> info option \<Rightarrow> ('s, 'c) session result" where
  "sess_in L own =
     (let ex = Ex ''Session'' ''Session'' in
      case own of
        None \<Rightarrow> throw_ex ex Invalid_argument ''null RouterInfo.''
      | Some i \<Rightarrow>
          bindr (init_handshake (sl_noise L) Responder ex) (\<lambda>st.
          bindr (bindr (decoded_option ''i'' i) (first_bytes 16)) (\<lambda>iv.
            Inr ((sess_members Responder st None i)\<lparr>ss_iv := iv\<rparr>))))"

section \<open>The handlers\<close>

text \<open>Most handlers take the end of the stream for success, the first two do not.\<close>

definition check_ec :: "exception \<Rightarrow> net_error option \<Rightarrow> unit result" where
  "check_ec ex ec = (case ec of Some (Net_error m) \<Rightarrow> throw_ex ex Runtime_error m | _ \<Rightarrow> Inr ())"

definition check_any_ec :: "exception \<Rightarrow> net_error option \<Rightarrow> unit result" where
  "check_any_ec ex ec =
     (case ec of Some Eof \<Rightarrow> throw_ex ex Runtime_error ''End of file'' | _ \<Rightarrow> check_ec ex ec)"

definition awaiting :: "pending \<Rightarrow> ('s, 'c) session \<Rightarrow> ('s, 'c) session" where
  "awaiting w s = s\<lparr>ss_waiting := Some w\<rparr>"

definition CalculateConnectKey ::
  "('s, 'c) sess_lib \<Rightarrow> sess_env \<Rightarrow> ('s, 'c) session \<Rightarrow> ('s, 'c) session result" where
  "CalculateConnectKey L E s = bindr (sn_host E) (\<lambda>host. Inr (s\<lparr>ss_connect_key := sl_sha L host\<rparr>))"

definition set_id_keys :: "('s, 'c) sess_lib \<Rightarrow> identity \<Rightarrow> 's \<Rightarrow> 's result" where
  "set_id_keys L ident st = srk_set_local_keys (sl_noise L) (id_keys (cobj (crypto ident))) st"

definition DoSessionRequest ::
  "('s, 'c) sess_lib \<Rightarrow> sess_env \<Rightarrow> ('s, 'c) session \<Rightarrow> ('s, 'c) session result" where
  "DoSessionRequest L E s =
     (if ss_role s = Initiator
      then
        bindr (deref (ss_dest s)) (\<lambda>dest.
        bindr (srq_new (Some (ss_state s)) (id_hash (ri_identity dest)) (ss_iv s)) (\<lambda>(st, a).
        bindr (set_id_keys L (ri_identity dest) st) (\<lambda>st.
        bindr (srk_Derive_key (sl_noise L) (ss_remote_key s) st) (\<lambda>st.
        bindr (deref (ss_sco s)) (\<lambda>sco.
        bindr (sr_of_sizes (sn_now E) (sn_rng E) (cf_payload_size sco) (ucast (sn_drawn E))) (\<lambda>m.
        bindr (srq_ProcessMessage (sl_noise L) (sl_aes L) Initiator (sn_now E) a m st) (\<lambda>(m, st).
          Inr (awaiting WriteRequest (s\<lparr>ss_srq := Some m, ss_state := st\<rparr>)))))))))
      else
        bindr (sr_default (sn_now E) (sn_drawn E) (sn_rng E)) (\<lambda>m.
          Inr (awaiting ReadRequest (s\<lparr>ss_srq := Some m\<rparr>))))"

definition HandleSessionRequest ::
  "('s, 'c) sess_lib \<Rightarrow> sess_env \<Rightarrow> ('s, 'c) session \<Rightarrow> ('s, 'c) session result" where
  "HandleSessionRequest L E s =
     bindr (if ss_role s = Initiator then DoSessionRequest L E s else Inr (awaiting WaitRequest s))
       (CalculateConnectKey L E)"

definition sess_connect ::
  "('s, 'c) sess_lib \<Rightarrow> sess_env \<Rightarrow> ip \<Rightarrow> ('s, 'c) session \<Rightarrow> ('s, 'c) session result" where
  "sess_connect L E proto s =
     bindr (deref (ss_dest s)) (\<lambda>dest.
     bindr (info_host (sl_make_address L) (sl_is_v6 L) (proto = v6) dest) (\<lambda>host.
     bindr (sn_open E) (\<lambda>_.
       case sn_bind E of
         Some m \<Rightarrow> throw_ex (Ex ''Session'' ''Connect'') Runtime_error m
       | None \<Rightarrow> Inr (awaiting Connecting (s\<lparr>ss_remote_host := Some host\<rparr>)))))"

definition sess_start ::
  "('s, 'c) sess_lib \<Rightarrow> sess_env \<Rightarrow> ip \<Rightarrow> ('s, 'c) session \<Rightarrow> ('s, 'c) session result" where
  "sess_start L E proto s =
     (if ss_role s = Initiator then sess_connect L E proto s else HandleSessionRequest L E s)"

text \<open>The info of a message's info block, which is the session's own.\<close>

definition block_info :: "data_message \<Rightarrow> info \<Rightarrow> info" where
  "block_info m i =
     (case dm_find_block Info m of
        Some (DInfo b) \<Rightarrow> (case ib_info b of None \<Rightarrow> i | Some i' \<Rightarrow> i')
      | _ \<Rightarrow> i)"

definition DoDataPhase ::
  "('s, 'c) sess_lib \<Rightarrow> sess_env \<Rightarrow> ('s, 'c) session \<Rightarrow> ('s, 'c) session result" where
  "DoDataPhase L E s =
     (if ss_role s = Initiator
      then Inr (awaiting ReadDataLength
             (s\<lparr>ss_dp_msg := Some \<lparr>dm_blocks = [], dm_buf = sec_resize MsgMaxLen []\<rparr>\<rparr>))
      else
        bindr (dp_new (sl_noise L) (sl_dp L) Initiator (Some (ss_state s))) (\<lambda>(k, st).
        bindr (ib_of_info (sn_U E 0) (Some (ss_info s))) (\<lambda>b.
        case dm_add_block (DInfo b) \<lparr>dm_blocks = [], dm_buf = []\<rparr> of
          (m, added) \<Rightarrow>
            bindr added (\<lambda>_.
            bindr (dp_Write (sl_noise L) (sl_dp L) (sn_V E) Initiator m k) (\<lambda>(m, k).
              Inr (awaiting WriteData
                (s\<lparr>ss_state := st, ss_dp := Some k, ss_dp_msg := Some m, ss_info := block_info m (ss_info s)\<rparr>)))))))"

definition HandleDataPhase ::
  "('s, 'c) sess_lib \<Rightarrow> sess_env \<Rightarrow> ('s, 'c) session \<Rightarrow> ('s, 'c) session result" where
  "HandleDataPhase L E s =
     (if ss_role s = Initiator then Inr (awaiting WaitData s) else DoDataPhase L E s)"

definition DoSessionConfirmed ::
  "('s, 'c) sess_lib \<Rightarrow> sess_env \<Rightarrow> ('s, 'c) session \<Rightarrow> ('s, 'c) session result" where
  "DoSessionConfirmed L E s =
     (if ss_role s = Initiator
      then
        bindr (deref (ss_scr s)) (\<lambda>scr.
        bindr (sco_new (sl_noise L) (Some (ss_state s)) scr) (\<lambda>st.
        bindr (deref (ss_sco s)) (\<lambda>sco.
        bindr (deref (ss_srq s)) (\<lambda>srq.
        bindr (sco_ProcessMessage (sl_noise L) (sn_V E) Initiator (sr_options srq) sco st) (\<lambda>(sco, st).
          Inr (awaiting WriteConfirmed (s\<lparr>ss_sco := Some sco, ss_state := st\<rparr>)))))))
      else
        bindr (deref (ss_srq s)) (\<lambda>srq.
        bindr (cf_of_size (word_of_nat (PartOneSize + unat (so_m3p2_len (sr_options srq))))) (\<lambda>sco.
          Inr (awaiting ReadConfirmed (s\<lparr>ss_sco := Some sco\<rparr>)))))"

definition HandleSessionConfirmed ::
  "('s, 'c) sess_lib \<Rightarrow> sess_env \<Rightarrow> ('s, 'c) session \<Rightarrow> ('s, 'c) session result" where
  "HandleSessionConfirmed L E s =
     (if ss_role s = Initiator then DoSessionConfirmed L E s else Inr (awaiting WaitConfirmed s))"

definition DoSessionCreated ::
  "('s, 'c) sess_lib \<Rightarrow> sess_env \<Rightarrow> ('s, 'c) session \<Rightarrow> ('s, 'c) session result" where
  "DoSessionCreated L E s =
     bindr (sc_default (sn_now E) (sn_drawn E) (sn_rng E)) (\<lambda>m.
       if ss_role s = Initiator then Inr (awaiting ReadCreated (s\<lparr>ss_scr := Some m\<rparr>))
       else
         bindr (deref (ss_srq s)) (\<lambda>srq.
         bindr (scr_new (sl_noise L) (Some (ss_state s)) srq (id_hash (ri_identity (ss_info s))) (ss_iv s)) (\<lambda>(st, a).
         bindr (scr_ProcessMessage (sl_noise L) (sl_aes L) Initiator (sn_now E) a m st) (\<lambda>(m, st).
           Inr (awaiting WriteCreated (s\<lparr>ss_scr := Some m, ss_state := st\<rparr>))))))"

definition HandleSessionCreated ::
  "('s, 'c) sess_lib \<Rightarrow> sess_env \<Rightarrow> ('s, 'c) session \<Rightarrow> ('s, 'c) session result" where
  "HandleSessionCreated L E s =
     (if ss_role s = Initiator then Inr (awaiting WaitCreated s) else DoSessionCreated L E s)"

section \<open>Completion of the outstanding operation\<close>

text \<open>Each of these is the lambda that the source registers with the operation.\<close>

definition got_request ::
  "('s, 'c) sess_lib \<Rightarrow> sess_env \<Rightarrow> byte list \<Rightarrow> ('s, 'c) session \<Rightarrow> ('s, 'c) session result" where
  "got_request L E bytes s =
     bindr (deref (ss_srq s)) (\<lambda>m.
     bindr (srq_new (Some (ss_state s)) (id_hash (ri_identity (ss_info s))) (ss_iv s)) (\<lambda>(st, a).
     bindr (set_id_keys L (ri_identity (ss_info s)) st) (\<lambda>st.
     bindr (srk_Derive (sl_noise L) st) (\<lambda>st.
     bindr (srq_ProcessMessage (sl_noise L) (sl_aes L) Responder (sn_now E) a
              (m\<lparr>sr_data := overwrite 0 bytes (sr_data m)\<rparr>) st) (\<lambda>(m, st).
       let n = unat (so_pad_len (sr_options m)); s = s\<lparr>ss_srq := Some m, ss_state := st\<rparr> in
       if n \<noteq> 0
       then Inr (awaiting ReadRequestPadding (s\<lparr>ss_srq := Some (m\<lparr>sr_padding := sec_resize n (sr_padding m)\<rparr>)\<rparr>))
       else HandleSessionCreated L E s)))))"

definition got_request_padding ::
  "('s, 'c) sess_lib \<Rightarrow> sess_env \<Rightarrow> byte list \<Rightarrow> ('s, 'c) session \<Rightarrow> ('s, 'c) session result" where
  "got_request_padding L E bytes s =
     bindr (deref (ss_srq s)) (\<lambda>m.
       HandleSessionCreated L E (s\<lparr>ss_srq := Some (m\<lparr>sr_padding := overwrite 0 bytes (sr_padding m)\<rparr>)\<rparr>))"

definition got_created ::
  "('s, 'c) sess_lib \<Rightarrow> sess_env \<Rightarrow> byte list \<Rightarrow> ('s, 'c) session \<Rightarrow> ('s, 'c) session result" where
  "got_created L E bytes s =
     bindr (deref (ss_srq s)) (\<lambda>srq.
     bindr (deref (ss_dest s)) (\<lambda>dest.
     bindr (scr_new (sl_noise L) (Some (ss_state s)) srq (id_hash (ri_identity dest)) (ss_iv s)) (\<lambda>(st, a).
     bindr (deref (ss_scr s)) (\<lambda>m.
     bindr (scr_ProcessMessage (sl_noise L) (sl_aes L) Responder (sn_now E) a
              (m\<lparr>sc_data := overwrite 0 bytes (sc_data m)\<rparr>) st) (\<lambda>(m, st).
       let n = unat (co_pad_len (sc_options m)) in
       if n \<noteq> 0
       then Inr (awaiting ReadCreatedPadding
              (s\<lparr>ss_scr := Some (m\<lparr>sc_padding := sec_resize n (sc_padding m)\<rparr>), ss_state := st\<rparr>))
       else throw_ex (Ex ''Session'' ''DoSessionCreated'') Length_error ''null padding length.'')))))"

definition got_created_padding ::
  "('s, 'c) sess_lib \<Rightarrow> sess_env \<Rightarrow> byte list \<Rightarrow> ('s, 'c) session \<Rightarrow> ('s, 'c) session result" where
  "got_created_padding L E bytes s =
     bindr (deref (ss_scr s)) (\<lambda>m.
       HandleSessionConfirmed L E (s\<lparr>ss_scr := Some (m\<lparr>sc_padding := overwrite 0 bytes (sc_padding m)\<rparr>)\<rparr>))"

text \<open>
  The responder takes the static key of the first part of the third message, and compares it with
  the key of the router info in the second part: as many bytes as that one has.
\<close>

definition got_confirmed ::
  "('s, 'c) sess_lib \<Rightarrow> sess_env \<Rightarrow> byte list \<Rightarrow> ('s, 'c) session \<Rightarrow> (byte list \<times> ('s, 'c) session) result" where
  "got_confirmed L E bytes s =
     bindr (deref (ss_scr s)) (\<lambda>scr.
     bindr (sco_new (sl_noise L) (Some (ss_state s)) scr) (\<lambda>st.
     bindr (deref (ss_sco s)) (\<lambda>sco.
     bindr (deref (ss_srq s)) (\<lambda>srq.
     bindr (sco_ProcessMessage (sl_noise L) (sn_V E) Responder (sr_options srq)
              (sco\<lparr>cf_data := overwrite 0 bytes (cf_data sco)\<rparr>) st) (\<lambda>(sco, st).
     bindr (deref (ib_info (cf_info sco))) (\<lambda>dest.
     bindr (decoded_option ''s'' dest) (\<lambda>static_key.
     bindr (get_remote_public_key (sl_noise L) st (Ex ''Session'' ''DoSessionConfirmed'')) (\<lambda>key.
       Inr (static_key, s\<lparr>ss_sco := Some sco, ss_state := st, ss_dest := Some dest, ss_remote_key := key\<rparr>)))))))))"

definition equal_prefix :: "byte list \<Rightarrow> byte list \<Rightarrow> bool result" where
  "equal_prefix a b =
     (if take (length b) a = b \<and> length b < length a then Inl (Undefined_behaviour ''comparison past the end of a buffer'')
      else Inr (a = take (length a) b))"

definition check_static_key ::
  "('s, 'c) sess_lib \<Rightarrow> sess_env \<Rightarrow> byte list \<Rightarrow> ('s, 'c) session \<Rightarrow> ('s, 'c) session result" where
  "check_static_key L E static_key s =
     bindr (equal_prefix static_key (ss_remote_key s)) (\<lambda>match.
       if \<not> match
       then throw_ex (Ex ''Session'' ''DoSessionConfirmed'') Logic_error
              ''static key does not match initial SessionRequest key.''
       else HandleDataPhase L E s)"

text \<open>
  The first message of the data phase. A length of zero leaves the session with nothing outstanding:
  it is never ready.
\<close>

definition got_data_length ::
  "('s, 'c) sess_lib \<Rightarrow> sess_env \<Rightarrow> byte list \<Rightarrow> ('s, 'c) session \<Rightarrow> ('s, 'c) session result" where
  "got_data_length L E bytes s =
     bindr (dp_new (sl_noise L) (sl_dp L) Responder (Some (ss_state s))) (\<lambda>(k, st).
     bindr (deref (ss_dp_msg s)) (\<lambda>m.
     let buf = overwrite 0 bytes (dm_buf m) in
     bindr (raw_read_bytes 2 (Some buf)) (\<lambda>l.
     bindr (ProcessLength (sl_dp L) (word_of_be l) BobToAlice k) (\<lambda>(len, k).
       let s = s\<lparr>ss_state := st, ss_dp := Some k, ss_dp_msg := Some (m\<lparr>dm_buf := buf\<rparr>)\<rparr> in
       if len \<noteq> 0
       then Inr (awaiting (ReadData len)
              (s\<lparr>ss_dp_msg := Some (m\<lparr>dm_buf := sec_resize (SizeLen + unat len) buf\<rparr>)\<rparr>))
       else Inr s))))"

definition became_ready :: "('s, 'c) session \<Rightarrow> ('s, 'c) session" where
  "became_ready s = s\<lparr>ss_ready := True\<rparr>"

definition got_data ::
  "('s, 'c) sess_lib \<Rightarrow> sess_env \<Rightarrow> u16 \<Rightarrow> byte list \<Rightarrow> ('s, 'c) session \<Rightarrow> ('s, 'c) session result" where
  "got_data L E len bytes s =
     bindr (deref (ss_dp_msg s)) (\<lambda>m.
     bindr (deref (ss_dp s)) (\<lambda>k.
     bindr (raw_write_bytes (be_of_word len) (Some (overwrite SizeLen bytes (dm_buf m)))) (\<lambda>buf.
     bindr (dp_Read (sl_noise L) (sl_dp L) (sn_V E) Responder False (m\<lparr>dm_buf := buf\<rparr>) k) (\<lambda>(m, k).
     let s = s\<lparr>ss_dp_msg := Some m, ss_dp := Some k\<rparr> in
     case dm_find_block Info m of
       None \<Rightarrow> Inr (became_ready s)
     | Some (DInfo b) \<Rightarrow>
         bindr (deref (ib_info b)) (\<lambda>i.
         bindr (mapping_entry_at (ascii ''s'') (ri_options i)) (\<lambda>x.
         bindr (deref (ss_dest s)) (\<lambda>dest.
         bindr (mapping_entry_at (ascii ''s'') (ri_options dest)) (\<lambda>y.
           if x \<noteq> y then throw_ex (Ex ''Session'' ''DoDataPhase'') Logic_error ''invalid static key.''
           else Inr (became_ready s)))))
     | Some _ \<Rightarrow> Inl (Throw Runtime_error ''boost::bad_get: failed value get using boost::get'')))))"

text \<open>
  A handler that throws ends its thread's loop; the session keeps what it was before, except for
  the remote key of a third message that was read.
\<close>

definition kept :: "'x \<Rightarrow> 'x result \<Rightarrow> 'x \<times> unit result" where
  "kept x r = (case r of Inl e \<Rightarrow> (x, Inl e) | Inr y \<Rightarrow> (y, Inr ()))"

definition sess_handler ::
  "('s, 'c) sess_lib \<Rightarrow> sess_env \<Rightarrow> net_error option \<Rightarrow> byte list \<Rightarrow> pending \<Rightarrow> ('s, 'c) session \<Rightarrow> ('s, 'c) session result" where
  "sess_handler L E ec bytes w s =
     (let ok = (\<lambda>f h. bindr (check_ec (Ex ''Session'' f) ec) (\<lambda>_. h)) in
      case w of
        Connecting \<Rightarrow> bindr (check_any_ec (Ex ''Session'' ''Connect'') ec) (\<lambda>_. HandleSessionRequest L E s)
      | WaitRequest \<Rightarrow>
          bindr (check_any_ec (Ex ''Session'' ''HandleSessionRequest'') ec) (\<lambda>_. DoSessionRequest L E s)
      | WriteRequest \<Rightarrow> ok ''DoSessionRequest'' (HandleSessionCreated L E s)
      | ReadRequest \<Rightarrow> ok ''DoSessionRequest'' (got_request L E bytes s)
      | ReadRequestPadding \<Rightarrow> ok ''DoSessionRequest'' (got_request_padding L E bytes s)
      | WaitCreated \<Rightarrow> ok ''HandleSessionCreated'' (DoSessionCreated L E s)
      | WriteCreated \<Rightarrow> ok ''DoSessionCreated'' (HandleSessionConfirmed L E s)
      | ReadCreated \<Rightarrow> ok ''DoSessionCreated'' (got_created L E bytes s)
      | ReadCreatedPadding \<Rightarrow> ok ''DoSessionCreated'' (got_created_padding L E bytes s)
      | WaitConfirmed \<Rightarrow> ok ''HandleSessionConfirmed'' (DoSessionConfirmed L E s)
      | WriteConfirmed \<Rightarrow> ok ''DoSessionConfirmed'' (HandleDataPhase L E s)
      | ReadConfirmed \<Rightarrow> ok ''DoSessionConfirmed''
          (bindr (got_confirmed L E bytes s) (\<lambda>(k, s). check_static_key L E k s))
      | WaitData \<Rightarrow> ok ''HandleDataPhase'' (DoDataPhase L E s)
      | WriteData \<Rightarrow> ok ''DoDataPhase'' (Inr (became_ready s))
      | ReadDataLength \<Rightarrow> ok ''DoDataPhase'' (got_data_length L E bytes s)
      | ReadData len \<Rightarrow> ok ''DoDataPhase'' (got_data L E len bytes s))"

definition sess_complete ::
  "('s, 'c) sess_lib \<Rightarrow> sess_env \<Rightarrow> net_error option \<Rightarrow> byte list \<Rightarrow> ('s, 'c) session \<Rightarrow> ('s, 'c) session \<times> unit result" where
  "sess_complete L E ec bytes s =
     (case ss_waiting s of
        None \<Rightarrow> (s, Inr ())
      | Some w \<Rightarrow>
          (let t = s\<lparr>ss_waiting := None\<rparr>;
               seen = (if w = ReadConfirmed \<and> check_ec (Ex ''Session'' ''DoSessionConfirmed'') ec = Inr ()
                       then (case got_confirmed L E bytes t of Inl _ \<Rightarrow> t | Inr (_, u) \<Rightarrow> u) else t) in
           kept seen (sess_handler L E ec bytes w t)))"

section \<open>The interface\<close>

text \<open>
  Stopping: the context of the socket is stopped, so that nothing completes any more. The thread of
  an initiator stops it when a handler throws. That of a responder is the listener's, and is left
  by the exception.
\<close>

definition sess_stop :: "('s, 'c) session \<Rightarrow> ('s, 'c) session" where
  "sess_stop s = s\<lparr>ss_stopped := True, ss_ready := False, ss_waiting := None\<rparr>"

definition sess_run ::
  "('s, 'c) sess_lib \<Rightarrow> sess_env \<Rightarrow> net_error option \<Rightarrow> byte list \<Rightarrow> ('s, 'c) session \<Rightarrow> ('s, 'c) session" where
  "sess_run L E ec bytes s =
     (case sess_complete L E ec bytes s of
        (s', Inl (Throw _ _)) \<Rightarrow> if ss_role s = Initiator then sess_stop s' else s'
      | (s', _) \<Rightarrow> s')"

definition sess_wait :: "('s, 'c) session \<Rightarrow> ('s, 'c) session \<times> unit result" where
  "sess_wait s =
     (if ss_ready s then (s, Inr ())
      else (sess_stop s, throw_ex (Ex ''Session'' ''Wait'') Runtime_error ''handshake timed out.''))"

definition dp_role :: "role \<Rightarrow> role" where
  "dp_role rl = (if rl = Initiator then Responder else Initiator)"

definition sess_write ::
  "('s, 'c) sess_lib \<Rightarrow> sess_env \<Rightarrow> data_message \<Rightarrow> ('s, 'c) session \<Rightarrow> (data_message \<times> ('s, 'c) session) result" where
  "sess_write L E m s =
     (if \<not> ss_ready s then throw_ex (Ex ''Session'' ''Write'') Runtime_error ''session not ready for data phase.''
      else
        bindr (deref (ss_dp s)) (\<lambda>k.
        bindr (dp_Write (sl_noise L) (sl_dp L) (sn_V E) (dp_role (ss_role s)) m k) (\<lambda>(m, k).
          Inr (m, s\<lparr>ss_dp := Some k\<rparr>))))"

definition sess_read ::
  "('s, 'c) sess_lib \<Rightarrow> sess_env \<Rightarrow> data_message \<Rightarrow> ('s, 'c) session \<Rightarrow> (data_message \<times> ('s, 'c) session) result" where
  "sess_read L E m s =
     (if \<not> ss_ready s then throw_ex (Ex ''Session'' ''Read'') Runtime_error ''session not ready for data phase.''
      else
        bindr (deref (ss_dp s)) (\<lambda>k.
        bindr (dp_Read (sl_noise L) (sl_dp L) (sn_V E) (dp_role (ss_role s)) True m k) (\<lambda>(m, k).
          Inr (m, s\<lparr>ss_dp := Some k\<rparr>))))"

section \<open>The abstract handshake\<close>

text \<open>
  What a session has and what it waits for, without the contents: a state machine that the handlers
  refine.
\<close>

record hs_view =
  hv_role :: role
  hv_dest :: bool
  hv_srq :: bool
  hv_scr :: bool
  hv_sco :: bool
  hv_msg :: bool
  hv_dp :: bool
  hv_ready :: bool
  hv_stopped :: bool
  hv_waiting :: "pending option"

definition sess_view :: "('s, 'c) session \<Rightarrow> hs_view" where
  "sess_view s = \<lparr>hv_role = ss_role s, hv_dest = (ss_dest s \<noteq> None), hv_srq = (ss_srq s \<noteq> None),
     hv_scr = (ss_scr s \<noteq> None), hv_sco = (ss_sco s \<noteq> None), hv_msg = (ss_dp_msg s \<noteq> None),
     hv_dp = (ss_dp s \<noteq> None), hv_ready = ss_ready s, hv_stopped = ss_stopped s, hv_waiting = ss_waiting s\<rparr>"

text \<open>The successors of an operation: the outcomes of its handler when it does not throw.\<close>

inductive hs_step :: "pending \<Rightarrow> hs_view \<Rightarrow> hs_view \<Rightarrow> bool" where
  connected: "hs_step Connecting v (v\<lparr>hv_srq := True, hv_waiting := Some WriteRequest\<rparr>)"
| request_written: "hs_step WriteRequest v (v\<lparr>hv_waiting := Some WaitCreated\<rparr>)"
| created_arrives: "hs_step WaitCreated v (v\<lparr>hv_scr := True, hv_waiting := Some ReadCreated\<rparr>)"
| created_read: "hs_step ReadCreated v (v\<lparr>hv_waiting := Some ReadCreatedPadding\<rparr>)"
| created_padding_read: "hs_step ReadCreatedPadding v (v\<lparr>hv_waiting := Some WriteConfirmed\<rparr>)"
| confirmed_written: "hs_step WriteConfirmed v (v\<lparr>hv_waiting := Some WaitData\<rparr>)"
| data_arrives: "hs_step WaitData v (v\<lparr>hv_msg := True, hv_waiting := Some ReadDataLength\<rparr>)"
| length_read: "hs_step ReadDataLength v (v\<lparr>hv_dp := True, hv_waiting := Some (ReadData n)\<rparr>)"
| null_length_read: "hs_step ReadDataLength v (v\<lparr>hv_dp := True, hv_waiting := None\<rparr>)"
| data_read: "hs_step (ReadData n) v (v\<lparr>hv_ready := True, hv_waiting := None\<rparr>)"
| request_arrives: "hs_step WaitRequest v (v\<lparr>hv_srq := True, hv_waiting := Some ReadRequest\<rparr>)"
| request_read: "hs_step ReadRequest v (v\<lparr>hv_waiting := Some ReadRequestPadding\<rparr>)"
| bare_request_read: "hs_step ReadRequest v (v\<lparr>hv_scr := True, hv_waiting := Some WriteCreated\<rparr>)"
| request_padding_read: "hs_step ReadRequestPadding v (v\<lparr>hv_scr := True, hv_waiting := Some WriteCreated\<rparr>)"
| created_written: "hs_step WriteCreated v (v\<lparr>hv_waiting := Some WaitConfirmed\<rparr>)"
| confirmed_arrives: "hs_step WaitConfirmed v (v\<lparr>hv_sco := True, hv_waiting := Some ReadConfirmed\<rparr>)"
| confirmed_read: "hs_step ReadConfirmed v
    (v\<lparr>hv_dest := True, hv_msg := True, hv_dp := True, hv_waiting := Some WriteData\<rparr>)"
| data_written: "hs_step WriteData v (v\<lparr>hv_ready := True, hv_waiting := None\<rparr>)"

inductive_simps hs_step_simps: "hs_step w v v'"

section \<open>What the handlers leave behind\<close>

lemma deref_Inr [simp]: "deref p = Inr x \<longleftrightarrow> p = Some x"
  by (simp add: deref_def split: option.splits)

lemma awaiting_view: "sess_view (awaiting w s) = (sess_view s)\<lparr>hv_waiting := Some w\<rparr>"
  by (simp add: sess_view_def awaiting_def)

lemma DoSessionRequest_view:
  "DoSessionRequest L E s = Inr s' \<Longrightarrow>
     sess_view s' = (sess_view s)\<lparr>hv_srq := True, hv_waiting := Some (if ss_role s = Initiator then WriteRequest else ReadRequest)\<rparr>"
  by (cases "ss_role s") (auto simp: DoSessionRequest_def result_simps awaiting_def sess_view_def)

lemma CalculateConnectKey_view: "CalculateConnectKey L E s = Inr s' \<Longrightarrow> sess_view s' = sess_view s"
  by (auto simp: CalculateConnectKey_def result_simps sess_view_def)

lemma HandleSessionRequest_view:
  "HandleSessionRequest L E s = Inr s' \<Longrightarrow>
     sess_view s' = (if ss_role s = Initiator then (sess_view s)\<lparr>hv_srq := True, hv_waiting := Some WriteRequest\<rparr>
       else (sess_view s)\<lparr>hv_waiting := Some WaitRequest\<rparr>)"
  by (cases "ss_role s")
    (auto simp: HandleSessionRequest_def result_simps awaiting_view dest!: DoSessionRequest_view CalculateConnectKey_view)

lemma DoSessionConfirmed_view:
  "DoSessionConfirmed L E s = Inr s' \<Longrightarrow>
     sess_view s' = (sess_view s)\<lparr>hv_sco := True, hv_waiting := Some (if ss_role s = Initiator then WriteConfirmed else ReadConfirmed)\<rparr>"
  by (cases "ss_role s") (auto simp: DoSessionConfirmed_def result_simps awaiting_def sess_view_def)

lemma DoSessionCreated_view:
  "DoSessionCreated L E s = Inr s' \<Longrightarrow>
     sess_view s' = (sess_view s)\<lparr>hv_scr := True, hv_waiting := Some (if ss_role s = Initiator then ReadCreated else WriteCreated)\<rparr>"
  by (cases "ss_role s") (auto simp: DoSessionCreated_def result_simps awaiting_def sess_view_def)

lemma DoDataPhase_view:
  assumes "DoDataPhase L E s = Inr s'"
  shows "sess_view s' = (sess_view s)\<lparr>hv_msg := True, hv_dp := hv_dp (sess_view s) \<or> ss_role s = Responder,
     hv_waiting := Some (if ss_role s = Initiator then ReadDataLength else WriteData)\<rparr>"
  using assms
  by (cases "ss_role s") (auto simp: DoDataPhase_def result_simps awaiting_def sess_view_def case_prod_unfold)

lemma HandleDataPhase_view:
  "HandleDataPhase L E s = Inr s' \<Longrightarrow>
     sess_view s' = (if ss_role s = Initiator then (sess_view s)\<lparr>hv_waiting := Some WaitData\<rparr>
       else (sess_view s)\<lparr>hv_msg := True, hv_dp := True, hv_waiting := Some WriteData\<rparr>)"
  by (cases "ss_role s") (auto simp: HandleDataPhase_def awaiting_view dest!: DoDataPhase_view)

lemma HandleSessionConfirmed_view:
  "HandleSessionConfirmed L E s = Inr s' \<Longrightarrow>
     sess_view s' = (if ss_role s = Initiator then (sess_view s)\<lparr>hv_sco := True, hv_waiting := Some WriteConfirmed\<rparr>
       else (sess_view s)\<lparr>hv_waiting := Some WaitConfirmed\<rparr>)"
  by (cases "ss_role s") (auto simp: HandleSessionConfirmed_def awaiting_view dest!: DoSessionConfirmed_view)

lemma HandleSessionCreated_view:
  "HandleSessionCreated L E s = Inr s' \<Longrightarrow>
     sess_view s' = (if ss_role s = Initiator then (sess_view s)\<lparr>hv_waiting := Some WaitCreated\<rparr>
       else (sess_view s)\<lparr>hv_scr := True, hv_waiting := Some WriteCreated\<rparr>)"
  by (cases "ss_role s") (auto simp: HandleSessionCreated_def awaiting_view dest!: DoSessionCreated_view)

lemma bindr_InrE:
  assumes "bindr m f = Inr y"
  obtains x where "m = Inr x" "f x = Inr y"
  using assms by (auto simp: result_simps)

lemma bindr_pair_InrE:
  assumes "bindr m (case_prod f) = Inr y"
  obtains a b where "m = Inr (a, b)" "f a b = Inr y"
  using assms by (auto simp: result_simps)

lemma got_request_view:
  assumes "got_request L E bytes s = Inr s'" "ss_role s = Responder"
  shows "hs_step ReadRequest (sess_view s) (sess_view s')"
  using assms unfolding got_request_def Let_def
  by (elim bindr_pair_InrE bindr_InrE)
    (auto simp: hs_step_simps sess_view_def awaiting_def dest!: HandleSessionCreated_view split: if_splits)

lemma got_request_padding_view:
  assumes "got_request_padding L E bytes s = Inr s'" "ss_role s = Responder"
  shows "hs_step ReadRequestPadding (sess_view s) (sess_view s')"
  using assms
  by (auto simp: got_request_padding_def result_simps hs_step_simps sess_view_def dest!: HandleSessionCreated_view)

lemma got_created_view:
  "got_created L E bytes s = Inr s' \<Longrightarrow> hs_step ReadCreated (sess_view s) (sess_view s')"
  by (auto simp: got_created_def result_simps hs_step_simps Let_def sess_view_def awaiting_def split: if_splits)

lemma got_created_padding_view:
  assumes "got_created_padding L E bytes s = Inr s'" "ss_role s = Initiator" "ss_sco s \<noteq> None"
  shows "hs_step ReadCreatedPadding (sess_view s) (sess_view s')"
  using assms
  by (auto simp: got_created_padding_def result_simps hs_step_simps sess_view_def dest!: HandleSessionConfirmed_view)

lemma got_confirmed_Inr:
  "got_confirmed L E bytes s = Inr (k, s') \<Longrightarrow>
     sess_view s' = (sess_view s)\<lparr>hv_dest := True\<rparr> \<and> (\<exists>d. ss_dest s' = Some d \<and> decoded_option ''s'' d = Inr k)"
  by (auto simp: got_confirmed_def result_simps sess_view_def)

lemma check_static_key_Inr:
  "check_static_key L E k s = Inr s' \<Longrightarrow>
     k = take (length k) (ss_remote_key s) \<and> HandleDataPhase L E s = Inr s'"
  by (auto simp: check_static_key_def equal_prefix_def result_simps split: if_splits)

lemma got_data_length_view:
  assumes "got_data_length L E bytes s = Inr s'" "ss_waiting s = None"
  shows "hs_step ReadDataLength (sess_view s) (sess_view s')"
  using assms(1) unfolding got_data_length_def Let_def
proof (elim bindr_pair_InrE bindr_InrE)
  fix k st m l len k'
  assume "deref (ss_dp_msg s) = Inr m"
    "(if len \<noteq> 0
       then Inr (awaiting (ReadData len) (s\<lparr>ss_state := st, ss_dp := Some k', ss_dp_msg := Some (m\<lparr>dm_buf := overwrite 0 bytes (dm_buf m)\<rparr>),
              ss_dp_msg := Some (m\<lparr>dm_buf := sec_resize (SizeLen + unat len) (overwrite 0 bytes (dm_buf m))\<rparr>)\<rparr>))
       else Inr (s\<lparr>ss_state := st, ss_dp := Some k', ss_dp_msg := Some (m\<lparr>dm_buf := overwrite 0 bytes (dm_buf m)\<rparr>)\<rparr>)) = Inr s'"
  then show ?thesis
    using assms(2) by (cases "len = 0") (auto simp: hs_step_simps sess_view_def awaiting_def)
qed

lemma got_data_view:
  assumes "got_data L E len bytes s = Inr s'" "ss_waiting s = None"
  shows "hs_step (ReadData len) (sess_view s) (sess_view s')"
proof -
  have f: "x = became_ready y"
    if "(case p of None \<Rightarrow> Inr (became_ready y) | Some (DInfo b) \<Rightarrow> h b | Some _ \<Rightarrow> Inl e) = Inr x"
      "\<And>b. h b = Inr x \<Longrightarrow> x = became_ready y" for x y p h e
    using that by (auto split: option.splits data_variant.splits)
  have "\<exists>m k. s' = became_ready (s\<lparr>ss_dp_msg := Some m, ss_dp := Some k\<rparr>) \<and> ss_dp_msg s \<noteq> None \<and> ss_dp s \<noteq> None"
    using assms(1) unfolding got_data_def Let_def
    apply (elim bindr_pair_InrE bindr_InrE)
    apply (drule f)
     apply (elim bindr_InrE)
     apply (simp split: if_splits)
    apply auto
    done
  then show ?thesis using assms(2) by (auto simp: hs_step_simps sess_view_def became_ready_def)
qed

section \<open>The invariant and the order of the handshake\<close>

text \<open>
  The side an operation belongs to, what its handler finds in place, and its place in the handshake:
  every completion moves forward.
\<close>

fun op_role :: "pending \<Rightarrow> role" where
  "op_role WaitRequest = Responder" | "op_role ReadRequest = Responder" | "op_role ReadRequestPadding = Responder"
| "op_role WriteCreated = Responder" | "op_role WaitConfirmed = Responder" | "op_role ReadConfirmed = Responder"
| "op_role WriteData = Responder"
| "op_role _ = Initiator"

fun stage :: "pending \<Rightarrow> nat" where
  "stage Connecting = 0" | "stage WaitRequest = 0"
| "stage WriteRequest = 1" | "stage ReadRequest = 1"
| "stage WaitCreated = 2" | "stage ReadRequestPadding = 2"
| "stage ReadCreated = 3" | "stage WriteCreated = 3"
| "stage ReadCreatedPadding = 4" | "stage WaitConfirmed = 4"
| "stage WriteConfirmed = 5" | "stage ReadConfirmed = 5"
| "stage WaitData = 6" | "stage ReadDataLength = 7"
| "stage (ReadData n) = 8" | "stage WriteData = 8"

lemma stage_bound: "stage w \<le> 8"
  by (cases w) simp_all

definition hv_needs :: "pending \<Rightarrow> hs_view \<Rightarrow> bool" where
  "hv_needs w v \<longleftrightarrow> hv_role v = op_role w
     \<and> (op_role w = Initiator \<longrightarrow> hv_dest v \<and> hv_sco v)
     \<and> (1 \<le> stage w \<longrightarrow> hv_srq v)
     \<and> (3 \<le> stage w \<longrightarrow> hv_scr v)
     \<and> (5 \<le> stage w \<longrightarrow> hv_sco v)
     \<and> (7 \<le> stage w \<longrightarrow> hv_msg v)
     \<and> (8 \<le> stage w \<longrightarrow> hv_dp v \<and> hv_dest v)"

definition hv_ok :: "hs_view \<Rightarrow> bool" where
  "hv_ok v \<longleftrightarrow> (hv_role v = Initiator \<longrightarrow> hv_dest v \<and> hv_sco v)
     \<and> (case hv_waiting v of None \<Rightarrow> True | Some w \<Rightarrow> hv_needs w v \<and> \<not> hv_ready v)
     \<and> (hv_ready v \<longrightarrow> hv_dest v \<and> hv_srq v \<and> hv_scr v \<and> hv_sco v \<and> hv_msg v \<and> hv_dp v)
     \<and> (hv_dp v \<longrightarrow> hv_srq v)
     \<and> (hv_stopped v \<longrightarrow> \<not> hv_ready v \<and> hv_waiting v = None)"

lemma hs_step_ok:
  assumes "hs_step w u v" "hv_ok (u\<lparr>hv_waiting := Some w\<rparr>)" "hv_waiting u = None"
  shows "hv_ok v"
  using assms by (cases rule: hs_step.cases) (auto simp: hv_ok_def hv_needs_def)

lemma hs_step_forward:
  "hs_step w u v \<Longrightarrow> case hv_waiting v of None \<Rightarrow> True | Some w' \<Rightarrow> stage w < stage w'"
  by (cases rule: hs_step.cases) auto

lemma hs_step_role: "hs_step w u v \<Longrightarrow> hv_role v = hv_role u \<and> hv_stopped v = hv_stopped u"
  by (cases rule: hs_step.cases) auto

section \<open>The handlers refine the abstract handshake\<close>

lemma view_sel [simp]:
  "hv_role (sess_view s) = ss_role s" "hv_waiting (sess_view s) = ss_waiting s"
  "hv_ready (sess_view s) = ss_ready s" "hv_stopped (sess_view s) = ss_stopped s"
  "hv_sco (sess_view s) \<longleftrightarrow> ss_sco s \<noteq> None" "hv_dest (sess_view s) \<longleftrightarrow> ss_dest s \<noteq> None"
  "hv_dp (sess_view s) \<longleftrightarrow> ss_dp s \<noteq> None" "hv_srq (sess_view s) \<longleftrightarrow> ss_srq s \<noteq> None"
  "hv_scr (sess_view s) \<longleftrightarrow> ss_scr s \<noteq> None" "hv_msg (sess_view s) \<longleftrightarrow> ss_dp_msg s \<noteq> None"
  by (simp_all add: sess_view_def)

lemma confirmed_view:
  assumes "bindr (got_confirmed L E bytes s) (\<lambda>(k, s). check_static_key L E k s) = Inr s'" "ss_role s = Responder"
  shows "hs_step ReadConfirmed (sess_view s) (sess_view s')"
  using assms(1)
proof (elim bindr_pair_InrE)
  fix k t
  assume t: "got_confirmed L E bytes s = Inr (k, t)" "check_static_key L E k t = Inr s'"
  have v: "sess_view t = (sess_view s)\<lparr>hv_dest := True\<rparr>" using got_confirmed_Inr [OF t(1)] by blast
  have "ss_role t = Responder" using arg_cong [OF v, of hv_role] assms(2) by simp
  then show ?thesis
    using HandleDataPhase_view [of L E t s'] check_static_key_Inr [OF t(2)] v by (simp add: hs_step_simps)
qed

lemma sess_read_step:
  assumes h: "sess_handler L E ec bytes w s = Inr s'" and s: "ss_waiting s = None"
    and rl: "ss_role s = op_role w" and sco: "op_role w = Initiator \<Longrightarrow> ss_sco s \<noteq> None"
    and w: "w \<in> {ReadRequest, ReadRequestPadding, ReadCreated, ReadCreatedPadding, ReadConfirmed, ReadDataLength} \<or> (\<exists>len. w = ReadData len)"
  shows "hs_step w (sess_view s) (sess_view s')"
proof -
  have "bindr (got_confirmed L E bytes s) (\<lambda>(k, s). check_static_key L E k s) = Inr s'" if "w = ReadConfirmed"
    using h that by (simp add: sess_handler_def bindr_Inr_iff [of "check_ec ex ec" for ex])
  then show ?thesis
    using w h rl s sco
    by (elim disjE exE insertE emptyE; simp add: confirmed_view)
      (auto simp: sess_handler_def result_simps intro: got_request_view got_request_padding_view got_created_view
        got_created_padding_view got_data_length_view got_data_view)
qed

lemma sess_handler_step:
  assumes h: "sess_handler L E ec bytes w s = Inr s'" and s: "ss_waiting s = None"
    and n: "hv_needs w (sess_view s)"
  shows "hs_step w (sess_view s) (sess_view s')"
proof -
  have rl: "ss_role s = op_role w" and sco: "op_role w = Initiator \<Longrightarrow> ss_sco s \<noteq> None"
    using n by (auto simp: hv_needs_def)
  have v: "(sess_view s)\<lparr>hv_sco := True\<rparr> = sess_view s" if "op_role w = Initiator"
    using sco [OF that] by (simp add: sess_view_def)
  note read = sess_read_step [OF h s rl sco]
  note views = HandleSessionRequest_view DoSessionRequest_view HandleSessionCreated_view DoSessionCreated_view
    HandleSessionConfirmed_view DoSessionConfirmed_view HandleDataPhase_view
  show ?thesis
  proof (cases w)
    case WaitData
    then show ?thesis using h rl n
      by (auto simp: sess_handler_def result_simps hs_step_simps sess_view_def dest!: DoDataPhase_view)
  next
    case WriteData
    then show ?thesis using h s by (auto simp: sess_handler_def result_simps hs_step_simps sess_view_def became_ready_def)
  qed (use read h rl in \<open>auto simp: sess_handler_def result_simps hs_step_simps dest!: views\<close>)
qed


section \<open>Sessions as their clients see them\<close>

text \<open>
  What can happen to a session: it is made, started once, its outstanding operation completes with
  whatever the network delivers, and its owner waits, stops it, writes and reads.
\<close>

inductive sess_reach :: "('s, 'c) sess_lib \<Rightarrow> ('s, 'c) session \<Rightarrow> bool" for L where
  made_out: "sess_out L E d i = Inr s \<Longrightarrow> sess_reach L s"
| made_in: "sess_in L i = Inr s \<Longrightarrow> sess_reach L s"
| started: "sess_reach L s \<Longrightarrow> ss_srq s = None \<Longrightarrow> ss_waiting s = None \<Longrightarrow> \<not> ss_stopped s \<Longrightarrow>
    sess_start L E p s = Inr s' \<Longrightarrow> sess_reach L s'"
| completed: "sess_reach L s \<Longrightarrow> sess_reach L (sess_run L E ec bytes s)"
| waited: "sess_reach L s \<Longrightarrow> sess_reach L (fst (sess_wait s))"
| stopped: "sess_reach L s \<Longrightarrow> sess_reach L (sess_stop s)"
| wrote: "sess_reach L s \<Longrightarrow> sess_write L E m s = Inr (m', s') \<Longrightarrow> sess_reach L s'"
| was_read: "sess_reach L s \<Longrightarrow> sess_read L E m s = Inr (m', s') \<Longrightarrow> sess_reach L s'"

text \<open>The responder's peer: the beginning of the remote key is the key option of its router info.\<close>

definition key_matches :: "('s, 'c) session \<Rightarrow> bool" where
  "key_matches s \<longleftrightarrow> (\<exists>d k. ss_dest s = Some d \<and> decoded_option ''s'' d = Inr k
     \<and> k = take (length k) (ss_remote_key s))"

definition sess_ok :: "('s, 'c) session \<Rightarrow> bool" where
  "sess_ok s \<longleftrightarrow> hv_ok (sess_view s) \<and> (ss_role s = Responder \<and> ss_dp s \<noteq> None \<longrightarrow>
       key_matches s \<and> (ss_waiting s = None \<or> ss_waiting s = Some WriteData))"

lemma sess_stop_view:
  "sess_view (sess_stop s) = (sess_view s)\<lparr>hv_stopped := True, hv_ready := False, hv_waiting := None\<rparr>"
  by (simp add: sess_stop_def sess_view_def)

lemma key_matches_stop [simp]: "key_matches (sess_stop s) = key_matches s"
  by (simp add: key_matches_def sess_stop_def)

lemma sess_stop_sel [simp]:
  "ss_role (sess_stop s) = ss_role s" "ss_dp (sess_stop s) = ss_dp s" "ss_ready (sess_stop s) = False"
  "ss_waiting (sess_stop s) = None" "ss_stopped (sess_stop s) = True"
  by (simp_all add: sess_stop_def)

lemma sess_stop_ok: "sess_ok s \<Longrightarrow> sess_ok (sess_stop s)"
  by (simp add: sess_ok_def sess_stop_view hv_ok_def)

text \<open>Only the handler of the third message gives a responder its keys of the data phase, after the check.\<close>

lemma handler_keeps_dp:
  assumes "sess_handler L E ec bytes w s = Inr s'" "ss_role s = Responder" "w \<noteq> ReadConfirmed" "hv_needs w (sess_view s)"
  shows "ss_dp s' = ss_dp s \<and> ss_dest s' = ss_dest s \<and> ss_remote_key s' = ss_remote_key s"
proof -
  have rl: "op_role w = Responder" using assms(2,4) by (simp add: hv_needs_def)
  have c: "HandleSessionCreated L E t = Inr s' \<Longrightarrow> ss_role t = Responder \<Longrightarrow>
      ss_dp s' = ss_dp t \<and> ss_dest s' = ss_dest t \<and> ss_remote_key s' = ss_remote_key t" for t
    by (auto simp: HandleSessionCreated_def DoSessionCreated_def result_simps awaiting_def)
  show ?thesis
    using assms(1-3) rl
    by (cases w) (auto simp: sess_handler_def result_simps got_request_def got_request_padding_def Let_def awaiting_def
        HandleSessionConfirmed_def DoSessionConfirmed_def DoSessionRequest_def became_ready_def dest!: c split: if_splits)
qed

lemma confirmed_key_matches:
  assumes "bindr (got_confirmed L E bytes s) (\<lambda>(k, s). check_static_key L E k s) = Inr s'" "ss_role s = Responder"
  shows "key_matches s'"
  using assms(1)
proof (elim bindr_pair_InrE)
  fix k t
  assume t: "got_confirmed L E bytes s = Inr (k, t)" "check_static_key L E k t = Inr s'"
  have v: "sess_view t = (sess_view s)\<lparr>hv_dest := True\<rparr>" and d: "\<exists>d. ss_dest t = Some d \<and> decoded_option ''s'' d = Inr k"
    using got_confirmed_Inr [OF t(1)] by blast+
  have rl: "ss_role t = Responder" using arg_cong [OF v, of hv_role] assms(2) by simp
  have "DoDataPhase L E t = Inr s'" using check_static_key_Inr [OF t(2)] rl by (simp add: HandleDataPhase_def)
  then have "ss_dest s' = ss_dest t \<and> ss_remote_key s' = ss_remote_key t"
    using rl by (auto simp: DoDataPhase_def result_simps awaiting_def case_prod_unfold)
  then show ?thesis using d check_static_key_Inr [OF t(2)] by (auto simp: key_matches_def)
qed


lemma needs_met:
  assumes "sess_ok s" "ss_waiting s = Some w"
  shows "hv_needs w (sess_view (s\<lparr>ss_waiting := None\<rparr>))"
proof -
  have tv: "sess_view s = (sess_view (s\<lparr>ss_waiting := None\<rparr>))\<lparr>hv_waiting := Some w\<rparr>"
    using assms(2) by (simp add: sess_view_def)
  have "hv_needs w (sess_view s)" using assms by (auto simp: sess_ok_def hv_ok_def)
  then show ?thesis by (simp add: tv hv_needs_def)
qed

text \<open>A completion: the handler's session, or what a handler that throws leaves.\<close>

lemma sess_complete_cases:
  assumes "sess_complete L E ec bytes s = (s', r)" "ss_waiting s = Some w"
  obtains (threw) e where "r = Inl e" "s' = s\<lparr>ss_waiting := None\<rparr>"
  | (confirmed) e k where "r = Inl e" "w = ReadConfirmed" "got_confirmed L E bytes (s\<lparr>ss_waiting := None\<rparr>) = Inr (k, s')"
  | (moved) "r = Inr ()" "sess_handler L E ec bytes w (s\<lparr>ss_waiting := None\<rparr>) = Inr s'"
proof (cases "sess_handler L E ec bytes w (s\<lparr>ss_waiting := None\<rparr>)")
  case (Inl e)
  let ?t = "s\<lparr>ss_waiting := None\<rparr>"
  let ?seen = "if w = ReadConfirmed \<and> check_ec (Ex ''Session'' ''DoSessionConfirmed'') ec = Inr ()
               then (case got_confirmed L E bytes ?t of Inl _ \<Rightarrow> ?t | Inr (_, u) \<Rightarrow> u) else ?t"
  have "s' = ?seen" "r = Inl e"
    using assms(1) unfolding sess_complete_def assms(2) option.case Let_def Inl kept_def by simp_all
  then show ?thesis
    by (cases "got_confirmed L E bytes ?t") (auto split: if_splits intro: threw confirmed)
next
  case (Inr t)
  then show ?thesis
    using assms by (intro moved) (simp_all add: sess_complete_def kept_def Let_def)
qed

text \<open>
  A completion without its operation: the session is one on which the handler can run. The handler
  leaves a session whose key agrees with the router info it learned, also when it then throws.
\<close>

lemma completed_ok:
  assumes ok: "sess_ok s" and w: "ss_waiting s = Some w"
  shows "sess_ok (s\<lparr>ss_waiting := None\<rparr>)" "hv_needs w (sess_view (s\<lparr>ss_waiting := None\<rparr>))"
    "sess_view s = (sess_view (s\<lparr>ss_waiting := None\<rparr>))\<lparr>hv_waiting := Some w\<rparr>"
proof -
  show v: "sess_view s = (sess_view (s\<lparr>ss_waiting := None\<rparr>))\<lparr>hv_waiting := Some w\<rparr>"
    using w by (simp add: sess_view_def)
  show "hv_needs w (sess_view (s\<lparr>ss_waiting := None\<rparr>))" by (rule needs_met [OF ok w])
  have "hv_ok (sess_view s)" using ok by (simp add: sess_ok_def)
  then show "sess_ok (s\<lparr>ss_waiting := None\<rparr>)"
    using ok w unfolding sess_ok_def hv_ok_def v by (simp add: key_matches_def)
qed

lemma got_confirmed_ok:
  assumes ok: "sess_ok s" "ss_waiting s = Some ReadConfirmed"
    and g: "got_confirmed L E bytes (s\<lparr>ss_waiting := None\<rparr>) = Inr (k, u)"
  shows "sess_ok u \<and> ss_role u = ss_role s"
proof -
  let ?t = "s\<lparr>ss_waiting := None\<rparr>"
  have uv: "sess_view u = (sess_view ?t)\<lparr>hv_dest := True\<rparr>" using got_confirmed_Inr [OF g] by blast
  have rl: "ss_role u = Responder" "ss_role s = Responder" "ss_dp s = None"
    using arg_cong [OF uv, of hv_role] completed_ok(2) [OF ok] ok by (auto simp: hv_needs_def sess_ok_def)
  have "ss_dp u = None" using arg_cong [OF uv, of hv_dp] rl(3) by simp
  then show ?thesis using completed_ok(1) [OF ok] rl by (simp add: sess_ok_def uv hv_ok_def)
qed

lemma sess_handler_ok:
  assumes ok: "sess_ok s" "ss_waiting s = Some w"
    and h: "sess_handler L E ec bytes w (s\<lparr>ss_waiting := None\<rparr>) = Inr s'"
  shows "sess_ok s' \<and> ss_role s' = ss_role s"
proof -
  let ?t = "s\<lparr>ss_waiting := None\<rparr>"
  note t = completed_ok [OF ok]
  have st: "hs_step w (sess_view ?t) (sess_view s')" by (rule sess_handler_step [OF h _ t(2)]) simp
  have "hv_ok (sess_view s')" by (rule hs_step_ok [OF st]) (use ok(1) t(3) in \<open>simp_all add: sess_ok_def\<close>)
  moreover have rl: "ss_role s' = ss_role s" using hs_step_role [OF st] by simp
  moreover have "key_matches s' \<and> (ss_waiting s' = None \<or> ss_waiting s' = Some WriteData)"
    if r: "ss_role s' = Responder" "ss_dp s' \<noteq> None"
  proof (cases "w = ReadConfirmed")
    case True
    have "bindr (got_confirmed L E bytes ?t) (\<lambda>(k, s). check_static_key L E k s) = Inr s'"
      using h True by (simp add: sess_handler_def bindr_Inr_iff [of "check_ec ex ec" for ex])
    then have "key_matches s'" using confirmed_key_matches [of L E bytes ?t s'] r rl by simp
    moreover have "hv_waiting (sess_view s') = Some WriteData" using st True by (auto simp: hs_step_simps)
    ultimately show ?thesis by simp
  next
    case False
    have k: "ss_dp s' = ss_dp s \<and> ss_dest s' = ss_dest s \<and> ss_remote_key s' = ss_remote_key s"
      using handler_keeps_dp [OF h _ False t(2)] r rl by simp
    then have "key_matches s" "w = WriteData" using ok r rl by (auto simp: sess_ok_def)
    moreover from this have "hv_waiting (sess_view s') = None" using st by (simp add: hs_step_simps)
    ultimately show ?thesis using k by (simp add: key_matches_def)
  qed
  ultimately show ?thesis by (simp add: sess_ok_def)
qed

lemma sess_complete_ok:
  assumes ok: "sess_ok s" and c: "sess_complete L E ec bytes s = (s', r)"
  shows "sess_ok s' \<and> ss_role s' = ss_role s"
proof (cases "ss_waiting s")
  case None
  then show ?thesis using ok c by (simp add: sess_complete_def)
next
  case (Some w)
  from c Some show ?thesis
    by (cases rule: sess_complete_cases) (use completed_ok(1) [OF ok Some] got_confirmed_ok [OF ok] sess_handler_ok [OF ok Some] Some in auto)
qed

lemma sess_run_cases:
  obtains s' r where "sess_complete L E ec bytes s = (s', r)"
    "sess_run L E ec bytes s = s' \<or> sess_run L E ec bytes s = sess_stop s'"
proof -
  obtain s' r where c: "sess_complete L E ec bytes s = (s', r)" by (cases "sess_complete L E ec bytes s")
  have "sess_run L E ec bytes s = s' \<or> sess_run L E ec bytes s = sess_stop s'"
  proof (cases r)
    case (Inl e)
    then show ?thesis using c by (cases e) (simp_all add: sess_run_def)
  qed (simp add: sess_run_def c)
  with c show ?thesis by (rule that)
qed

lemma sess_run_ok:
  assumes "sess_ok s"
  shows "sess_ok (sess_run L E ec bytes s) \<and> ss_role (sess_run L E ec bytes s) = ss_role s"
proof -
  obtain s' r where c: "sess_complete L E ec bytes s = (s', r)"
    "sess_run L E ec bytes s = s' \<or> sess_run L E ec bytes s = sess_stop s'"
    by (rule sess_run_cases)
  show ?thesis using sess_complete_ok [OF assms c(1)] sess_stop_ok c(2) by auto
qed

lemma sess_start_ok:
  assumes "sess_ok s" "ss_srq s = None" "\<not> ss_stopped s" "sess_start L E p s = Inr s'"
  shows "sess_ok s'"
proof (cases "ss_role s")
  case Initiator
  then show ?thesis
    using assms by (auto simp: sess_start_def sess_connect_def sess_ok_def hv_ok_def hv_needs_def awaiting_def
        sess_view_def result_simps split: option.splits)
next
  case Responder
  have v: "sess_view s' = (sess_view s)\<lparr>hv_waiting := Some WaitRequest\<rparr>"
    using HandleSessionRequest_view assms(4) Responder by (fastforce simp: sess_start_def)
  have "ss_role s' = Responder" "ss_dp s' = ss_dp s" "ss_dp s = None" "ss_ready s = False"
    using arg_cong [OF v, of hv_role] arg_cong [OF v, of hv_dp] Responder assms
    by (auto simp: sess_ok_def hv_ok_def sess_view_def sess_start_def HandleSessionRequest_def CalculateConnectKey_def
        awaiting_def result_simps)
  then show ?thesis
    using assms(1,3) Responder by (simp add: sess_ok_def v hv_ok_def hv_needs_def)
qed

theorem sess_reach_ok: "sess_reach L s \<Longrightarrow> sess_ok s"
proof (induction rule: sess_reach.induct)
  case (made_out E d i s)
  then obtain d' i' where "d = Some d'" "i = Some i'" by (cases d; cases i) (auto simp: sess_out_def Let_def)
  then show ?case
    using made_out by (auto simp: sess_out_def Let_def sess_members_def sess_ok_def hv_ok_def sess_view_def result_simps)
next
  case (made_in i s)
  then show ?case
    by (cases i) (auto simp: sess_in_def Let_def sess_members_def sess_ok_def hv_ok_def sess_view_def result_simps)
next
  case (started s E p s')
  then show ?case using sess_start_ok by blast
next
  case (completed s E ec bytes)
  then show ?case using sess_run_ok by blast
next
  case (waited s)
  then show ?case using sess_stop_ok by (auto simp: sess_wait_def)
next
  case (stopped s)
  show ?case by (rule sess_stop_ok [OF stopped.IH])
next
  case (wrote s E m m' s')
  then show ?case
    by (auto simp: sess_write_def sess_ok_def hv_ok_def hv_needs_def sess_view_def key_matches_def result_simps split: if_splits option.splits)
next
  case (was_read s E m m' s')
  then show ?case
    by (auto simp: sess_read_def sess_ok_def hv_ok_def hv_needs_def sess_view_def key_matches_def result_simps split: if_splits option.splits)
qed

text \<open>The handshake ends: a completion moves forward or leaves nothing outstanding.\<close>

lemma sess_run_forward:
  assumes "sess_ok s" "ss_waiting s = Some w"
  shows "case ss_waiting (sess_run L E ec bytes s) of None \<Rightarrow> True | Some w' \<Rightarrow> stage w < stage w'"
proof -
  let ?t = "s\<lparr>ss_waiting := None\<rparr>"
  have n: "hv_needs w (sess_view ?t)" by (rule needs_met [OF assms])
  have f: "case ss_waiting s' of None \<Rightarrow> True | Some w' \<Rightarrow> stage w < stage w'"
    if h: "sess_handler L E ec bytes w ?t = Inr s'" for s'
    using hs_step_forward [OF sess_handler_step [OF h _ n]] by simp
  have u: "ss_waiting u = None" if "got_confirmed L E bytes ?t = Inr (k, u)" for k u
    using arg_cong [OF conjunct1 [OF got_confirmed_Inr [OF that]], of hv_waiting] by simp
  obtain s' r where c: "sess_complete L E ec bytes s = (s', r)"
    "sess_run L E ec bytes s = s' \<or> sess_run L E ec bytes s = sess_stop s'"
    by (rule sess_run_cases)
  have "case ss_waiting s' of None \<Rightarrow> True | Some w' \<Rightarrow> stage w < stage w'"
    using c(1) assms(2) by (cases rule: sess_complete_cases) (use f u in auto)
  then show ?thesis using c(2) by auto
qed

definition sess_event :: "('s, 'c) sess_lib \<Rightarrow> sess_env \<times> net_error option \<times> byte list \<Rightarrow> ('s, 'c) session \<Rightarrow> ('s, 'c) session" where
  "sess_event L e s = (case e of (E, ec, bytes) \<Rightarrow> sess_run L E ec bytes s)"

definition sess_runs :: "('s, 'c) sess_lib \<Rightarrow> (sess_env \<times> net_error option \<times> byte list) list \<Rightarrow> ('s, 'c) session \<Rightarrow> ('s, 'c) session" where
  "sess_runs L evs s = fold (sess_event L) evs s"

lemma sess_run_idle: "ss_waiting s = None \<Longrightarrow> sess_run L E ec bytes s = s"
  by (simp add: sess_run_def sess_complete_def)

text \<open>The completions that are left at most, but for the one that is outstanding.\<close>

definition sess_rank :: "('s, 'c) session \<Rightarrow> nat" where
  "sess_rank s = (case ss_waiting s of None \<Rightarrow> 0 | Some w \<Rightarrow> 8 - stage w)"

interpretation sess_loop: ending_loop "sess_event L" sess_ok "\<lambda>s. ss_waiting s = None" sess_rank for L
proof (unfold_locales, goal_cases)
  case (1 s e)
  then show ?case by (cases e) (simp add: sess_event_def sess_run_ok)
next
  case (2 s e)
  then show ?case by (cases e) (simp add: sess_event_def sess_run_idle)
next
  case (3 s e)
  obtain E ec bytes where e: "e = (E, ec, bytes)" by (cases e)
  show ?case
  proof (cases "ss_waiting s")
    case (Some w)
    show ?thesis
    proof (cases "ss_waiting (sess_run L E ec bytes s)")
      case (Some w')
      then have "stage w < stage w'" using sess_run_forward [OF 3 \<open>ss_waiting s = Some w\<close>, of L E ec bytes] by simp
      then show ?thesis using Some \<open>ss_waiting s = Some w\<close> stage_bound [of w'] by (simp add: e sess_event_def sess_rank_def)
    qed (simp add: e sess_event_def)
  qed (simp add: e sess_event_def sess_run_idle)
qed

lemma sess_runs_end: "sess_ok s \<Longrightarrow> 9 \<le> length evs \<Longrightarrow> ss_waiting (sess_runs L evs s) = None"
  unfolding sess_runs_def by (rule sess_loop.run_ends) (auto simp: sess_rank_def split: option.splits)

end
