(* ===== verification/Listener.thy ===== *)
theory Listener
  imports Session "HOL-Library.AList"
begin

text \<open>
  The listener for incoming connections: \<open>src/ntcp2/session/listener.h\<close>. Its sessions run on its
  own I/O context and thread: an exception that leaves a handler, of the listener or of one of its
  sessions, ends the thread, and a session that is destroyed or stopped stops the context. What
  the context runs next is an event; nothing happens to a listener whose loop has ended.

  Shared pointers are options. The hash maps are finite maps, of which the order of iteration is
  left open.
\<close>

record ('s, 'c) listener =
  ls_info :: info
  ls_sessions :: "('s, 'c) session option list"
  ls_session_count :: "(byte list \<times> u16) list"
  ls_connect_count :: "(byte list \<times> u16) list"
  ls_blacklist :: "byte list list"
  ls_running :: bool
  ls_accepting :: bool

text \<open>A hash map with its entries in some order: a lookup that inserts, an assignment, an erasure.\<close>

definition count_of :: "byte list \<Rightarrow> (byte list \<times> u16) list \<Rightarrow> u16" where
  "count_of k m = (case map_of m k of None \<Rightarrow> 0 | Some n \<Rightarrow> n)"

definition count_set :: "byte list \<Rightarrow> u16 \<Rightarrow> (byte list \<times> u16) list \<Rightarrow> (byte list \<times> u16) list" where
  "count_set k n m = AList.update k n m"

definition count_erase :: "byte list \<Rightarrow> (byte list \<times> u16) list \<Rightarrow> (byte list \<times> u16) list" where
  "count_erase k m = AList.delete k m"

definition ls_new :: "info \<Rightarrow> ('s, 'c) listener" where
  "ls_new i = \<lparr>ls_info = i, ls_sessions = [], ls_session_count = [], ls_connect_count = [], ls_blacklist = [],
     ls_running = False, ls_accepting = False\<rparr>"

definition ls_start :: "('s, 'c) listener \<Rightarrow> ('s, 'c) listener" where
  "ls_start l = l\<lparr>ls_accepting := True, ls_running := True\<rparr>"

text \<open>The loop ends; it is not started again.\<close>

definition ls_halt :: "('s, 'c) listener \<Rightarrow> ('s, 'c) listener" where
  "ls_halt l = l\<lparr>ls_running := False\<rparr>"

text \<open>\<open>std::find_if\<close> over pointers that may be null.\<close>

fun find_session ::
  "(('s, 'c) session \<Rightarrow> bool) \<Rightarrow> ('s, 'c) session option list \<Rightarrow> ('s, 'c) session option result" where
  "find_session P [] = Inr None"
| "find_session P (x # xs) = bindr (deref x) (\<lambda>s. if P s then Inr (Some s) else find_session P xs)"

definition ls_session :: "byte list \<Rightarrow> ('s, 'c) listener \<Rightarrow> ('s, 'c) session option result" where
  "ls_session k l = find_session (\<lambda>s. ss_remote_key s = k) (ls_sessions l)"

definition ls_blacklisted :: "byte list \<Rightarrow> ('s, 'c) listener \<Rightarrow> bool" where
  "ls_blacklisted k l \<longleftrightarrow> k \<in> set (ls_blacklist l)"

section \<open>Accepting a connection\<close>

text \<open>
  Whatever throws also ends the loop; the session that was made is destroyed, which stops the
  context as well.
\<close>

definition refused ::
  "string \<Rightarrow> byte list \<Rightarrow> ('s, 'c) listener \<Rightarrow> ('s, 'c) listener \<times> unit result" where
  "refused msg k l =
     (ls_halt l, bindr (Encode Base64 k) (\<lambda>t.
        throw_ex (Ex ''SessionListener'' ''Accept'') Runtime_error (msg @ map (\<lambda>b. char_of (unat b)) t)))"

definition ls_accept ::
  "('s, 'c) sess_lib \<Rightarrow> sess_env \<Rightarrow> string option \<Rightarrow> ('s, 'c) listener \<Rightarrow> ('s, 'c) listener \<times> unit result" where
  "ls_accept L E ec l =
     (let ex = Ex ''SessionListener'' ''Accept''; l = l\<lparr>ls_accepting := False\<rparr> in
      case ec of
        Some m \<Rightarrow> (ls_halt l, throw_ex ex Runtime_error m)
      | None \<Rightarrow>
          (case bindr (sess_in L (Some (ls_info l))) (sess_start L E v6) of
             Inl e \<Rightarrow> (ls_halt l, Inl e)
           | Inr s \<Rightarrow>
               (let k = ss_connect_key s; n = count_of k (ls_connect_count l) + 1; blacklisted = ls_blacklisted k l in
                if unat n > MaxConnections \<or> blacklisted
                then refused ''SessionListener: blacklisted host with connection key: '' k
                  (l\<lparr>ls_blacklist := (if blacklisted then ls_blacklist l else k # ls_blacklist l),
                     ls_connect_count := count_erase k (ls_connect_count l)\<rparr>)
                else
                  (case find_session (\<lambda>x. ss_connect_key x = k) (ls_sessions l) of
                     Inl e \<Rightarrow> (ls_halt l, Inl e)
                   | Inr (Some _) \<Rightarrow>
                       refused ''SessionListener: session already exists for connection key: '' k
                         (l\<lparr>ls_blacklist := k # ls_blacklist l, ls_connect_count := count_erase k (ls_connect_count l)\<rparr>)
                   | Inr None \<Rightarrow>
                       (l\<lparr>ls_connect_count := count_set k n (ls_connect_count l),
                          ls_sessions := ls_sessions l @ [Some s], ls_accepting := True\<rparr>, Inr ())))))"

section \<open>Cleaning the sessions\<close>

text \<open>
  \<open>std::remove_if\<close> moves the elements that are kept to the front. The end of the vector is not cut
  off: it holds what was there, or a null pointer where an element was moved away.
\<close>

definition remove_if :: "('a \<Rightarrow> bool) \<Rightarrow> 'a list \<Rightarrow> 'a option list" where
  "remove_if P xs =
     (let kept = filter (\<lambda>x. \<not> P x) xs in
      map Some kept @ map (\<lambda>x. if P x then Some x else None) (drop (length kept) xs))"

fun deref_all :: "'a option list \<Rightarrow> 'a list result" where
  "deref_all [] = Inr []"
| "deref_all (x # xs) = bindr (deref x) (\<lambda>y. bindr (deref_all xs) (\<lambda>ys. Inr (y # ys)))"

fun count_all :: "byte list list \<Rightarrow> (byte list \<times> u16) list \<Rightarrow> (byte list \<times> u16) list" where
  "count_all [] m = m"
| "count_all (k # ks) m = count_all ks (count_set k (count_of k m + 1) m)"

definition to_remove :: "('s, 'c) listener \<Rightarrow> ('s, 'c) session \<Rightarrow> bool" where
  "to_remove l s \<longleftrightarrow> \<not> ss_ready s \<or> ls_blacklisted (ss_remote_key s) l"

text \<open>
  A removed session in front of one that is kept is overwritten. That destroys it, which stops the
  context, unless somebody else holds its pointer too (\<open>held\<close>). The loop over the counts erases the
  entry its iterator stands on and then advances the iterator, which is undefined, for the first
  entry above the bound.
\<close>

definition overwritten :: "('a \<Rightarrow> bool) \<Rightarrow> 'a list \<Rightarrow> 'a list" where
  "overwritten P xs = filter P (take (length (filter (\<lambda>x. \<not> P x) xs)) xs)"

definition ls_clean ::
  "(('s, 'c) session \<Rightarrow> bool) \<Rightarrow> net_error option \<Rightarrow> ('s, 'c) listener \<Rightarrow> ('s, 'c) listener \<times> unit result" where
  "ls_clean held ec l =
     (case check_ec (Ex ''SessionListener'' ''CleanSessions'') ec of
        Inl e \<Rightarrow> (ls_halt l, Inl e)
      | Inr _ \<Rightarrow>
          (case deref_all (ls_sessions l) of
             Inl e \<Rightarrow> (ls_halt l, Inl e)
           | Inr ss \<Rightarrow>
               (let counts = count_all (map ss_remote_key (filter (to_remove l) ss)) (ls_session_count l);
                    destroyed = filter (\<lambda>s. \<not> held s) (overwritten (to_remove l) ss);
                    l = l\<lparr>ls_sessions := remove_if (to_remove l) ss, ls_session_count := counts,
                          ls_running := ls_running l \<and> destroyed = []\<rparr> in
                if list_ex (\<lambda>(k, n). unat n > MaxSessions) counts
                then (ls_halt l, Inl (Undefined_behaviour ''erased iterator advanced''))
                else (l, Inr ()))))"

section \<open>The loop\<close>

text \<open>
  A session's operation completes. The router info is shared: the session sees the current one and
  may change it.
\<close>

definition ls_session_io ::
  "('s, 'c) sess_lib \<Rightarrow> nat \<Rightarrow> sess_env \<Rightarrow> net_error option \<Rightarrow> byte list \<Rightarrow> ('s, 'c) listener \<Rightarrow> ('s, 'c) listener \<times> unit result" where
  "ls_session_io L i E ec bytes l =
     (case (if i < length (ls_sessions l) then ls_sessions l ! i else None) of
        None \<Rightarrow> (l, Inr ())
      | Some s \<Rightarrow>
          (case sess_complete L E ec bytes (s\<lparr>ss_info := ls_info l\<rparr>) of
             (s', r) \<Rightarrow>
               (let l = l\<lparr>ls_info := ss_info s', ls_sessions := (ls_sessions l)[i := Some s']\<rparr> in
                case r of Inl e \<Rightarrow> (ls_halt l, Inl e) | Inr _ \<Rightarrow> (l, Inr ()))))"

datatype ('s, 'c) loop_event =
    Accepted sess_env "string option"
  | Session_io nat sess_env "net_error option" "byte list"
  | Clean "('s, 'c) session \<Rightarrow> bool" "net_error option"

definition ls_run :: "('s, 'c) sess_lib \<Rightarrow> ('s, 'c) loop_event \<Rightarrow> ('s, 'c) listener \<Rightarrow> ('s, 'c) listener \<times> unit result" where
  "ls_run L ev l =
     (if \<not> ls_running l then (l, Inr ())
      else (case ev of
        Accepted E ec \<Rightarrow> if ls_accepting l then ls_accept L E ec l else (l, Inr ())
      | Session_io i E ec bytes \<Rightarrow> ls_session_io L i E ec bytes l
      | Clean held ec \<Rightarrow> ls_clean held ec l))"

definition ls_event :: "('s, 'c) sess_lib \<Rightarrow> ('s, 'c) loop_event \<Rightarrow> ('s, 'c) listener \<Rightarrow> ('s, 'c) listener" where
  "ls_event L ev l = fst (ls_run L ev l)"

definition ls_runs :: "('s, 'c) sess_lib \<Rightarrow> ('s, 'c) loop_event list \<Rightarrow> ('s, 'c) listener \<Rightarrow> ('s, 'c) listener" where
  "ls_runs L evs l = fold (ls_event L) evs l"

text \<open>Stopping: every session is stopped, which dereferences its pointer, and all are dropped.\<close>

definition ls_stop :: "('s, 'c) listener \<Rightarrow> ('s, 'c) listener \<times> unit result" where
  "ls_stop l =
     (case deref_all (ls_sessions l) of
        Inl e \<Rightarrow> (l, Inl e)
      | Inr _ \<Rightarrow> (ls_halt (l\<lparr>ls_sessions := []\<rparr>), Inr ()))"

section \<open>An error ends the loop\<close>

lemma ls_halt_sel [simp]: "ls_running (ls_halt l) = False" "ls_sessions (ls_halt l) = ls_sessions l"
  "ls_blacklist (ls_halt l) = ls_blacklist l"
  by (simp_all add: ls_halt_def)

lemma ls_run_halted: "\<not> ls_running l \<Longrightarrow> ls_run L ev l = (l, Inr ())"
  by (simp add: ls_run_def)

lemma ls_accept_error: "ls_accept L E ec l = (l', Inl e) \<Longrightarrow> \<not> ls_running l'"
  by (auto simp: ls_accept_def refused_def Let_def split: option.splits sum.splits if_splits)

lemma ls_clean_error: "ls_clean held ec l = (l', Inl e) \<Longrightarrow> \<not> ls_running l'"
  by (auto simp: ls_clean_def Let_def split: sum.splits if_splits)

lemma ls_session_io_error: "ls_session_io L i E ec bytes l = (l', Inl e) \<Longrightarrow> \<not> ls_running l'"
  by (auto simp: ls_session_io_def Let_def split: option.splits sum.splits prod.splits)

lemma ls_run_error: "ls_run L ev l = (l', Inl e) \<Longrightarrow> \<not> ls_running l'"
  by (auto simp: ls_run_def dest: ls_accept_error ls_clean_error ls_session_io_error split: if_splits loop_event.splits)

section \<open>Accepting\<close>

lemma find_session_Inr_None:
  "find_session P xs = Inr None \<longleftrightarrow> (\<forall>x \<in> set xs. \<exists>s. x = Some s \<and> \<not> P s)"
  by (induction xs) (auto simp: result_simps split: if_splits)

lemma find_session_last:
  "find_session P xs = Inr None \<Longrightarrow> P s \<Longrightarrow> find_session P (xs @ [Some s]) = Inr (Some s)"
  by (induction xs) (auto simp: result_simps split: if_splits)

text \<open>A new session's connection key is the digest of the host it comes from.\<close>

lemma new_session_key:
  assumes "bindr (sess_in L (Some i)) (sess_start L E v6) = Inr s"
  obtains host where "sn_host E = Inr host" "ss_connect_key s = sl_sha L host" "ss_role s = Responder"
  using assms
  by (auto simp: sess_in_def Let_def sess_members_def sess_start_def HandleSessionRequest_def CalculateConnectKey_def
      awaiting_def result_simps)

lemma new_session_again:
  assumes "bindr (sess_in L (Some i)) (sess_start L E v6) = Inr s" "sn_host E' = sn_host E"
  shows "bindr (sess_in L (Some i)) (sess_start L E' v6) = Inr s"
  using assms
  by (auto simp: sess_in_def Let_def sess_members_def sess_start_def HandleSessionRequest_def CalculateConnectKey_def
      awaiting_def result_simps)

lemma new_session_ok:
  assumes "bindr (sess_in L (Some i)) (sess_start L E v6) = Inr s"
  shows "sess_ok s \<and> ss_role s = Responder"
proof -
  obtain s0 where s: "sess_in L (Some i) = Inr s0" "sess_start L E v6 s0 = Inr s"
    using assms by (auto simp: result_simps)
  have "sess_reach L s0" by (rule made_in [OF s(1)])
  moreover have "ss_srq s0 = None" "ss_waiting s0 = None" "\<not> ss_stopped s0"
    using s(1) by (auto simp: sess_in_def Let_def sess_members_def result_simps)
  ultimately have "sess_reach L s" using started s(2) by blast
  then show ?thesis using sess_reach_ok new_session_key [OF assms] by blast
qed

lemma refused_throws: "\<exists>e. refused msg k l = (ls_halt l, Inl e) \<and> \<not> is_ub (Inl e :: unit result)"
proof (cases "Encode Base64 k")
  case (Inl e)
  then have "\<not> is_ub (Inl e :: unit result)"
    by (auto simp: Encode_def throw_ex_eq thrown_def Let_def split: if_splits prod.splits)
  then show ?thesis using Inl by (simp add: refused_def)
qed (simp add: refused_def throw_ex_eq thrown_def)

lemma refused_not_Inr [simp]: "refused msg k l \<noteq> (l', Inr u)"
  using refused_throws [of msg k l] by auto

text \<open>What becomes of a connection whose session was made.\<close>

lemma ls_accept_eq:
  assumes "bindr (sess_in L (Some (ls_info l))) (sess_start L E v6) = Inr s"
    and "k = ss_connect_key s" "n = count_of k (ls_connect_count l) + 1" "m = l\<lparr>ls_accepting := False\<rparr>"
  shows "ls_accept L E None l =
    (if unat n > MaxConnections \<or> ls_blacklisted k l
     then refused ''SessionListener: blacklisted host with connection key: '' k
       (m\<lparr>ls_blacklist := (if ls_blacklisted k l then ls_blacklist l else k # ls_blacklist l),
          ls_connect_count := count_erase k (ls_connect_count l)\<rparr>)
     else (case find_session (\<lambda>x. ss_connect_key x = k) (ls_sessions l) of
         Inl e \<Rightarrow> (ls_halt m, Inl e)
       | Inr (Some _) \<Rightarrow>
           refused ''SessionListener: session already exists for connection key: '' k
             (m\<lparr>ls_blacklist := k # ls_blacklist l, ls_connect_count := count_erase k (ls_connect_count l)\<rparr>)
       | Inr None \<Rightarrow>
           (m\<lparr>ls_connect_count := count_set k n (ls_connect_count l),
              ls_sessions := ls_sessions l @ [Some s], ls_accepting := True\<rparr>, Inr ())))"
  using assms by (simp add: ls_accept_def ls_blacklisted_def Let_def cong: if_cong sum.case_cong option.case_cong)

lemma ls_accept_Inr:
  assumes "ls_accept L E ec l = (l', Inr ())"
  obtains s where "ec = None" "bindr (sess_in L (Some (ls_info l))) (sess_start L E v6) = Inr s"
    "\<not> ls_blacklisted (ss_connect_key s) l" "\<forall>x \<in> set (ls_sessions l). \<exists>t. x = Some t \<and> ss_connect_key t \<noteq> ss_connect_key s"
    "ls_sessions l' = ls_sessions l @ [Some s]" "ls_info l' = ls_info l" "ls_blacklist l' = ls_blacklist l"
    "ls_running l' = ls_running l" "ls_accepting l'"
    "ls_connect_count l' = count_set (ss_connect_key s) (count_of (ss_connect_key s) (ls_connect_count l) + 1) (ls_connect_count l)"
proof -
  obtain s where s: "bindr (sess_in L (Some (ls_info l))) (sess_start L E v6) = Inr s" "ec = None"
    using assms by (auto simp: ls_accept_def Let_def split: option.splits sum.splits)
  let ?k = "ss_connect_key s"
  note eq = ls_accept_eq [OF s(1) refl refl refl]
  have g: "\<not> (unat (count_of ?k (ls_connect_count l) + 1) > MaxConnections \<or> ls_blacklisted ?k l)"
  proof
    assume c: "unat (count_of ?k (ls_connect_count l) + 1) > MaxConnections \<or> ls_blacklisted ?k l"
    show False using assms unfolding s(2) eq if_P [OF c] by simp
  qed
  have f: "find_session (\<lambda>x. ss_connect_key x = ?k) (ls_sessions l) = Inr None"
    using assms unfolding s(2) eq if_not_P [OF g] by (simp split: sum.splits option.splits)
  have l': "l' = l\<lparr>ls_accepting := False, ls_connect_count := count_set ?k (count_of ?k (ls_connect_count l) + 1) (ls_connect_count l),
      ls_sessions := ls_sessions l @ [Some s], ls_accepting := True\<rparr>"
    using assms unfolding s(2) eq if_not_P [OF g] by (simp add: f)
  show ?thesis
    by (rule that [OF s(2,1)]) (use g f in \<open>auto simp: l' find_session_Inr_None\<close>)
qed

text \<open>A second connection from the same host.\<close>

lemma ls_accept_again:
  assumes a: "ls_accept L E ec l = (l1, Inr ())" and h: "sn_host E' = sn_host E"
  obtains e l2 k where "ls_accept L E' None l1 = (l2, Inl e)" "\<not> is_ub (Inl e :: unit result)" "\<not> ls_running l2" "ls_blacklisted k l2"
    "\<exists>host. sn_host E = Inr host \<and> k = sl_sha L host"
proof -
  obtain s where s: "bindr (sess_in L (Some (ls_info l))) (sess_start L E v6) = Inr s"
    "\<not> ls_blacklisted (ss_connect_key s) l" "\<forall>x \<in> set (ls_sessions l). \<exists>t. x = Some t \<and> ss_connect_key t \<noteq> ss_connect_key s"
    "ls_sessions l1 = ls_sessions l @ [Some s]" "ls_info l1 = ls_info l"
    by (rule ls_accept_Inr [OF a])
  let ?k = "ss_connect_key s"
  have n: "bindr (sess_in L (Some (ls_info l1))) (sess_start L E' v6) = Inr s"
    using new_session_again [OF s(1) h] s(5) by simp
  have f: "find_session (\<lambda>x. ss_connect_key x = ?k) (ls_sessions l1) = Inr (Some s)"
    using s(3) find_session_last [of "\<lambda>x. ss_connect_key x = ?k" "ls_sessions l" s] s(4)
    by (simp add: find_session_Inr_None)
  obtain l2 r where r: "ls_accept L E' None l1 = (l2, r)" by (cases "ls_accept L E' None l1")
  have ex: "\<exists>msg l3. (l2, r) = refused msg ?k l3 \<and> ?k \<in> set (ls_blacklist l3)"
    if "refused msg l3k l3 = (l2, r)" "l3k = ?k" "?k \<in> set (ls_blacklist l3)" for msg l3 l3k
    using that by metis
  have "\<exists>msg l3. (l2, r) = refused msg ?k l3 \<and> ?k \<in> set (ls_blacklist l3)"
  proof (cases "unat (count_of ?k (ls_connect_count l1) + 1) > MaxConnections \<or> ls_blacklisted ?k l1")
    case True
    show ?thesis
      by (rule ex [OF trans [OF ls_accept_eq [OF n refl refl refl, unfolded if_P [OF True], symmetric] r]])
        (simp_all add: ls_blacklisted_def)
  next
    case False
    have eq: "ls_accept L E' None l1 = refused ''SessionListener: session already exists for connection key: '' ?k
        (l1\<lparr>ls_accepting := False, ls_blacklist := ?k # ls_blacklist l1, ls_connect_count := count_erase ?k (ls_connect_count l1)\<rparr>)"
      unfolding ls_accept_eq [OF n refl refl refl] if_not_P [OF False] f by simp
    show ?thesis by (rule ex [OF trans [OF eq [symmetric] r] refl]) simp
  qed
  then obtain msg l3 where l3: "(l2, r) = refused msg ?k l3" "?k \<in> set (ls_blacklist l3)" by blast
  obtain e where e: "r = Inl e" "\<not> is_ub (Inl e :: unit result)" "l2 = ls_halt l3"
    using refused_throws [of msg ?k l3] l3(1) by auto
  obtain host where host: "sn_host E = Inr host" "?k = sl_sha L host" by (rule new_session_key [OF s(1)])
  show ?thesis by (rule that [of l2 e ?k]) (use r e l3 host in \<open>auto simp: ls_blacklisted_def\<close>)
qed


section \<open>What listening keeps\<close>

text \<open>
  The sessions of a listener are responders that satisfy their invariant, and no two of them have
  the same connection key.
\<close>

definition live :: "('s, 'c) session option list \<Rightarrow> ('s, 'c) session list" where
  "live xs = [s. Some s \<leftarrow> xs]"

definition ls_ok :: "('s, 'c) listener \<Rightarrow> bool" where
  "ls_ok l \<longleftrightarrow> (\<forall>s \<in> set (live (ls_sessions l)). sess_ok s \<and> ss_role s = Responder)
     \<and> distinct (map ss_connect_key (live (ls_sessions l)))"

lemma live_simps [simp]: "live [] = []" "live (Some s # xs) = s # live xs" "live (None # xs) = live xs"
  "live (xs @ ys) = live xs @ live ys" "live (map Some ss) = ss"
  by (simp_all add: live_def) (induction ss, auto)

lemma set_live: "s \<in> set (live xs) \<longleftrightarrow> Some s \<in> set xs"
  by (induction xs) (auto simp: live_def split: option.splits)

lemma live_map_cond: "live (map (\<lambda>x. if P x then Some x else None) xs) = filter P xs"
  by (induction xs) auto

lemma deref_all_Inr: "deref_all xs = Inr ss \<Longrightarrow> xs = map Some ss"
  by (induction xs arbitrary: ss) (auto simp: result_simps)

lemma live_remove_if: "live (remove_if P xs) = filter (\<lambda>x. \<not> P x) xs @ filter P (drop (length (filter (\<lambda>x. \<not> P x) xs)) xs)"
  by (simp add: remove_if_def Let_def live_map_cond)

lemma distinct_remove_if:
  assumes "distinct (map f xs)"
  shows "distinct (map f (live (remove_if P xs)))"
proof -
  let ?d = "drop (length (filter (\<lambda>x. \<not> P x) xs)) xs"
  have "distinct (map f (filter (\<lambda>x. \<not> P x) xs))" "distinct (map f (filter P ?d))"
    using assms by (auto simp: distinct_map inj_on_def distinct_filter dest: in_set_dropD intro: distinct_drop)
  moreover have "f x \<noteq> f y" if "x \<in> set xs" "\<not> P x" "y \<in> set ?d" "P y" for x y
    using assms that by (auto simp: distinct_map inj_on_def dest: in_set_dropD)
  ultimately show ?thesis by (auto simp: live_remove_if)
qed

text \<open>A responder keeps its connection key.\<close>

lemma handler_keeps_connect_key:
  assumes "sess_handler L E ec bytes w s = Inr s'" "ss_role s = Responder" "hv_needs w (sess_view s)"
  shows "ss_connect_key s' = ss_connect_key s"
proof -
  have rl: "op_role w = Responder" using assms(2,3) by (simp add: hv_needs_def)
  have c: "HandleSessionCreated L E t = Inr s' \<Longrightarrow> ss_role t = Responder \<Longrightarrow> ss_connect_key s' = ss_connect_key t" for t
    by (auto simp: HandleSessionCreated_def DoSessionCreated_def result_simps awaiting_def)
  have d: "check_static_key L E k t = Inr s' \<Longrightarrow> ss_role t = Responder \<Longrightarrow> ss_connect_key s' = ss_connect_key t" for k t
    by (auto simp: HandleDataPhase_def DoDataPhase_def result_simps awaiting_def case_prod_unfold dest!: check_static_key_Inr)
  have g: "got_confirmed L E bytes s = Inr (k, t) \<Longrightarrow> ss_connect_key t = ss_connect_key s \<and> ss_role t = ss_role s" for k t
    by (auto simp: got_confirmed_def result_simps)
  show ?thesis
  proof (cases "w = ReadConfirmed")
    case True
    then have "bindr (got_confirmed L E bytes s) (\<lambda>(k, s). check_static_key L E k s) = Inr s'"
      using assms(1) by (simp add: sess_handler_def bindr_Inr_iff [of "check_ec ex ec" for ex])
    then show ?thesis by (elim bindr_pair_InrE) (use d g assms(2) in metis)
  next
    case False
    then show ?thesis
      using assms(1,2) rl
      by (cases w) (auto simp: sess_handler_def result_simps got_request_def got_request_padding_def Let_def awaiting_def
          HandleSessionConfirmed_def DoSessionConfirmed_def DoSessionRequest_def became_ready_def dest!: c split: if_splits)
  qed
qed

lemma sess_complete_connect_key:
  assumes "sess_complete L E ec bytes s = (s', r)" "sess_ok s" "ss_role s = Responder"
  shows "ss_connect_key s' = ss_connect_key s"
proof (cases "ss_waiting s")
  case None
  then show ?thesis using assms(1) by (simp add: sess_complete_def)
next
  case (Some w)
  have g: "got_confirmed L E bytes t = Inr (k, u) \<Longrightarrow> ss_connect_key u = ss_connect_key t" for k t u
    by (auto simp: got_confirmed_def result_simps)
  show ?thesis
  proof (rule sess_complete_cases [OF assms(1) Some])
    assume h: "sess_handler L E ec bytes w (s\<lparr>ss_waiting := None\<rparr>) = Inr s'"
    show ?thesis using handler_keeps_connect_key [OF h _ needs_met [OF assms(2) Some]] assms(3) by simp
  qed (use g in fastforce)+
qed


lemma ls_ok_same: "ls_ok l \<Longrightarrow> ls_sessions l' = ls_sessions l \<Longrightarrow> ls_ok l'"
  by (simp add: ls_ok_def)

lemma ls_accept_ok:
  assumes "ls_ok l"
  shows "ls_ok (fst (ls_accept L E ec l))"
proof (cases "snd (ls_accept L E ec l)")
  case (Inl e)
  have "ls_sessions (fst (ls_accept L E ec l)) = ls_sessions l"
    using Inl by (auto simp: ls_accept_def refused_def Let_def split: option.splits sum.splits)
  then show ?thesis using assms by (rule ls_ok_same [rotated])
next
  case (Inr u)
  then obtain l' where l': "ls_accept L E ec l = (l', Inr ())" by (cases "ls_accept L E ec l") simp
  obtain s where s: "bindr (sess_in L (Some (ls_info l))) (sess_start L E v6) = Inr s"
    "\<forall>x \<in> set (ls_sessions l). \<exists>t. x = Some t \<and> ss_connect_key t \<noteq> ss_connect_key s" "ls_sessions l' = ls_sessions l @ [Some s]"
    by (rule ls_accept_Inr [OF l'])
  have "ss_connect_key s \<notin> ss_connect_key ` set (live (ls_sessions l))"
    using s(2) by (force simp: set_live)
  then show ?thesis using assms new_session_ok [OF s(1)] by (auto simp: l' ls_ok_def s(3))
qed

lemma ls_clean_ok:
  assumes "ls_ok l"
  shows "ls_ok (fst (ls_clean held ec l))"
proof -
  have "ls_sessions (fst (ls_clean held ec l)) = ls_sessions l
      \<or> (\<exists>ss. ls_sessions l = map Some ss \<and> ls_sessions (fst (ls_clean held ec l)) = remove_if (to_remove l) ss)"
  proof (cases "deref_all (ls_sessions l)")
    case (Inr ss)
    then show ?thesis using deref_all_Inr [OF Inr] by (auto simp: ls_clean_def Let_def split: sum.splits)
  qed (auto simp: ls_clean_def split: sum.splits)
  then show ?thesis
  proof (elim disjE exE conjE)
    fix ss assume ss: "ls_sessions l = map Some ss" "ls_sessions (fst (ls_clean held ec l)) = remove_if (to_remove l) ss"
    show ?thesis
      using assms distinct_remove_if [of ss_connect_key ss "to_remove l"]
      by (auto simp: ls_ok_def ss live_remove_if dest: in_set_dropD)
  qed (rule ls_ok_same [OF assms])
qed

lemma live_update:
  "i < length xs \<Longrightarrow> xs ! i = Some s \<Longrightarrow> \<exists>us vs. live xs = us @ s # vs \<and> live (xs[i := Some t]) = us @ t # vs"
proof (induction xs arbitrary: i)
  case (Cons x xs)
  show ?case
  proof (cases i)
    case (Suc j)
    then obtain us vs where "live xs = us @ s # vs" "live (xs[j := Some t]) = us @ t # vs" using Cons by fastforce
    then show ?thesis using Suc by (cases x) (auto intro: exI [of _ us] exI [of _ "_ # us"] simp flip: append_Cons)
  qed (use Cons in \<open>auto intro: exI [of _ "[]"]\<close>)
qed simp

lemma ls_session_io_ok:
  assumes "ls_ok l"
  shows "ls_ok (fst (ls_session_io L i E ec bytes l))"
proof (cases "i < length (ls_sessions l) \<and> ls_sessions l ! i \<noteq> None")
  case True
  then obtain s where s: "i < length (ls_sessions l)" "ls_sessions l ! i = Some s" by auto
  let ?s = "s\<lparr>ss_info := ls_info l\<rparr>"
  have "Some s \<in> set (ls_sessions l)" using s nth_mem by metis
  then have "sess_ok s \<and> ss_role s = Responder" using assms by (auto simp: ls_ok_def set_live)
  then have ok: "sess_ok ?s" "ss_role ?s = Responder"
    by (auto simp: sess_ok_def sess_view_def key_matches_def)
  obtain s' r where c: "sess_complete L E ec bytes ?s = (s', r)" by (cases "sess_complete L E ec bytes ?s")
  have s': "sess_ok s' \<and> ss_role s' = Responder" "ss_connect_key s' = ss_connect_key s"
    using sess_complete_ok [OF ok(1) c] sess_complete_connect_key [OF c ok] ok(2) by simp_all
  have l': "ls_sessions (fst (ls_session_io L i E ec bytes l)) = (ls_sessions l)[i := Some s']"
    using s c by (simp add: ls_session_io_def Let_def split: sum.splits)
  obtain us vs where "live (ls_sessions l) = us @ s # vs" "live ((ls_sessions l)[i := Some s']) = us @ s' # vs"
    using live_update [OF s] by blast
  then show ?thesis using assms s' by (auto simp: ls_ok_def l')
qed (use assms in \<open>auto simp: ls_session_io_def split: option.splits\<close>)

lemma ls_run_ok: "ls_ok l \<Longrightarrow> ls_ok (fst (ls_run L ev l))"
  by (cases ev) (auto simp: ls_run_def ls_accept_ok ls_clean_ok ls_session_io_ok)

interpretation ls_loop: event_loop "ls_event L" ls_ok "\<lambda>l. \<not> ls_running l" for L
  by unfold_locales (simp_all add: ls_event_def ls_run_ok ls_run_halted)

lemma ls_runs_halted: "\<not> ls_running l \<Longrightarrow> ls_runs L evs l = l"
  unfolding ls_runs_def by (rule ls_loop.run_idle)

lemma ls_runs_ok: "ls_ok l \<Longrightarrow> ls_ok (ls_runs L evs l)"
  unfolding ls_runs_def by (rule ls_loop.run_inv)

lemma ls_new_ok: "ls_ok (ls_start (ls_new i))"
  by (simp add: ls_ok_def ls_start_def ls_new_def)

section \<open>Cleaning goes wrong\<close>

text \<open>
  A session that is not ready stays in the vector and is counted again by every cleaning: the
  fourth is undefined.
\<close>

lemma clean_alone:
  assumes "ls_sessions l = [Some s]" "\<not> ss_ready s" "check_ec (Ex ''SessionListener'' ''CleanSessions'') ec = Inr ()"
    and "ls_session_count l = (if n = 0 then [] else [(ss_remote_key s, word_of_nat n)])" "n \<le> 3"
  shows "ls_clean held ec l =
    (let l' = l\<lparr>ls_session_count := [(ss_remote_key s, word_of_nat (n + 1))]\<rparr> in
     if n = 3 then (ls_halt l', Inl (Undefined_behaviour ''erased iterator advanced'')) else (l', Inr ()))"
proof -
  have r: "to_remove l s" using assms(2) by (simp add: to_remove_def)
  have c: "count_set (ss_remote_key s) (count_of (ss_remote_key s) (ls_session_count l) + 1) (ls_session_count l) =
      [(ss_remote_key s, word_of_nat (n + 1))]"
    by (simp add: assms(4) count_set_def count_of_def add.commute)
  have u: "unat (word_of_nat (n + 1) :: u16) = n + 1" using assms(5) by (intro u16_small) simp
  have l: "l\<lparr>ls_sessions := [Some s], ls_session_count := x, ls_running := ls_running l\<rparr> = l\<lparr>ls_session_count := x\<rparr>" for x
    by (simp add: assms(1) [symmetric])
  have d: "deref_all (ls_sessions l) = Inr [s]" by (simp add: assms(1) deref_def)
  have cl: "ls_clean held ec l =
    (let l' = l\<lparr>ls_session_count := [(ss_remote_key s, word_of_nat (n + 1))]\<rparr> in
     if list_ex (\<lambda>(k, n). unat n > MaxSessions) [(ss_remote_key s, word_of_nat (n + 1) :: u16)]
     then (ls_halt l', Inl (Undefined_behaviour ''erased iterator advanced'')) else (l', Inr ()))"
    unfolding ls_clean_def assms(3) d sum.case Let_def using c l r
    by (simp add: remove_if_def overwritten_def)
  have "list_ex (\<lambda>(k, n). unat n > MaxSessions) [(ss_remote_key s, word_of_nat (n + 1) :: u16)] \<longleftrightarrow> n = 3"
    using u assms(5) by (auto simp: MaxSessions_def)
  then show ?thesis unfolding cl by simp
qed

text \<open>
  A session that is not ready in front of one that is: the vector ends with a null pointer, which
  the next cleaning, lookup or stop dereferences.
\<close>

lemma clean_leaves_null:
  assumes "ls_sessions l = [Some s, Some t]" "to_remove l s" "\<not> to_remove l t"
    and "check_ec (Ex ''SessionListener'' ''CleanSessions'') ec = Inr ()" "ls_session_count l = []"
  shows "ls_clean held ec l =
    (l\<lparr>ls_sessions := [Some t, None], ls_session_count := [(ss_remote_key s, 1)], ls_running := ls_running l \<and> held s\<rparr>, Inr ())"
proof -
  have d: "deref_all (ls_sessions l) = Inr [s, t]" by (simp add: assms(1) deref_def)
  show ?thesis
    unfolding ls_clean_def assms(4) d sum.case Let_def using assms(2,3,5)
    by (simp add: remove_if_def overwritten_def count_set_def count_of_def MaxSessions_def)
qed

lemma deref_all_null: "None \<in> set xs \<Longrightarrow> deref_all xs = Inl (Undefined_behaviour ''null pointer'')"
  by (induction xs) (auto simp: deref_def split: option.splits)

end
