(* ===== verification/Manager.thy ===== *)
theory Manager
  imports Listener
begin

text \<open>
  The sessions of a router: \<open>src/ntcp2/session/manager.h\<close>. One listener per IP version, the
  outbound sessions in the order they were made, and a list of keys that are refused. An endpoint
  is the address of an IP version: \<open>is_v6\<close> decides which.
\<close>

record ('s, 'c) manager =
  mg_info :: info
  mg_listener :: "('s, 'c) listener option"
  mg_listener_v6 :: "('s, 'c) listener option"
  mg_out :: "('s, 'c) session list"
  mg_blacklist :: "byte list list"

definition mg_members :: "info \<Rightarrow> ('s, 'c) manager" where
  "mg_members i = \<lparr>mg_info = i, mg_listener = None, mg_listener_v6 = None, mg_out = [], mg_blacklist = []\<rparr>"

text \<open>The constructors; binding the acceptor of a listener may throw.\<close>

definition mg_new_listener :: "unit result \<Rightarrow> info \<Rightarrow> ('s, 'c) listener result" where
  "mg_new_listener bound i = bindr bound (\<lambda>_. Inr (ls_start (ls_new i)))"

definition mg_new_both ::
  "('s, 'c) sess_lib \<Rightarrow> unit result \<Rightarrow> unit result \<Rightarrow> info option \<Rightarrow> byte list \<Rightarrow> byte list \<Rightarrow> ('s, 'c) manager result" where
  "mg_new_both L bound bound6 own ep4 ep6 =
     (let ex = Ex ''SessionManager'' ''SessionManager'' in
      case own of
        None \<Rightarrow> throw_ex ex Invalid_argument ''null RouterInfo.''
      | Some i \<Rightarrow>
          if sl_is_v6 L ep4 \<or> \<not> sl_is_v6 L ep6 then throw_ex ex Invalid_argument ''invalid listener endpoints.''
          else
            bindr (mg_new_listener bound i) (\<lambda>l.
            bindr (mg_new_listener bound6 i) (\<lambda>l6.
              Inr ((mg_members i)\<lparr>mg_listener := Some l, mg_listener_v6 := Some l6\<rparr>))))"

definition mg_new ::
  "('s, 'c) sess_lib \<Rightarrow> unit result \<Rightarrow> info option \<Rightarrow> byte list \<Rightarrow> ('s, 'c) manager result" where
  "mg_new L bound own ep =
     (case own of
        None \<Rightarrow> throw_ex (Ex ''SessionManager'' ''SessionManager'') Invalid_argument ''null RouterInfo.''
      | Some i \<Rightarrow>
          bindr (mg_new_listener bound i) (\<lambda>l.
            Inr (if sl_is_v6 L ep then (mg_members i)\<lparr>mg_listener_v6 := Some l\<rparr>
                 else (mg_members i)\<lparr>mg_listener := Some l\<rparr>)))"

definition mg_blacklisted :: "byte list \<Rightarrow> ('s, 'c) manager \<Rightarrow> bool" where
  "mg_blacklisted k g \<longleftrightarrow>
     k \<in> set (mg_blacklist g)
     \<or> (case mg_listener g of None \<Rightarrow> False | Some l \<Rightarrow> ls_blacklisted k l)
     \<or> (case mg_listener_v6 g of None \<Rightarrow> False | Some l \<Rightarrow> ls_blacklisted k l)"

text \<open>The first outbound session with a key, taken out of the list.\<close>

fun take_session ::
  "byte list \<Rightarrow> ('s, 'c) session list \<Rightarrow> (('s, 'c) session \<times> ('s, 'c) session list) option" where
  "take_session k [] = None"
| "take_session k (s # ss) =
     (if ss_remote_key s = k then Some (s, ss)
      else (case take_session k ss of None \<Rightarrow> None | Some (x, rest) \<Rightarrow> Some (x, s # rest)))"

text \<open>
  An outbound session. A second one to the same destination refuses it: both keys of the first one
  are blacklisted and it is dropped.
\<close>

definition mg_session ::
  "('s, 'c) sess_lib \<Rightarrow> sess_env \<Rightarrow> info option \<Rightarrow> ('s, 'c) manager \<Rightarrow> ('s, 'c) manager \<times> ('s, 'c) session result" where
  "mg_session L E dest g =
     (let ex = Ex ''SessionManager'' ''session'' in
      case dest of
        None \<Rightarrow> (g, throw_ex ex Invalid_argument ''null RouterInfo.'')
      | Some d \<Rightarrow>
          (let key = pubkey (id_keys (cobj (crypto (ri_identity d)))) in
           if mg_blacklisted key g then (g, throw_ex ex Runtime_error ''session destination is blacklisted.'')
           else
             (case take_session key (mg_out g) of
                Some (s, rest) \<Rightarrow>
                  (g\<lparr>mg_out := rest, mg_blacklist := ss_connect_key s # ss_remote_key s # mg_blacklist g\<rparr>,
                   bindr (Encode Base64 (ss_remote_key s)) (\<lambda>t.
                     throw_ex ex Runtime_error (''session already exists for key: '' @ map (\<lambda>b. char_of (unat b)) t)))
              | None \<Rightarrow>
                  (case sess_out L E (Some d) (Some (mg_info g)) of
                     Inl e \<Rightarrow> (g, Inl e)
                   | Inr s \<Rightarrow> (g\<lparr>mg_out := mg_out g @ [s], mg_info := ss_info s\<rparr>, Inr s)))))"

definition mg_listener_of :: "ip \<Rightarrow> ('s, 'c) manager \<Rightarrow> ('s, 'c) listener option" where
  "mg_listener_of p g = (if p = v4 then mg_listener g else mg_listener_v6 g)"

text \<open>
  Stopping: the outbound sessions are stopped and dropped, then the listeners. A listener whose
  vector holds a null pointer leaves that undefined.
\<close>

definition mg_stop :: "('s, 'c) manager \<Rightarrow> ('s, 'c) manager \<times> unit result" where
  "mg_stop g =
     (let g = g\<lparr>mg_out := []\<rparr> in
      case (case mg_listener g of None \<Rightarrow> Inr () | Some l \<Rightarrow> snd (ls_stop l)) of
        Inl e \<Rightarrow> (g, Inl e)
      | Inr _ \<Rightarrow>
          (let g = g\<lparr>mg_listener := None\<rparr> in
           case (case mg_listener_v6 g of None \<Rightarrow> Inr () | Some l \<Rightarrow> snd (ls_stop l)) of
             Inl e \<Rightarrow> (g, Inl e)
           | Inr _ \<Rightarrow> (g\<lparr>mg_listener_v6 := None\<rparr>, Inr ())))"

section \<open>Outbound sessions\<close>

definition dest_key :: "info \<Rightarrow> byte list" where
  "dest_key d = pubkey (id_keys (cobj (crypto (ri_identity d))))"

text \<open>A router info whose key option is the key of its identity, as \<open>update_id_pubkey\<close> makes it.\<close>

definition dest_ok :: "info \<Rightarrow> bool" where
  "dest_ok d \<longleftrightarrow> decoded_option ''s'' d = Inr (dest_key d) \<and> length (dest_key d) = 32"

lemma sess_out_key: "sess_out L E (Some d) (Some i) = Inr s \<Longrightarrow> dest_ok d \<Longrightarrow> ss_remote_key s = dest_key d"
  by (auto simp: sess_out_def Let_def sess_members_def dest_ok_def first_bytes_def result_simps split: if_splits)

lemma take_session_None: "take_session k ss = None \<longleftrightarrow> k \<notin> ss_remote_key ` set ss"
  by (induction ss) (auto split: option.splits)

lemma take_session_Some:
  "take_session k ss = Some (s, rest) \<Longrightarrow> \<exists>us vs. ss = us @ s # vs \<and> rest = us @ vs \<and> ss_remote_key s = k"
proof (induction ss arbitrary: rest)
  case (Cons x ss)
  then show ?case
    by (auto split: if_splits option.splits intro: exI [of _ "[]"]) (metis append_Cons)
qed simp

lemma mg_session_Inr:
  assumes "mg_session L E dest g = (g', Inr s)"
  obtains d where "dest = Some d" "\<not> mg_blacklisted (dest_key d) g" "dest_key d \<notin> ss_remote_key ` set (mg_out g)"
    "sess_out L E (Some d) (Some (mg_info g)) = Inr s" "g' = g\<lparr>mg_out := mg_out g @ [s], mg_info := ss_info s\<rparr>"
proof -
  obtain d where d: "dest = Some d" using assms by (cases dest) (auto simp: mg_session_def Let_def)
  have b: "\<not> mg_blacklisted (dest_key d) g"
    using assms d by (auto simp: mg_session_def Let_def dest_key_def split: if_splits)
  have t: "take_session (dest_key d) (mg_out g) = None"
    using assms d b by (auto simp: mg_session_def Let_def dest_key_def result_simps split: option.splits)
  show ?thesis
    by (rule that [OF d b]) (use assms d b t in \<open>auto simp: mg_session_def Let_def dest_key_def [symmetric] take_session_None split: sum.splits\<close>)
qed


lemma mg_session_eq:
  assumes "\<not> mg_blacklisted (dest_key d) g"
  shows "mg_session L E (Some d) g =
    (case take_session (dest_key d) (mg_out g) of
       Some (s, rest) \<Rightarrow>
         (g\<lparr>mg_out := rest, mg_blacklist := ss_connect_key s # ss_remote_key s # mg_blacklist g\<rparr>,
          bindr (Encode Base64 (ss_remote_key s)) (\<lambda>t.
            throw_ex (Ex ''SessionManager'' ''session'') Runtime_error
              (''session already exists for key: '' @ map (\<lambda>b. char_of (unat b)) t)))
     | None \<Rightarrow>
         (case sess_out L E (Some d) (Some (mg_info g)) of
            Inl e \<Rightarrow> (g, Inl e)
          | Inr s \<Rightarrow> (g\<lparr>mg_out := mg_out g @ [s], mg_info := ss_info s\<rparr>, Inr s)))"
  using assms by (simp add: mg_session_def Let_def dest_key_def)

lemma mg_session_blacklist: "set (mg_blacklist g) \<subseteq> set (mg_blacklist (fst (mg_session L E dest g)))"
proof (cases dest)
  case None
  then show ?thesis by (simp add: mg_session_def Let_def)
next
  case (Some d)
  show ?thesis
  proof (cases "mg_blacklisted (dest_key d) g")
    case True
    then show ?thesis using Some by (simp add: mg_session_def Let_def dest_key_def)
  qed (auto simp: Some mg_session_eq split: option.splits sum.splits)
qed

definition mg_request :: "('s, 'c) sess_lib \<Rightarrow> sess_env \<times> info option \<Rightarrow> ('s, 'c) manager \<Rightarrow> ('s, 'c) manager" where
  "mg_request L q g = (case q of (E, dest) \<Rightarrow> fst (mg_session L E dest g))"

definition mg_sessions ::
  "('s, 'c) sess_lib \<Rightarrow> (sess_env \<times> info option) list \<Rightarrow> ('s, 'c) manager \<Rightarrow> ('s, 'c) manager" where
  "mg_sessions L qs g = fold (mg_request L) qs g"

text \<open>Requests do not take keys off the list of refused keys.\<close>

interpretation mg_loop: event_loop "mg_request L" "\<lambda>g. K \<subseteq> set (mg_blacklist g)" "\<lambda>_. False" for L K
  by unfold_locales (auto simp: mg_request_def split: prod.splits intro: subsetD [OF mg_session_blacklist])

lemma mg_sessions_blacklist: "set (mg_blacklist g) \<subseteq> set (mg_blacklist (mg_sessions L qs g))"
  unfolding mg_sessions_def by (rule mg_loop.run_inv) simp

text \<open>The keys of the outbound sessions stay distinct when the destinations are well-formed.\<close>

lemma mg_session_distinct:
  assumes "distinct (map ss_remote_key (mg_out g))" "\<And>d. dest = Some d \<Longrightarrow> dest_ok d"
  shows "distinct (map ss_remote_key (mg_out (fst (mg_session L E dest g))))"
proof (cases "snd (mg_session L E dest g)")
  case (Inr s)
  then obtain g' where g': "mg_session L E dest g = (g', Inr s)" by (cases "mg_session L E dest g") simp
  obtain d where d: "dest = Some d" "dest_key d \<notin> ss_remote_key ` set (mg_out g)"
    "sess_out L E (Some d) (Some (mg_info g)) = Inr s" "g' = g\<lparr>mg_out := mg_out g @ [s], mg_info := ss_info s\<rparr>"
    by (rule mg_session_Inr [OF g'])
  show ?thesis using assms(1) d(2) sess_out_key [OF d(3) assms(2) [OF d(1)]] by (auto simp: g' d(4))
next
  case (Inl e)
  show ?thesis
  proof (cases dest)
    case None
    then show ?thesis using assms(1) by (simp add: mg_session_def Let_def)
  next
    case (Some d)
    show ?thesis
    proof (cases "mg_blacklisted (dest_key d) g")
      case True
      then show ?thesis using Some assms(1) by (simp add: mg_session_def Let_def dest_key_def)
    next
      case False
      show ?thesis
      proof (cases "take_session (dest_key d) (mg_out g)")
        case None
        then show ?thesis using Inl assms(1) by (auto simp: Some mg_session_eq [OF False] split: sum.splits)
      next
        case (Some p)
        obtain s rest where p: "p = (s, rest)" by (cases p)
        obtain us vs where uv: "mg_out g = us @ s # vs" "rest = us @ vs" using take_session_Some Some p by blast
        have "mg_out (fst (mg_session L E dest g)) = rest"
          by (simp add: \<open>dest = Some d\<close> mg_session_eq [OF False] Some p)
        then show ?thesis using assms(1) by (simp add: uv)
      qed
    qed
  qed
qed

lemma mg_sessions_distinct:
  assumes "distinct (map ss_remote_key (mg_out g))" "\<forall>(E, dest) \<in> set qs. \<forall>d. dest = Some d \<longrightarrow> dest_ok d"
  shows "distinct (map ss_remote_key (mg_out (mg_sessions L qs g)))"
  using assms
proof (induction qs arbitrary: g)
  case (Cons q qs)
  obtain E dest where q: "q = (E, dest)" by (cases q)
  show ?case
    using Cons.IH [of "fst (mg_session L E dest g)"] mg_session_distinct [of g dest L E] Cons.prems
    by (auto simp: q mg_sessions_def mg_request_def)
qed (simp add: mg_sessions_def)

text \<open>Asking twice: the second request is refused, and every one after it.\<close>

lemma mg_session_second:
  assumes "mg_session L E (Some d) g = (g1, Inr s)" "dest_ok d"
  obtains g2 e where "mg_session L E' (Some d) g1 = (g2, Inl e)" "dest_key d \<in> set (mg_blacklist g2)"
    "mg_out g2 = mg_out g"
proof -
  obtain d' where d': "Some d = Some d'" "\<not> mg_blacklisted (dest_key d') g" "dest_key d' \<notin> ss_remote_key ` set (mg_out g)"
    "sess_out L E (Some d') (Some (mg_info g)) = Inr s" "g1 = g\<lparr>mg_out := mg_out g @ [s], mg_info := ss_info s\<rparr>"
    by (rule mg_session_Inr [OF assms(1)])
  then have dd: "d' = d" by simp
  note d = d'(2,3,5) [unfolded dd] sess_out_key [OF d'(4) [unfolded dd] assms(2)]
  have b: "\<not> mg_blacklisted (dest_key d) g1" using d(1) by (simp add: d(3) mg_blacklisted_def)
  have "take_session (dest_key d) (ss @ [s]) = Some (s, ss)" if "dest_key d \<notin> ss_remote_key ` set ss" for ss
    using that d(4) by (induction ss) auto
  then have t: "take_session (dest_key d) (mg_out g1) = Some (s, mg_out g)" using d(2,3) by simp
  have l: "ss_remote_key s \<noteq> []" using assms(2) d(4) by (auto simp: dest_ok_def)
  obtain x where x: "Encode Base64 (ss_remote_key s) = Inr x"
    by (cases "enc_loop Base64 0 0 (ss_remote_key s)") (use l in \<open>auto simp: Encode_def Let_def\<close>)
  let ?g2 = "g1\<lparr>mg_out := mg_out g, mg_blacklist := ss_connect_key s # ss_remote_key s # mg_blacklist g1\<rparr>"
  obtain e where "mg_session L E' (Some d) g1 = (?g2, Inl e)"
    by (simp add: mg_session_eq [OF b] t x throw_ex_eq)
  then show ?thesis by (rule that) (simp_all add: d(4))
qed

lemma mg_session_refused:
  assumes "dest_key d \<in> set (mg_blacklist g)"
  shows "mg_session L E (Some d) g =
    (g, throw_ex (Ex ''SessionManager'' ''session'') Runtime_error ''session destination is blacklisted.'')"
  using assms by (simp add: mg_session_def Let_def dest_key_def [symmetric] mg_blacklisted_def)

end
