(* ===== verification/Publish.thy ===== *)
theory Publish
  imports Session
begin

text \<open>
  Router infos that a router can send: they serialize, again and again, into the blocks of the third
  message and of the data phase, and a reader finds their options in what was sent.
\<close>

section \<open>Router infos that can be sent\<close>

text \<open>
  A router info that its router can sign and serialize, again and again, and what does not change
  when it does. The hash of its identity is not among it: the padding of the identity is drawn anew.
\<close>

definition publishable :: "ident_env \<Rightarrow> info \<Rightarrow> bool" where
  "publishable J i \<longleftrightarrow> info_ok i \<and> ri_options_ok (ri_options i) \<and> sign_len_ok (env_sign J)
     \<and> MinInfoLen \<le> info_size i \<and> skind (signing (ri_identity i)) = Kind_EdDSA
     \<and> (\<exists>sk. sk_ptr (sobj (signing (ri_identity i))) = Some sk
          \<and> (\<forall>msg. msg \<noteq> [] \<longrightarrow> (\<exists>sig. sign_detached (env_sign J) msg sk = Some sig)))"

definition published :: "info \<Rightarrow> info \<Rightarrow> bool" where
  "published i i' \<longleftrightarrow> kv (ri_options i') = kv (ri_options i) \<and> info_size i' = info_size i
     \<and> crypto (ri_identity i') = crypto (ri_identity i) \<and> signing (ri_identity i') = signing (ri_identity i)"

lemma published_refl [simp]: "published i i"
  by (simp add: published_def)

lemma published_trans: "published i j \<Longrightarrow> published j k \<Longrightarrow> published i k"
  by (simp add: published_def)

lemma address_written_ok: "address_ok (address_written a) = address_ok a" "address_size (address_written a) = address_size a"
  by (simp_all add: address_ok_def address_written_def mapping_ok_def address_size_def mapping_size_def)

lemma info_serialize_published:
  assumes "publishable J i"
  obtains i' where "info_serialize J r now i = Inr i'" "publishable J i'" "published i i'" "length (ri_buf i') = info_size i"
proof -
  have ok: "info_ok i" "sign_len_ok (env_sign J)" "ident_ok (ri_identity i)"
    using assms by (simp_all add: publishable_def info_ok_def)
  note w = ident_written_ok [OF ok(3), of J r]
  have "info_body J r now i \<noteq> []" by (simp add: info_body_def)
  then have "\<exists>sig. ident_sign J (info_body J r now i) (ident_written J r (ri_identity i)) = Inr sig"
    using assms by (auto simp: ident_sign_def signing_sign_Inr_iff w(5) publishable_def)
  then obtain sig where sig: "ident_sign J (info_body J r now i) (ident_written J r (ri_identity i)) = Inr sig" by blast
  let ?i = "info_written J r now sig i"
  have sz: "info_size ?i = info_size i"
    using ok(1) w by (simp add: info_size_def info_written_def ident_size_def crypto_pubkey_len_def signing_pubkey_len_def
        sig_len_def comp_def address_written_ok mapping_size_def ident_ok_def info_ok_def)
  have "info_ok ?i"
    using ok(1) w(1,2) by (simp add: info_ok_def info_written_def list.pred_map comp_def address_written_ok mapping_ok_def)
  moreover have "ri_options_ok (ri_options ?i)"
    using assms by (simp add: publishable_def ri_options_ok_def info_written_def mapping_ok_def)
  ultimately have "publishable J ?i"
    using assms sz w(5) by (simp add: publishable_def info_written_def)
  moreover have "published i ?i" using sz w(5,6) by (simp add: published_def info_written_def)
  moreover have "length (ri_buf ?i) = info_size i"
    using length_info_body [OF ok(1)] ident_sign_len [OF ok(2) sig] by (simp add: info_written_def)
  ultimately show ?thesis using info_serialize_Inr_iff [OF ok(1,2)] sig that by blast
qed

text \<open>Info blocks of such an info: made, and serialized again.\<close>

definition info_block_of :: "ident_env \<Rightarrow> info \<Rightarrow> info_block \<Rightarrow> bool" where
  "info_block_of J i b \<longleftrightarrow> block_type b = Info \<and> drop_bit 1 (ib_flag b) = 0
     \<and> block_data_size b = word_of_nat (1 + info_size i)
     \<and> (\<exists>i'. ib_info b = Some i' \<and> publishable J i' \<and> published i i')"

lemma ib_serialize_of:
  assumes "info_block_of J i b" "info_size i \<le> MaxLen" "be_ident V = J"
  obtains b' i' where "ib_serialize V b = Inr b'" "info_block_of J i b'" "ib_info b' = Some i'" "ib_flag b' = ib_flag b"
    "publishable J i'" "published i i'" "length (ri_buf i') = info_size i"
    "\<exists>j. publishable J j \<and> published i j \<and> info_serialize J (be_rng V) (be_now_ms V) j = Inr i'"
proof -
  obtain j where j: "ib_info b = Some j" "publishable J j" "published i j" using assms(1) by (auto simp: info_block_of_def)
  obtain i' where i': "info_serialize J (be_rng V) (be_now_ms V) j = Inr i'" "publishable J i'" "published j i'"
    "length (ri_buf i') = info_size j"
    by (rule info_serialize_published [OF j(2), of "be_rng V" "be_now_ms V"])
  have b: "block_type b = Info" "drop_bit 1 (ib_flag b) = 0" "block_data_size b = word_of_nat (1 + info_size j)"
    "MinInfoLen \<le> info_size j" "info_size j \<le> MaxLen" "info_size j = info_size i"
    using assms(1,2) j by (auto simp: info_block_of_def published_def publishable_def)
  have "ib_serialize V b = Inr (b\<lparr>ib_info := Some i', block_buf := frame Info (ib_flag b # ri_buf i')\<rparr>)"
    using i' assms(3) by (intro ib_serialize_eq [OF b(1,2) j(1) b(4,5,3)]) simp_all
  moreover have "published i i'" using j(3) i'(3) by (rule published_trans)
  ultimately show ?thesis
    using b i' j that [of "b\<lparr>ib_info := Some i', block_buf := frame Info (ib_flag b # ri_buf i')\<rparr>" i']
    by (auto simp: info_block_of_def published_def)
qed

lemma ib_of_info_of:
  assumes "publishable J i" "info_size i \<le> MaxLen" "be_ident V = J"
  obtains b where "ib_of_info V (Some i) = Inr b" "info_block_of J i b" "\<exists>i'. ib_info b = Some i' \<and> length (ri_buf i') = info_size i"
proof -
  let ?n = "word_of_nat (FloodFlagLen + info_size i) :: u16"
  let ?b0 = "ib_members (block_of_size Info (word_of_nat (FloodFlagLen + MinInfoLen))) (Some i)"
  let ?b = "?b0\<lparr>block_data_size := ?n, block_buf := sec_resize (HeaderLen + unat ?n) (block_buf ?b0)\<rparr>"
  have "info_block_of J i ?b"
    using assms(1) by (simp add: info_block_of_def ib_members_def block_of_size_def block.defs FloodFlag_def FloodFlagLen_def drop_bit_Suc)
  from ib_serialize_of [OF this assms(2,3)]
  obtain b' i' where "ib_serialize V ?b = Inr b'" "info_block_of J i b'" "ib_info b' = Some i'" "length (ri_buf i') = info_size i"
    by blast
  then show ?thesis by (intro that) (auto simp: ib_of_info_def Let_def)
qed

section \<open>The third message of such an info\<close>

definition conf_of :: "ident_env \<Rightarrow> info \<Rightarrow> nat \<Rightarrow> conf_message \<Rightarrow> bool" where
  "conf_of J i n m \<longleftrightarrow> info_block_of J i (cf_info m) \<and> opt_ok (cf_opt m) \<and> length (block_buf (cf_opt m)) = 15
     \<and> block_type (cf_pad m) = Padding \<and> length (pad_bytes (cf_pad m)) = n \<and> block_data_size (cf_pad m) = word_of_nat n"

text \<open>The bound that the constructor of an initiator's session draws the padding under.\<close>

definition conf_fits :: "info \<Rightarrow> nat \<Rightarrow> bool" where
  "conf_fits i n \<longleftrightarrow> CfMinPaddingSize \<le> n \<and> n + info_size i \<le> CfMaxPaddingSize"

lemma block_sizes_of:
  assumes "conf_of J i n m" "conf_fits i n"
  shows "unat (block_size (cf_info m)) = 4 + info_size i" "block_size (cf_opt m) = 15"
    "unat (block_size (cf_pad m)) = 3 + n" "block_data_size (cf_opt m) = 12"
    "block_data_size (cf_pad m) \<noteq> 0" "info_size i \<le> MaxLen"
    "unat (cf_payload_size m) = info_size i + n + 38" "unat (cf_size m) = info_size i + n + 86"
proof -
  have lim: "n + info_size i \<le> 65015" "32 \<le> n" using assms(2) by (simp_all add: conf_fits_def cf_sizes)
  have u: "unat (word_of_nat x :: u16) = x" if "x \<le> 65535" for x using that by (rule u16_small)
  show i: "unat (block_size (cf_info m)) = 4 + info_size i"
    using assms(1) lim u [of "4 + info_size i"] by (simp add: block_size_def conf_of_def info_block_of_def HeaderLen_def)
  show o: "block_size (cf_opt m) = 15" "block_data_size (cf_opt m) = 12"
    using assms(1) by (simp_all add: block_size_def conf_of_def opt_ok_def HeaderLen_def)
  show p: "unat (block_size (cf_pad m)) = 3 + n"
    using assms(1) lim u [of "3 + n"] by (simp add: block_size_def conf_of_def HeaderLen_def)
  have "unat (block_data_size (cf_pad m)) = n" using assms(1) lim u [of n] by (simp add: conf_of_def)
  then show nz: "block_data_size (cf_pad m) \<noteq> 0" using lim by auto
  show "info_size i \<le> MaxLen" using lim by (simp add: MaxLen_def)
  have on: "block_data_size (cf_opt m) \<noteq> 0" "unat (block_size (cf_opt m)) = 15" by (simp_all add: o)
  have e: "4 + info_size i + 15 + (3 + n) + 16 = info_size i + n + 38" by simp
  have "cf_payload_size m = word_of_nat (info_size i + n + 38)"
    unfolding cf_payload_size_def if_P [OF on(1)] if_P [OF nz] i p on(2) e ..
  then show q: "unat (cf_payload_size m) = info_size i + n + 38" using lim u [of "info_size i + n + 38"] by simp
  show "unat (cf_size m) = info_size i + n + 86"
    using lim u [of "info_size i + n + 86"] by (simp add: cf_size_def q cf_sizes ac_simps)
qed

lemma conf_of_sized:
  assumes "conf_of J i n m" "conf_fits i n" "be_ident (V 0) = J"
  shows "cf_sized V m"
proof -
  obtain j where "ib_info (cf_info m) = Some j" "publishable J j"
    using assms(1) by (auto simp: conf_of_def info_block_of_def)
  then have "info_sized (V 0) (cf_info m)" using assms(3) by (simp add: info_sized_def publishable_def)
  moreover have "unat (block_size (cf_info m)) + n \<le> 65452" "n \<noteq> 0"
    using assms(2) block_sizes_of(1) [OF assms(1,2)] by (simp_all add: conf_fits_def cf_sizes)
  moreover have "length (pad_bytes (cf_pad m)) = n" "length (block_buf (cf_opt m)) = 15" "block_data_size (cf_opt m) = 12"
    "block_data_size (cf_pad m) = word_of_nat n"
    using assms(1) by (simp_all add: conf_of_def opt_ok_def)
  ultimately show ?thesis by (auto simp: cf_sized_def)
qed

lemma cf_serialize_of:
  assumes m: "conf_of J i n m" "conf_fits i n" and V: "\<forall>k. be_ident (V k) = J"
  obtains m' i' where "cf_serialize V m = Inr m'" "conf_of J i n m'" "cf_payload_size m' = cf_payload_size m"
    "ib_info (cf_info m') = Some i'" "ib_flag (cf_info m') = ib_flag (cf_info m)" "publishable J i'" "published i i'"
    "length (ri_buf i') = info_size i"
    "\<exists>j. publishable J j \<and> published i j \<and> info_serialize J (be_rng (V 0)) (be_now_ms (V 0)) j = Inr i'"
proof -
  note sz = block_sizes_of [OF m]
  obtain b i' where b: "ib_serialize (V 0) (cf_info m) = Inr b" "info_block_of J i b" "ib_info b = Some i'"
    "ib_flag b = ib_flag (cf_info m)" "publishable J i'" "published i i'" "length (ri_buf i') = info_size i"
    "\<exists>j. publishable J j \<and> published i j \<and> info_serialize J (be_rng (V 0)) (be_now_ms (V 0)) j = Inr i'"
    by (rule ib_serialize_of [OF _ sz(6) spec [OF V, of 0]]) (use m(1) in \<open>auto simp: conf_of_def\<close>)
  have bs: "length (block_buf b) = 4 + info_size i"
  proof -
    have "info_sized (V 0) (cf_info m)" using conf_of_sized [of J i n m V, OF m] V by (simp add: cf_sized_def)
    from ib_ser_frame [OF b(1) this] b(3,7) show ?thesis by auto
  qed
  have o: "opt_serialize (cf_opt m) = Inr ((cf_opt m)\<lparr>block_buf := frame Options (opt_payload (cf_opt m))\<rparr>)"
    using m(1) by (intro opt_serialize_eq) (simp_all add: conf_of_def)
  have pok: "pad_ok (cf_pad m)" using m by (simp add: conf_of_def pad_ok_def MaxPaddingLen_eq conf_fits_def cf_sizes)
  have n: "length (pad_bytes (cf_pad m)) = n" using m(1) by (simp add: conf_of_def)
  let ?p = "rand_bytes (be_rng (V 2)) n"
  let ?pb = "(cf_pad m)\<lparr>block_data_size := word_of_nat n, pad_bytes := ?p, block_buf := frame Padding ?p\<rparr>"
  have p: "pad_serialize (be_rng (V 2)) (cf_pad m) = Inr ?pb"
    using pad_serialize_eq [OF pok, of "be_rng (V 2)"] by (simp add: Let_def n)
  let ?pl = "sec_resize (unat (cf_payload_size m)) (cf_payload m)"
  let ?O = "frame Options (opt_payload (cf_opt m))" and ?P = "frame Padding ?p"
  have len: "length ?pl = info_size i + n + 38" "length ?O = 15" "length ?P = 3 + n"
    by (simp_all add: sz(7))
  have w: "write_data (block_buf b) (bytes_on ?pl) = Inr (written (block_buf b) ?pl)"
    "write_data ?O (written (block_buf b) ?pl) = Inr (written (block_buf b @ ?O) ?pl)"
    "write_data ?P (written (block_buf b @ ?O) ?pl) = Inr (written ((block_buf b @ ?O) @ ?P) ?pl)"
    using len bs by (simp_all add: bytes_on_written write_data_fits del: length_frame)
  have nz: "block_data_size (cf_opt m) \<noteq> 0" using sz(4) by simp
  let ?m = "m\<lparr>cf_data := sec_resize (unat (cf_size m)) (cf_data m), cf_payload := sbuf (written ((block_buf b @ ?O) @ ?P) ?pl),
      cf_info := b, cf_opt := (cf_opt m)\<lparr>block_buf := ?O\<rparr>, cf_pad := ?pb\<rparr>"
  have "cf_serialize V m = Inr ?m"
    using w nz sz(5) o p by (simp add: cf_serialize_def Let_def b(1))
  moreover have c: "conf_of J i n ?m"
    using m(1) b(2) by (simp add: conf_of_def opt_ok_def opt_ratios_def opt_payload_def)
  moreover have "cf_payload_size ?m = cf_payload_size m"
    using block_sizes_of(7) [OF c m(2)] sz(7) by (simp add: word_unat_eq_iff)
  ultimately show ?thesis by (rule that) (use b in \<open>simp_all\<close>)
qed

lemma cf_of_info_of:
  assumes "publishable J i" "conf_fits i (unat drawn)" "\<forall>k. be_ident (U k) = J" "\<forall>k. be_ident (V k) = J"
  obtains m where "cf_of_info_drawn U V (Some i) drawn = Inr m" "conf_of J i (unat drawn) m"
proof -
  let ?n = "unat drawn"
  have lim: "?n + info_size i \<le> 65015" using assms(2) by (simp add: conf_fits_def cf_sizes)
  have u2: "(ucast drawn :: u16) = word_of_nat ?n" by (simp only: of_nat_unat)
  have u: "unat (ucast drawn :: u16) = ?n" unfolding u2 using lim by (intro u16_small) simp
  obtain b where b: "ib_of_info (U 0) (Some i) = Inr b" "info_block_of J i b"
    by (rule ib_of_info_of [OF assms(1) _ spec [OF assms(3)]]) (use lim in \<open>auto simp: MaxLen_def\<close>)
  obtain o' where o': "opt_default = Inr o'" "opt_ok o'" "length (block_buf o') = 15" using opt_default_eq by blast
  let ?p0 = "pad_members (block_of_size Padding (ucast drawn)) (sec_of_size ?n)"
  have "pad_ok ?p0" using lim by (simp add: pad_ok_def pad_members_def block.defs block_of_size_def MaxPaddingLen_eq)
  from pad_serialize_eq [OF this, of "be_rng (U 2)"]
  obtain p where p: "pad_of_size (be_rng (U 2)) (ucast drawn) = Inr p" "block_type p = Padding"
    "length (pad_bytes p) = ?n" "block_data_size p = word_of_nat ?n"
    by (auto simp: pad_of_size_def Let_def pad_members_def block.defs block_of_size_def u(1))
  let ?m = "\<lparr>cf_data = [], cf_payload = [], cf_info = b, cf_opt = o', cf_pad = p\<rparr>"
  have "conf_of J i ?n ?m" using b(2) o'(2,3) p(2-4) by (simp add: conf_of_def)
  obtain m' where "cf_serialize V ?m = Inr m'" "conf_of J i ?n m'"
    by (rule cf_serialize_of [OF \<open>conf_of J i ?n ?m\<close> assms(2,4)]) blast
  then show ?thesis by (intro that) (simp_all add: cf_of_info_drawn_def cf_of_info_def b(1) o'(1) p(1))
qed

section \<open>What a reader finds\<close>

lemma decoded_option_kv: "kv (ri_options i) = kv (ri_options j) \<Longrightarrow> decoded_option k i = decoded_option k j"
  by (simp add: decoded_option_def mapping_entry_at_def)

text \<open>What a reader whose default identity has the types of the sender's reads from the payload.\<close>

definition reads_infos :: "ident_env \<Rightarrow> info \<Rightarrow> (nat \<Rightarrow> block_env) \<Rightarrow> bool" where
  "reads_infos J i V \<longleftrightarrow> (\<forall>k. be_ident (V k) = J \<and> (\<exists>f. be_fresh (V k) = Inr f \<and> info_fresh (ri_identity i) (info_members f)))"

lemma published_fresh: "published i j \<Longrightarrow> info_fresh (ri_identity j) d = info_fresh (ri_identity i) d"
  by (simp add: published_def info_fresh_def)

lemma published_readable:
  assumes j: "publishable J j" "published i j" "info_size i \<le> MaxLen" "info_serialize J r now j = Inr i'"
    and V: "be_ident V = J" "be_fresh V = Inr f" "info_fresh (ri_identity i) (info_members f)"
  shows "info_readable V (ri_buf i')"
    and "\<exists>d. info_of_buffer J (be_r1 V) (be_r2 V) f (ri_buf i') = Inr d \<and> kv (ri_options d) = kv (ri_options i)"
proof -
  have ok: "info_ok j" "ri_options_ok (ri_options j)" "sign_len_ok (env_sign J)" "MinInfoLen \<le> info_size j" "info_size j = info_size i"
    "info_size j \<le> MaxLen"
    using j by (simp_all add: publishable_def published_def)
  have V': "info_fresh (ri_identity j) (info_members f)" using V(3) by (simp add: published_fresh [OF j(2)])
  obtain i2 where "info_serialize J r now j = Inr i2" "published j i2"
    by (rule info_serialize_published [OF j(1), of r now]) blast
  then have k: "kv (ri_options i') = kv (ri_options i)" using j(2,4) by (simp add: published_def)
  note w = info_written_readable [OF ok(1-3) j(4) ok(4,6) V(2) V' V(1)]
  show "info_readable V (ri_buf i')" by (rule w(1))
  show "\<exists>d. info_of_buffer J (be_r1 V) (be_r2 V) f (ri_buf i') = Inr d \<and> kv (ri_options d) = kv (ri_options i)"
    using w(2) k by (auto simp: info_view_def)
qed

lemma published_ib:
  assumes j: "publishable J j" "published i j" "info_size i \<le> MaxLen" "info_serialize J r now j = Inr i'"
    and V: "be_ident V = J" "be_fresh V = Inr f" "info_fresh (ri_identity i) (info_members f)"
    and b: "block_buf b = frame Info (fl # ri_buf i')" "drop_bit 1 fl = 0" "ib_deserialize V b = Inr b'"
  shows "\<exists>d. ib_info b' = Some d \<and> kv (ri_options d) = kv (ri_options i)"
proof -
  note w = published_readable [OF j V]
  obtain d where d: "info_of_buffer J (be_r1 V) (be_r2 V) f (ri_buf i') = Inr d" "kv (ri_options d) = kv (ri_options i)"
    using w(2) by blast
  have "MinInfoLen \<le> length (ri_buf i')" "length (ri_buf i') \<le> MaxLen" "info_size d = length (ri_buf i')"
    using w(1) V d(1) by (simp_all add: info_readable_def)
  then have "ib_deserialize V b = Inr (b\<lparr>block_type := Info, block_data_size := word_of_nat (1 + length (ri_buf i')),
     ib_flag := fl, ib_info := Some d\<rparr>)"
    using d(1) V by (intro ib_deserialize_frame [OF b(1,2) V(2)]) simp_all
  then show ?thesis using d(2) b(3) by auto
qed

lemma cf_frames_read:
  assumes m: "conf_of J i n m" "conf_fits i n" "ib_info (cf_info m) = Some i'"
    and j: "publishable J j" "published i j" "info_serialize J r now j = Inr i'" and W: "reads_infos J i W"
    and pl: "cf_payload x = cf_frames m"
  obtains y d where "cf_deserialize W x = Inr y" "ib_info (cf_info y) = Some d" "kv (ri_options d) = kv (ri_options i)"
proof -
  obtain f where f: "be_ident (W 0) = J" "be_fresh (W 0) = Inr f" "info_fresh (ri_identity i) (info_members f)"
    using W by (auto simp: reads_infos_def)
  have big: "info_size i \<le> MaxLen" by (rule block_sizes_of(6) [OF m(1,2)])
  have n: "length (pad_bytes (cf_pad m)) = n" "32 \<le> n" "n \<le> 65015"
    using m(1,2) by (simp_all add: conf_of_def conf_fits_def cf_sizes)
  let ?fl = "ib_flag (cf_info m)" and ?p = "pad_bytes (cf_pad m)"
  have pl': "cf_payload x = val_frame (InfoV ?fl (ri_buf i')) @ frame Options (opt_payload (cf_opt m)) @ frame Padding ?p"
    by (simp add: pl cf_frames_def info_val_def m(3))
  have fl: "drop_bit 1 ?fl = 0" using m(1) by (simp add: conf_of_def info_block_of_def)
  have pn: "?p \<noteq> []" "length ?p \<le> MaxPaddingLen" "16 \<le> length ?p" using n by (auto simp: MaxPaddingLen_eq)
  note rd = published_readable(1) [OF j(1,2) big j(3) f]
  obtain ib ob where b: "ib_deserialize (W 0) ((cf_info x)\<lparr>block_buf := frame Info (?fl # ri_buf i')\<rparr>) = Inr ib"
    "cf_deserialize W x = Inr (x\<lparr>cf_info := ib, cf_opt := ob,
         cf_pad := (cf_pad x)\<lparr>block_buf := frame Padding ?p, block_type := Padding,
           block_data_size := word_of_nat (length ?p), pad_bytes := ?p\<rparr>\<rparr>)"
    using pn(3)
    by (auto intro: cf_deserialize_frames [of x ?fl "ri_buf i'" "cf_opt m" ?p W, OF pl' fl rd pn(1,2)])
  have "\<exists>d. ib_info ib = Some d \<and> kv (ri_options d) = kv (ri_options i)"
    by (rule published_ib [OF j(1,2) big j(3) f _ fl b(1)]) simp
  then show ?thesis using that [OF b(2)] by auto
qed

section \<open>The infos in the blocks that were read\<close>

definition info_read_by :: "(nat \<Rightarrow> block_env) \<Rightarrow> data_variant \<Rightarrow> bool" where
  "info_read_by V x \<longleftrightarrow> (case x of DInfo b \<Rightarrow> block_type b = Info \<and> (case ib_info b of None \<Rightarrow> True
     | Some d \<Rightarrow> \<exists>k f. be_fresh (V k) = Inr f
         \<and> info_of_buffer (be_ident (V k)) (be_r1 (V k)) (be_r2 (V k)) f (ri_buf d) = Inr d) | _ \<Rightarrow> True)"

lemma ib_deserialize_info:
  assumes "ib_deserialize V b = Inr b'"
  shows "block_type b' = Info \<and> (\<exists>d f. ib_info b' = Some d \<and> be_fresh V = Inr f \<and> info_of_buffer (be_ident V) (be_r1 V) (be_r2 V) f (ri_buf d) = Inr d)"
proof -
  obtain bs d f where d: "block_type b' = Info" "ib_info b' = Some d" "be_fresh V = Inr f" "info_of_buffer (be_ident V) (be_r1 V) (be_r2 V) f bs = Inr d"
    using assms by (auto simp: ib_deserialize_def result_simps Let_def ib_check_Inr split: if_splits)
  then show ?thesis using info_of_buffer_buf [OF d(4)] by auto
qed

lemma ReadToBlock_info:
  assumes "ReadToBlock (TypeToBlock_data (V k)) set_data_buffer (data_deserialize (V k)) r (DDateTime b0) ex = Inr (x, r')"
  shows "info_read_by V x"
proof -
  have "\<exists>t y buf. TypeToBlock_data (V k) t ex (DDateTime b0) = Inr y
      \<and> (data_deserialize (V k) (set_data_buffer buf y) = Inr x \<or> x = set_data_buffer buf y)"
    using assms unfolding ReadToBlock_def Let_def by (auto simp: result_simps split: if_splits)
  then obtain t y buf where x: "TypeToBlock_data (V k) t ex (DDateTime b0) = Inr y"
    "data_deserialize (V k) (set_data_buffer buf y) = Inr x \<or> x = set_data_buffer buf y" by blast
  have y: "info_read_by V (set_data_buffer buf y)"
    using x(1) by (auto simp: TypeToBlock_data_def mapr_Inr_iff result_simps info_read_by_def ib_copy_def ib_default_def
        ib_members_def block.defs block_of_size_def split: if_splits)
  show ?thesis
  proof (cases "x = set_data_buffer buf y")
    case False
    then have d: "data_deserialize (V k) (set_data_buffer buf y) = Inr x" using x(2) by blast
    show ?thesis
    proof (cases y)
      case (DInfo b)
      then obtain b' where b': "x = DInfo b'" "ib_deserialize (V k) (b\<lparr>block_buf := buf\<rparr>) = Inr b'"
        using d by (auto simp: mapr_Inr_iff)
      obtain d f where d: "block_type b' = Info" "ib_info b' = Some d" "be_fresh (V k) = Inr f"
        "info_of_buffer (be_ident (V k)) (be_r1 (V k)) (be_r2 (V k)) f (ri_buf d) = Inr d"
        using ib_deserialize_info [OF b'(2)] by blast
      then show ?thesis unfolding b'(1) info_read_by_def data_variant.case d(2) option.case by blast
    qed (use d in \<open>auto simp: mapr_Inr_iff info_read_by_def\<close>)
  qed (use y in simp)
qed

lemma copy_info_read: "copy_data x = Inr y \<Longrightarrow> info_read_by V x \<Longrightarrow> info_read_by V y"
  by (cases x) (auto simp: mapr_Inr_iff info_read_by_def ib_copy_def ib_members_def block.defs block_of_size_def)

lemma read_blocks_infos:
  "read_blocks V bs r = Inr bs' \<Longrightarrow> list_all (info_read_by V) bs \<Longrightarrow> list_all (info_read_by V) bs'"
proof (induction V bs r rule: read_blocks.induct)
  case (1 V bs r)
  show ?case
  proof (cases "gcount r \<le> 16")
    case True
    then show ?thesis using "1.prems" by (simp add: read_blocks.simps [of V bs r])
  next
    case False
    obtain b0 where b0: "dt_default (be_now (V (length bs))) = Inr b0" using dt_default_eq by blast
    let ?R = "ReadToBlock (TypeToBlock_data (V (length bs))) set_data_buffer (data_deserialize (V (length bs))) r
      (DDateTime b0) (Ex ''DataPhase'' ''deserialize'')"
    obtain b r' where rd: "?R = Inr (b, r')"
      using "1.prems"(1) False b0 by (cases ?R) (auto simp: read_blocks.simps [of V bs r] Let_def)
    obtain bs1 u where ad: "AddBlock copy_data CheckBlockOrder_data bs b (Ex ''DataPhase'' ''deserialize'') = (bs1, Inr u)"
      and rec: "read_blocks V bs1 r' = Inr bs'"
      using "1.prems"(1) False b0 rd
      by (auto simp: read_blocks.simps [of V bs r] Let_def split: prod.splits sum.splits)
    have "list_all (info_read_by V) bs1"
      using ad "1.prems"(2) copy_info_read [OF _ ReadToBlock_info [of V "length bs" r b0 _ b r', OF rd]] by (auto simp: AddBlock_def split: sum.splits)
    then show ?thesis
      using "1.IH" [OF refl refl False b0 rd refl ad [symmetric] refl rec] by simp
  qed
qed

lemma dp_Read_infos:
  assumes "dp_Read L P V rl deobfs m k = Inr (m', k')" "list_all (info_read_by V) (dm_blocks m)"
  shows "list_all (info_read_by V) (dm_blocks m')"
proof -
  have "dm_deserialize V x = Inr m' \<Longrightarrow> list_all (info_read_by V) (dm_blocks m')" for x
    using read_blocks_infos [of V "[]"] by (auto simp: dm_deserialize_def result_simps)
  then show ?thesis
    using assms by (auto simp: dp_Read_def Let_def result_simps split: if_splits)
qed

section \<open>The third message\<close>

lemma confirmed_write_read:
  assumes hs: "hs_message L 64 R s t"
    and c: "conf_of J i n m" "conf_fits i n" "\<forall>k. be_ident (V k) = J" "so_m3p2_len opts = cf_payload_size m"
  obtains m' s' t' where "sco_Write L V opts m s = Inr (m', s')" "R s' t'"
    "length (cf_data m') = PartOneSize + unat (so_m3p2_len opts)"
    "\<And>W r. reads_infos J i W \<Longrightarrow>
       \<exists>y d. sco_Read L W opts (r\<lparr>cf_data := cf_data m'\<rparr>) t = Inr (y, t')
         \<and> ib_info (cf_info y) = Some d \<and> kv (ri_options d) = kv (ri_options i)"
proof -
  obtain m0 i' where m0: "cf_serialize V m = Inr m0" "conf_of J i n m0" "ib_info (cf_info m0) = Some i'"
    "\<exists>j. publishable J j \<and> published i j \<and> info_serialize J (be_rng (V 0)) (be_now_ms (V 0)) j = Inr i'"
    by (rule cf_serialize_of [OF c(1-3)]) blast
  obtain j where j: "publishable J j" "published i j" "info_serialize J (be_rng (V 0)) (be_now_ms (V 0)) j = Inr i'"
    using m0(4) by blast
  have len: "MinMsg3Pt2Size \<le> unat (so_m3p2_len opts)" "unat (so_m3p2_len opts) \<le> MaxMsg3Pt2Size"
    using block_sizes_of(7) [OF c(1,2)] c(2) j(1,2)
    by (auto simp: c(4) conf_fits_def cf_sizes sr_sizes publishable_def published_def MinInfoLen_def)
  obtain buf s' t' where w: "sco_Write L V opts m s = Inr (m0\<lparr>cf_data := buf\<rparr>, s')" "R s' t'"
    "length buf = PartOneSize + unat (so_m3p2_len opts)"
    "\<And>W r. sco_Read L W opts (r\<lparr>cf_data := buf\<rparr>) t =
       bindr (cf_deserialize W (r\<lparr>cf_data := buf, cf_payload := cf_frames m0\<rparr>)) (\<lambda>m. Inr (m, t'))"
    by (rule sco_write_read [OF hs m0(1) conf_of_sized [OF c(1,2) spec [OF c(3)]] c(4) len]) blast
  have rd: "\<exists>y d. sco_Read L W opts (r\<lparr>cf_data := buf\<rparr>) t = Inr (y, t')
         \<and> ib_info (cf_info y) = Some d \<and> kv (ri_options d) = kv (ri_options i)" if W: "reads_infos J i W" for W r
  proof -
    obtain y d where "cf_deserialize W (r\<lparr>cf_data := buf, cf_payload := cf_frames m0\<rparr>) = Inr y" "ib_info (cf_info y) = Some d"
      "kv (ri_options d) = kv (ri_options i)"
      by (rule cf_frames_read [OF m0(2) c(2) m0(3) j W, of "r\<lparr>cf_data := buf, cf_payload := cf_frames m0\<rparr>"]) auto
    then show ?thesis by (auto simp: w(4))
  qed
  show ?thesis by (rule that [OF w(1,2)]) (use w(3) rd in simp_all)
qed

end
