(* ===== verification/Schedule.thy ===== *)
theory Schedule
  imports Main
begin

text \<open>
  Processes that take turns. \<open>step r x\<close> is what process \<open>r\<close> makes of the state, \<open>None\<close> when it has
  to wait; a schedule says whose turn it is, and a turn of a process that waits changes nothing. Where
  the steps of different processes commute, the order of the turns does not matter: when one order
  comes to a state in which every process waits, then every fair schedule comes to that state.
\<close>

definition taken :: "('r \<Rightarrow> 'x \<Rightarrow> 'x option) \<Rightarrow> 'r \<Rightarrow> 'x \<Rightarrow> 'x" where
  "taken step r x = (case step r x of None \<Rightarrow> x | Some y \<Rightarrow> y)"

definition schedule :: "('r \<Rightarrow> 'x \<Rightarrow> 'x option) \<Rightarrow> 'r list \<Rightarrow> 'x \<Rightarrow> 'x" where
  "schedule step rs = fold (taken step) rs"

definition fair :: "(nat \<Rightarrow> 'r) \<Rightarrow> bool" where
  "fair \<sigma> \<longleftrightarrow> (\<forall>r n. \<exists>k\<ge>n. \<sigma> k = r)"

text \<open>\<open>settles step k x m\<close>: after \<open>k\<close> steps in some order every process waits, in the state \<open>m\<close>.\<close>

inductive settles :: "('r \<Rightarrow> 'x \<Rightarrow> 'x option) \<Rightarrow> nat \<Rightarrow> 'x \<Rightarrow> 'x \<Rightarrow> bool" for step where
  settled: "(\<And>r. step r x = None) \<Longrightarrow> settles step 0 x x"
| stepped: "step r x = Some y \<Longrightarrow> settles step k y m \<Longrightarrow> settles step (Suc k) x m"

inductive_cases settlesE: "settles step k x m"

lemma schedule_simps [simp]:
  "schedule step [] x = x" "schedule step (r # rs) x = schedule step rs (taken step r x)"
  "schedule step (rs @ qs) x = schedule step qs (schedule step rs x)"
  by (simp_all add: schedule_def)

lemma taken_eq [simp]: "step r x = None \<Longrightarrow> taken step r x = x" "step r x = Some y \<Longrightarrow> taken step r x = y"
  by (simp_all add: taken_def)

lemma schedule_idle: "(\<And>r. step r x = None) \<Longrightarrow> schedule step rs x = x"
  by (induction rs) simp_all

lemma settles_idle: "settles step k x m \<Longrightarrow> step r m = None"
  by (induction rule: settles.induct) simp_all

lemma fair_later: "fair \<sigma> \<Longrightarrow> fair (\<lambda>i. \<sigma> (i + n))"
  unfolding fair_def by (metis le_add_diff_inverse2 add_le_cancel_right le_add2 order_trans)

locale commuting_steps =
  fixes step :: "'r \<Rightarrow> 'x \<Rightarrow> 'x option"
  assumes commute: "r \<noteq> q \<Longrightarrow> step r x = Some y \<Longrightarrow> step q x = Some z \<Longrightarrow> \<exists>w. step q y = Some w \<and> step r z = Some w"
begin

lemma strip:
  "settles step k x m \<Longrightarrow> step r x = Some y \<Longrightarrow> \<exists>j. k = Suc j \<and> settles step j y m"
proof (induction arbitrary: y rule: settles.induct)
  case (stepped q x z k m)
  show ?case
  proof (cases "q = r")
    case False
    then obtain w where w: "step r z = Some w" "step q y = Some w" using commute [OF False] stepped by metis
    then obtain j where "k = Suc j" "settles step j w m" using stepped.IH by blast
    then show ?thesis by (auto intro: settles.stepped w(2))
  qed (use stepped in simp)
qed simp

lemma taken_settles:
  assumes "settles step k x m"
  obtains j where "settles step j (taken step r x) m" "j \<le> k" "step r x \<noteq> None \<Longrightarrow> j < k"
proof (cases "step r x")
  case None
  then show ?thesis using assms that by simp
next
  case (Some y)
  then obtain j where "k = Suc j" "settles step j y m" using strip [OF assms] by blast
  then show ?thesis using Some that by simp
qed

lemma schedule_settles:
  assumes "settles step k x m"
  shows "\<exists>j\<le>k. settles step j (schedule step rs x) m"
  using assms
proof (induction rs arbitrary: k x)
  case (Cons r rs)
  obtain j where j: "settles step j (taken step r x) m" "j \<le> k" by (rule taken_settles [OF Cons.prems])
  then obtain i where "i \<le> j" "settles step i (schedule step rs (taken step r x)) m" using Cons.IH by blast
  then show ?case using j(2) by (intro exI [of _ i]) simp
qed auto

lemma ready_stays: "step r x \<noteq> None \<Longrightarrow> r \<noteq> q \<Longrightarrow> step r (taken step q x) \<noteq> None"
  using commute by (cases "step q x") fastforce+

text \<open>A turn of every process that can take a step brings the run closer to its end.\<close>

lemma schedule_progress:
  assumes "settles step k x m" "step r x \<noteq> None" "r \<in> set rs"
  shows "\<exists>j<k. settles step j (schedule step rs x) m"
  using assms
proof (induction rs arbitrary: k x)
  case (Cons q rs)
  obtain j where j: "settles step j (taken step q x) m" "j \<le> k" "step q x \<noteq> None \<Longrightarrow> j < k"
    using taken_settles [OF Cons.prems(1), of q] by blast
  show ?case
  proof (cases "q = r")
    case True
    then have "j < k" using j(3) Cons.prems(2) by simp
    moreover obtain i where "i \<le> j" "settles step i (schedule step rs (taken step q x)) m"
      using schedule_settles [OF j(1)] by blast
    ultimately show ?thesis by (intro exI [of _ i]) simp
  next
    case False
    then obtain i where "i < j" "settles step i (schedule step rs (taken step q x)) m"
      using Cons.IH [OF j(1) ready_stays] Cons.prems by auto
    then show ?thesis using j(2) by (intro exI [of _ i]) simp
  qed
qed simp

theorem fair_settles:
  assumes "settles step k x m" "fair \<sigma>"
  shows "\<exists>N. \<forall>n\<ge>N. schedule step (map \<sigma> [0..<n]) x = m"
  using assms
proof (induction k arbitrary: x \<sigma> rule: less_induct)
  case (less k)
  show ?case
  proof (cases "\<exists>r. step r x \<noteq> None")
    case False
    then have "x = m" using less.prems(1) by (auto elim: settlesE)
    then show ?thesis using False schedule_idle [of step x] by simp
  next
    case True
    then obtain r where "step r x \<noteq> None" by blast
    moreover then obtain p where "\<sigma> p = r" using less.prems(2) unfolding fair_def by blast
    ultimately obtain r p where r: "step r x \<noteq> None" "\<sigma> p = r" by blast
    let ?y = "schedule step (map \<sigma> [0..<Suc p]) x"
    obtain j where j: "j < k" "settles step j ?y m"
      using schedule_progress [OF less.prems(1) r(1), of "map \<sigma> [0..<Suc p]"] r(2) by auto
    obtain N where N: "\<forall>n\<ge>N. schedule step (map (\<lambda>i. \<sigma> (i + Suc p)) [0..<n]) ?y = m"
      using less.IH [OF j fair_later [OF less.prems(2)]] by blast
    have "schedule step (map \<sigma> [0..<n]) x = m" if "N + Suc p \<le> n" for n
    proof -
      have "[0..<n] = [0..<Suc p] @ map (\<lambda>i. i + Suc p) [0..<n - Suc p]"
        using that upt_add_eq_append [of 0 "Suc p" "n - Suc p"] map_add_upt [of "Suc p" "n - Suc p"] by simp
      then have "map \<sigma> [0..<n] = map \<sigma> [0..<Suc p] @ map (\<lambda>i. \<sigma> (i + Suc p)) [0..<n - Suc p]"
        by (simp add: comp_def)
      then show ?thesis using N that by simp
    qed
    then show ?thesis by blast
  qed
qed

end

end
