(* ===== verification/Connection.thy ===== *)
theory Connection
  imports Publish Schedule
begin

text \<open>
  Two sessions connected by a network that delivers what is sent. The first section models the
  connection, the others what each side does with the four messages of the handshake: the side that
  writes a message, and the side that reads it.
\<close>

section \<open>The connection\<close>

text \<open>
  What an outstanding operation transfers: the calls of \<open>async_connect\<close>, \<open>async_wait\<close>,
  \<open>async_write\<close> and \<open>async_read\<close> in the source. The buffers are in place (\<open>needs_met\<close>).
\<close>

datatype transfer = Connects | Readable | Sends "byte list" | Receives nat

definition of_msg :: "'a option \<Rightarrow> ('a \<Rightarrow> byte list) \<Rightarrow> byte list" where
  "of_msg p f = (case p of None \<Rightarrow> [] | Some m \<Rightarrow> f m)"

fun op_transfer :: "pending \<Rightarrow> ('s, 'c) session \<Rightarrow> transfer" where
  "op_transfer Connecting s = Connects"
| "op_transfer WaitRequest s = Readable"
| "op_transfer WaitCreated s = Readable"
| "op_transfer WaitConfirmed s = Readable"
| "op_transfer WaitData s = Readable"
| "op_transfer WriteRequest s = Sends (of_msg (ss_srq s) sr_data)"
| "op_transfer WriteCreated s = Sends (of_msg (ss_scr s) sc_data)"
| "op_transfer WriteConfirmed s = Sends (of_msg (ss_sco s) cf_data)"
| "op_transfer WriteData s = Sends (of_msg (ss_dp_msg s) dm_buf)"
| "op_transfer ReadRequest s = Receives (length (of_msg (ss_srq s) sr_data))"
| "op_transfer ReadRequestPadding s = Receives (length (of_msg (ss_srq s) sr_padding))"
| "op_transfer ReadCreated s = Receives NoisePayloadSize"
| "op_transfer ReadCreatedPadding s = Receives (length (of_msg (ss_scr s) sc_padding))"
| "op_transfer ReadConfirmed s = Receives (length (of_msg (ss_sco s) cf_data))"
| "op_transfer ReadDataLength s = Receives SizeLen"
| "op_transfer (ReadData len) s = Receives (unat len)"

text \<open>
  What completes an operation: what is left of the bytes sent to the side, the bytes that it sends,
  and those that its handler gets. There is nothing while what it waits for is not there.
\<close>

definition side_input :: "byte list \<Rightarrow> ('s, 'c) session \<Rightarrow> (byte list \<times> byte list \<times> byte list) option" where
  "side_input inb s =
     (case ss_waiting s of
        None \<Rightarrow> None
      | Some w \<Rightarrow>
          (case op_transfer w s of
             Connects \<Rightarrow> Some (inb, [], [])
           | Readable \<Rightarrow> if inb = [] then None else Some (inb, [], [])
           | Sends out \<Rightarrow> Some (inb, out, [])
           | Receives n \<Rightarrow> if length inb < n then None else Some (drop n inb, [], take n inb)))"

definition side_step ::
  "('s, 'c) sess_lib \<Rightarrow> sess_env \<Rightarrow> byte list \<Rightarrow> ('s, 'c) session \<Rightarrow> (byte list \<times> byte list \<times> ('s, 'c) session) option" where
  "side_step L E inb s =
     map_option (\<lambda>(inb, out, bytes). (inb, out, sess_run L E None bytes s)) (side_input inb s)"

lemmas side_defs = side_step_def side_input_def

record ('s, 'c) link =
  lk_alice :: "('s, 'c) session"
  lk_bob :: "('s, 'c) session"
  lk_ab :: "byte list"
  lk_ba :: "byte list"

fun link_step :: "('s, 'c) sess_lib \<Rightarrow> role \<Rightarrow> sess_env \<Rightarrow> ('s, 'c) link \<Rightarrow> ('s, 'c) link option" where
  "link_step L Initiator E l =
     (case side_step L E (lk_ba l) (lk_alice l) of
        None \<Rightarrow> None
      | Some (inb, out, s) \<Rightarrow> Some (l\<lparr>lk_alice := s, lk_ba := inb, lk_ab := lk_ab l @ out\<rparr>))"
| "link_step L Responder E l =
     (case side_step L E (lk_ab l) (lk_bob l) of
        None \<Rightarrow> None
      | Some (inb, out, s) \<Rightarrow> Some (l\<lparr>lk_bob := s, lk_ab := inb, lk_ba := lk_ba l @ out\<rparr>))"

text \<open>
  Turns in a given order. A turn of a side that has to wait changes nothing (\<open>link_turns\<close>); in
  \<open>link_steps\<close> every turn is a step.
\<close>

fun link_turns :: "('s, 'c) sess_lib \<Rightarrow> (role \<times> sess_env) list \<Rightarrow> ('s, 'c) link \<Rightarrow> ('s, 'c) link" where
  "link_turns L [] l = l"
| "link_turns L ((r, E) # ts) l = link_turns L ts (case link_step L r E l of None \<Rightarrow> l | Some l' \<Rightarrow> l')"

fun link_steps :: "('s, 'c) sess_lib \<Rightarrow> (role \<times> sess_env) list \<Rightarrow> ('s, 'c) link \<Rightarrow> ('s, 'c) link option" where
  "link_steps L [] l = Some l"
| "link_steps L ((r, E) # ts) l = (case link_step L r E l of None \<Rightarrow> None | Some l' \<Rightarrow> link_steps L ts l')"

lemma link_steps_append:
  "link_steps L (ts @ us) l = (case link_steps L ts l of None \<Rightarrow> None | Some m \<Rightarrow> link_steps L us m)"
  by (induction L ts l rule: link_steps.induct) (auto split: option.split)

lemma link_steps_join:
  "link_steps L ts l = Some m \<Longrightarrow> link_steps L us m = Some n \<Longrightarrow> link_steps L (ts @ us) l = Some n"
  by (simp only: link_steps_append option.case)

lemma link_steps_turns: "link_steps L ts l = Some m \<Longrightarrow> link_turns L ts l = m"
  by (induction L ts l rule: link_steps.induct) (auto split: option.splits)

section \<open>Any order of the turns\<close>

text \<open>
  The state of a schedule: how many operations of either side have completed, and the connection.
  The environments of a side's completions are counted by side, whatever the other side does.
  A step of one side neither stops the other one nor changes what it does, because the bytes that
  arrive for it are appended to those it has.
\<close>

fun sched_step ::
  "('s, 'c) sess_lib \<Rightarrow> (nat \<Rightarrow> sess_env) \<Rightarrow> (nat \<Rightarrow> sess_env) \<Rightarrow> role
     \<Rightarrow> nat \<times> nat \<times> ('s, 'c) link \<Rightarrow> (nat \<times> nat \<times> ('s, 'c) link) option" where
  "sched_step L A B Initiator (i, j, l) = map_option (\<lambda>l. (Suc i, j, l)) (link_step L Initiator (A i) l)"
| "sched_step L A B Responder (i, j, l) = map_option (\<lambda>l. (i, Suc j, l)) (link_step L Responder (B j) l)"

lemma side_step_append:
  "side_step L E inb s = Some (inb', out, s') \<Longrightarrow> side_step L E (inb @ x) s = Some (inb' @ x, out, s')"
  by (auto simp: side_defs split: option.splits transfer.splits if_splits)

lemma link_step_commute:
  assumes "link_step L Initiator E l = Some m" "link_step L Responder F l = Some n"
  shows "\<exists>k. link_step L Responder F m = Some k \<and> link_step L Initiator E n = Some k"
proof -
  obtain i o' s where a: "side_step L E (lk_ba l) (lk_alice l) = Some (i, o', s)" "m = l\<lparr>lk_alice := s, lk_ba := i, lk_ab := lk_ab l @ o'\<rparr>"
    using assms(1) by (auto split: option.splits)
  obtain j p t where b: "side_step L F (lk_ab l) (lk_bob l) = Some (j, p, t)" "n = l\<lparr>lk_bob := t, lk_ab := j, lk_ba := lk_ba l @ p\<rparr>"
    using assms(2) by (auto split: option.splits)
  show ?thesis by (simp add: a(2) b(2) side_step_append [OF a(1)] side_step_append [OF b(1)])
qed

interpretation link_sides: commuting_steps "sched_step L A B" for L A B
proof
  fix r q :: role and x y z assume h: "r \<noteq> q" "sched_step L A B r x = Some y" "sched_step L A B q x = Some z"
  obtain i j l where x: "x = (i, j, l)" by (rule prod_cases3)
  have c: "\<exists>k. link_step L Responder (B j) m = Some k \<and> link_step L Initiator (A i) n = Some k"
    if "link_step L Initiator (A i) l = Some m" "link_step L Responder (B j) l = Some n" for m n
    by (rule link_step_commute [OF that])
  consider "r = Initiator" "q = Responder" | "r = Responder" "q = Initiator" using h(1) by (cases r; cases q) simp_all
  then show "\<exists>w. sched_step L A B q y = Some w \<and> sched_step L A B r z = Some w"
  proof cases
    case 1
    obtain m n where "link_step L Initiator (A i) l = Some m" "y = (Suc i, j, m)" "link_step L Responder (B j) l = Some n" "z = (i, Suc j, n)"
      using h(2,3) by (auto simp: x 1 simp del: link_step.simps)
    then show ?thesis using c [of m n] 1 by (auto simp del: link_step.simps)
  next
    case 2
    obtain m n where "link_step L Initiator (A i) l = Some m" "z = (Suc i, j, m)" "link_step L Responder (B j) l = Some n" "y = (i, Suc j, n)"
      using h(2,3) by (auto simp: x 2 simp del: link_step.simps)
    then show ?thesis using c [of m n] 2 by (auto simp del: link_step.simps)
  qed
qed

text \<open>A run whose turns are all steps, as steps of a schedule.\<close>

definition turn_envs :: "role \<Rightarrow> (role \<times> sess_env) list \<Rightarrow> sess_env list" where
  "turn_envs r ts = map snd (filter (\<lambda>t. fst t = r) ts)"

lemma link_steps_settle:
  assumes "link_steps L ts l = Some m"
    and "\<forall>k<length (turn_envs Initiator ts). A (i + k) = turn_envs Initiator ts ! k"
    and "\<forall>k<length (turn_envs Responder ts). B (j + k) = turn_envs Responder ts ! k"
    and "\<And>r E. link_step L r E m = None"
  shows "settles (sched_step L A B) (length ts) (i, j, l)
    (i + length (turn_envs Initiator ts), j + length (turn_envs Responder ts), m)"
  using assms(1-3)
proof (induction ts arbitrary: i j l)
  case Nil
  have "sched_step L A B r (i, j, m) = None" for r by (cases r) (simp_all add: assms(4) del: link_step.simps)
  then show ?case using Nil by (auto simp: turn_envs_def intro: settles.settled)
next
  case (Cons t ts)
  obtain r E where t: "t = (r, E)" by (cases t)
  obtain l' where l': "link_step L r E l = Some l'" "link_steps L ts l' = Some m"
    using Cons.prems(1) by (auto simp: t split: option.splits)
  show ?case
  proof (cases r)
    case Initiator
    then have "A i = E" using Cons.prems(2) by (force simp: turn_envs_def t)
    moreover have "settles (sched_step L A B) (length ts) (Suc i, j, l')
        (Suc i + length (turn_envs Initiator ts), j + length (turn_envs Responder ts), m)"
      by (rule Cons.IH [OF l'(2)]) (use Cons.prems(2,3) Initiator in \<open>force simp: turn_envs_def t\<close>)+
    moreover have "sched_step L A B r (i, j, l) = Some (Suc i, j, l')"
      using l'(1) calculation(1) by (simp add: Initiator del: link_step.simps)
    ultimately show ?thesis
      using settles.stepped [of "sched_step L A B" r "(i, j, l)" "(Suc i, j, l')"] by (simp add: turn_envs_def t Initiator)
  next
    case Responder
    then have "B j = E" using Cons.prems(3) by (force simp: turn_envs_def t)
    moreover have "settles (sched_step L A B) (length ts) (i, Suc j, l')
        (i + length (turn_envs Initiator ts), Suc j + length (turn_envs Responder ts), m)"
      by (rule Cons.IH [OF l'(2)]) (use Cons.prems(2,3) Responder in \<open>force simp: turn_envs_def t\<close>)+
    moreover have "sched_step L A B r (i, j, l) = Some (i, Suc j, l')"
      using l'(1) calculation(1) by (simp add: Responder del: link_step.simps)
    ultimately show ?thesis
      using settles.stepped [of "sched_step L A B" r "(i, j, l)" "(i, Suc j, l')"] by (simp add: turn_envs_def t Responder)
  qed
qed

section \<open>The first message\<close>

lemma handler_run:
  assumes "ss_waiting s = Some w" "sess_handler L E None bytes w (s\<lparr>ss_waiting := None\<rparr>) = Inr s'"
  shows "sess_run L E None bytes s = s'"
  using assms by (simp add: sess_run_def sess_complete_def kept_def Let_def)

lemma check_ec_None [simp]: "check_ec ex None = Inr ()" "check_any_ec ex None = Inr ()"
  by (simp_all add: check_ec_def check_any_ec_def)

lemma sr_of_sizes_sized:
  assumes "sr_of_sizes now r n p = Inr m"
  shows "sr_sized m \<and> so_ok now (sr_options m) \<and> so_m3p2_len (sr_options m) = n \<and> so_pad_len (sr_options m) = p
    \<and> so_timestamp (sr_options m) = now \<and> length (sr_padding m) = unat p"
proof -
  let ?x = "so_blank\<lparr>so_version := ntcp2_version, so_m3p2_len := n, so_pad_len := p, so_timestamp := now\<rparr>"
  have ok: "so_ok now ?x" and ser: "bindr (so_serialize now ?x) (\<lambda>x. Inr (sr_members (NoisePayloadSize + unat p) r p x)) = Inr m"
    using assms by (auto simp: sr_of_sizes_def so_of_sizes_def so_update_def Let_def result_simps so_check_iff)
  have b: "length (so_buffer ?x) = 16" by (simp add: so_blank_def fixed_default_def OptionsSize_def)
  show ?thesis
    using ser ok unfolding so_serialize_eq [OF ok b]
    by (auto simp: sr_members_def sr_sized_def so_ok_def fixed_default_def CiphertextSize_def OptionsSize_def so_blank_def)
qed

lemma sr_of_sizes_Inr:
  assumes "unat p \<le> MaxPaddingSize" "MinMsg3Pt2Size \<le> unat n" "unat n \<le> MaxMsg3Pt2Size"
  obtains m where "sr_of_sizes now r n p = Inr m"
proof -
  let ?x = "so_blank\<lparr>so_version := ntcp2_version, so_m3p2_len := n, so_pad_len := p, so_timestamp := now\<rparr>"
  have ok: "so_ok now ?x" using assms by (simp add: so_ok_def)
  then have c: "so_check_params now ex ?x = Inr ()" for ex by (simp add: so_check_iff)
  have b: "length (so_buffer ?x) = 16" by (simp add: so_blank_def fixed_default_def OptionsSize_def)
  show ?thesis
    by (rule that) (simp add: sr_of_sizes_def so_of_sizes_def so_update_def Let_def c so_serialize_eq [OF ok b])
qed

lemma sr_default_Inr:
  assumes "unat drawn \<le> MaxPaddingSize"
  obtains m where "sr_default now drawn r = Inr m" "sr_sized m" "length (sr_data m) = 64"
proof -
  let ?p = "ucast drawn :: u16" and ?n = "word_of_nat MinMsg3Pt2Size :: u16"
  have p: "?p = word_of_nat (unat drawn)" by (simp only: of_nat_unat)
  have u: "unat ?p \<le> MaxPaddingSize"
    unfolding p using assms u16_small [of "unat drawn"] by (simp add: sr_sizes)
  have n: "unat ?n = MinMsg3Pt2Size" by (rule u16_small) (simp add: sr_sizes)
  let ?x = "so_blank\<lparr>so_m3p2_len := ?n, so_pad_len := ?p, so_version := ntcp2_version, so_timestamp := now\<rparr>"
  have ok: "so_ok now ?x" using u n by (simp add: so_ok_def sr_sizes)
  then have c: "so_check_params now ex ?x = Inr ()" for ex by (simp add: so_check_iff)
  have b: "length (so_buffer ?x) = 16" by (simp add: so_blank_def fixed_default_def OptionsSize_def)
  have "so_default now drawn = Inr (?x\<lparr>so_buffer := so_bytes ?x @ drop 9 (so_buffer ?x)\<rparr>)"
    using so_serialize_eq [OF ok b] c by (simp add: so_default_def so_update_def Let_def)
  then show ?thesis
    by (intro that) (auto simp: sr_default_def sr_members_def sr_sized_def b NoisePayloadSize_def OptionsSize_def
        fixed_default_def CiphertextSize_def so_blank_def)
qed

text \<open>The padding length that an environment draws is one that \<open>RandInRange\<close> can draw.\<close>

definition draws :: "sess_env \<Rightarrow> bool" where
  "draws E \<longleftrightarrow> MinPaddingSize \<le> unat (sn_drawn E) \<and> unat (sn_drawn E) \<le> MaxPaddingSize"

lemma drawn_u16: "unat drawn \<le> MaxPaddingSize \<Longrightarrow> unat (ucast (drawn :: u32) :: u16) = unat drawn"
proof -
  assume d: "unat drawn \<le> MaxPaddingSize"
  have p: "(ucast drawn :: u16) = word_of_nat (unat drawn)" by (simp only: of_nat_unat)
  show ?thesis unfolding p by (rule u16_small) (use d in \<open>simp add: sr_sizes\<close>)
qed

lemma drawsD:
  assumes "draws E"
  shows "MinPaddingSize \<le> unat (sn_drawn E)" "unat (sn_drawn E) \<le> MaxPaddingSize" "unat (ucast (sn_drawn E) :: u16) = unat (sn_drawn E)"
  using assms drawn_u16 by (auto simp: draws_def)

text \<open>
  The initiator connects and writes its request; the responder, whose message \<open>r\<close> is the one its
  constructor makes, reads it.
\<close>

lemma request_written:
  fixes L :: "('s, 'c) sess_lib" and s :: "('s, 'c) session"
  assumes s: "ss_waiting s = Some Connecting" "ss_role s = Initiator" "ss_dest s = Some d" "ss_sco s = Some sco"
    and keys: "set_id_keys L (ri_identity d) (ss_state s) = Inr s1" "srk_Derive_key (sl_noise L) (ss_remote_key s) s1 = Inr sa"
    and lib: "cbc_ok (sl_aes L)" "hs_message (sl_noise L) 48 R sa tb"
    and E: "draws E" "sn_host E = Inr host"
    and sz: "MinMsg3Pt2Size \<le> unat (cf_payload_size sco)" "unat (cf_payload_size sco) \<le> MaxMsg3Pt2Size"
    and r: "sr_sized r" "check_lag_s now (sn_now E)"
  obtains m sa' tb' body x where
    "sess_run L E None [] s = s\<lparr>ss_waiting := Some WriteRequest, ss_srq := Some m, ss_state := sa', ss_connect_key := sl_sha L host\<rparr>"
    "R sa' tb'" "sr_data m = body @ sr_padding m" "length body = 64" "sr_padding m \<noteq> []" "length (sr_ciphertext m) = 32"
    "length (sr_padding m) = unat (so_pad_len (sr_options m))" "so_m3p2_len (sr_options m) = cf_payload_size sco"
    "srq_Read (sl_noise L) (sl_aes L) now (aes_new (id_hash (ri_identity d)) (ss_iv s)) (r\<lparr>sr_data := body\<rparr>) tb =
       Inr (r\<lparr>sr_data := x, sr_options := sr_options m, sr_ciphertext := sr_ciphertext m\<rparr>, tb')"
proof -
  let ?p = "ucast (sn_drawn E) :: u16" and ?a = "aes_new (id_hash (ri_identity d)) (ss_iv s)"
  have p: "unat ?p = unat (sn_drawn E)" by (rule drawsD(3) [OF E(1)])
  obtain m0 where m0: "sr_of_sizes (sn_now E) (sn_rng E) (cf_payload_size sco) ?p = Inr m0"
    by (rule sr_of_sizes_Inr [of ?p "cf_payload_size sco"]) (use E(1) sz p in \<open>auto simp: draws_def\<close>)
  note f = sr_of_sizes_sized [OF m0]
  obtain m sa' tb' body where m: "srq_Write (sl_noise L) (sl_aes L) (sn_now E) ?a m0 sa = Inr (m, sa')" "R sa' tb'"
    "sr_data m = body @ sr_padding m0" "length body = 64" "so_fields (sr_options m) = so_fields (sr_options m0)"
    "sr_padding m = sr_padding m0" "length (sr_ciphertext m) = 32"
    "\<And>rest. rest = [] \<or> rest = sr_padding m0 \<Longrightarrow>
       \<exists>x. srq_Read (sl_noise L) (sl_aes L) now ?a (r\<lparr>sr_data := body @ rest\<rparr>) tb =
         Inr (r\<lparr>sr_data := x, sr_options := sr_options m, sr_ciphertext := sr_ciphertext m,
           sr_padding := (if rest = [] then sr_padding r else sr_padding m0)\<rparr>, tb')"
    by (rule srq_write_read [OF lib, of m0 "sn_now E" r now ?a])
      (use f r E(1) p in \<open>auto simp: draws_def\<close>)
  obtain x where x: "srq_Read (sl_noise L) (sl_aes L) now ?a (r\<lparr>sr_data := body\<rparr>) tb =
      Inr (r\<lparr>sr_data := x, sr_options := sr_options m, sr_ciphertext := sr_ciphertext m, sr_padding := sr_padding r\<rparr>, tb')"
    using m(8) [of "[]"] by auto
  let ?t = "s\<lparr>ss_waiting := None\<rparr>"
  let ?u = "s\<lparr>ss_waiting := Some WriteRequest, ss_srq := Some m, ss_state := sa'\<rparr>"
  have do: "DoSessionRequest L E ?t = Inr ?u"
    using s keys m0 m(1)
    by (simp add: DoSessionRequest_def deref_def srq_new_def srk_new_def srq_ProcessMessage_def awaiting_def)
  have run: "sess_run L E None [] s = ?u\<lparr>ss_connect_key := sl_sha L host\<rparr>"
    by (rule handler_run [OF s(1)])
      (simp add: sess_handler_def HandleSessionRequest_def s(2) do CalculateConnectKey_def E(2))
  have pn: "sr_padding m \<noteq> []" using m(6) f p E(1) by (auto simp: draws_def sr_sizes)
  have pl: "so_pad_len (sr_options m) = ?p" "so_m3p2_len (sr_options m) = cf_payload_size sco"
    using m(5) f by (simp_all add: so_fields_def)
  show ?thesis
    by (rule that) (use run m pn pl f x in simp_all)
qed

lemma request_read:
  fixes L :: "('s, 'c) sess_lib" and t :: "('s, 'c) session"
  assumes t: "ss_waiting t = Some ReadRequest" "ss_role t = Responder" "ss_srq t = Some r" "length (sr_data r) = 64"
    and keys: "set_id_keys L (ri_identity (ss_info t)) (ss_state t) = Inr t1" "srk_Derive (sl_noise L) t1 = Inr tb"
    and rd: "srq_Read (sl_noise L) (sl_aes L) (sn_now E) (aes_new (id_hash (ri_identity (ss_info t))) (ss_iv t)) (r\<lparr>sr_data := body\<rparr>) tb =
       Inr (r\<lparr>sr_data := x, sr_options := sr_options m, sr_ciphertext := sr_ciphertext m\<rparr>, tb')"
    and m: "length body = 64" "sr_padding m \<noteq> []" "length (sr_padding m) = unat (so_pad_len (sr_options m))"
  obtains r' where
    "sess_run L E None body t = t\<lparr>ss_waiting := Some ReadRequestPadding, ss_srq := Some r', ss_state := tb'\<rparr>"
    "sr_options r' = sr_options m" "sr_ciphertext r' = sr_ciphertext m" "length (sr_padding r') = length (sr_padding m)"
proof -
  let ?t = "t\<lparr>ss_waiting := None\<rparr>" and ?n = "unat (so_pad_len (sr_options m))"
  let ?r = "r\<lparr>sr_data := x, sr_options := sr_options m, sr_ciphertext := sr_ciphertext m\<rparr>"
  let ?r' = "?r\<lparr>sr_padding := sec_resize ?n (sr_padding ?r)\<rparr>"
  have n: "?n \<noteq> 0" using m(2,3) by (cases "sr_padding m") simp_all
  have o: "overwrite 0 body (sr_data r) = body" using m(1) t(4) by (simp add: overwrite_def)
  have "got_request L E body ?t = Inr (t\<lparr>ss_waiting := Some ReadRequestPadding, ss_srq := Some ?r', ss_state := tb'\<rparr>)"
    using t keys rd n
    by (simp add: got_request_def deref_def srq_new_def srk_new_def srq_ProcessMessage_def awaiting_def o Let_def)
  then have "sess_run L E None body t = t\<lparr>ss_waiting := Some ReadRequestPadding, ss_srq := Some ?r', ss_state := tb'\<rparr>"
    by (intro handler_run [OF t(1)]) (simp add: sess_handler_def)
  then show ?thesis by (rule that) (use m(3) in simp_all)
qed

section \<open>The second message\<close>

lemma sc_default_Inr:
  assumes "MinPaddingSize \<le> unat drawn" "unat drawn \<le> MaxPaddingSize"
  obtains m where "sc_default now drawn r = Inr m" "sc_sized m" "co_ok now (sc_options m)" "length (sc_data m) = 64"
    "length (sc_padding m) = unat (co_pad_len (sc_options m))" "MinPaddingSize \<le> unat (co_pad_len (sc_options m))"
    "co_timestamp (sc_options m) = now" "co_pad_len (sc_options m) = ucast drawn"
proof -
  let ?p = "ucast drawn :: u16"
  let ?x = "\<lparr>co_pad_len = ?p, co_timestamp = now, co_buffer = fixed_default OptionsSize\<rparr>"
  have u: "unat ?p = unat drawn" by (rule drawn_u16 [OF assms(2)])
  have ok: "co_ok now ?x" "length (co_buffer ?x) = 16"
    using assms u by (simp_all add: co_ok_def draws_def fixed_default_def OptionsSize_def)
  have nz: "?p \<noteq> 0" using assms u by (auto simp: draws_def sr_sizes)
  have "co_default now drawn = Inr (?x\<lparr>co_buffer := co_bytes ?x @ drop 6 (co_buffer ?x)\<rparr>)"
    using co_serialize_eq [OF ok] by (simp add: co_default_def co_of_size_def)
  then show ?thesis
    by (intro that) (use ok nz u assms in \<open>auto simp: sc_default_def sc_sized_def co_ok_def draws_def fixed_default_def
        CiphertextSize_def OptionsSize_def NoisePayloadSize_def\<close>)
qed

lemma created_written:
  fixes L :: "('s, 'c) sess_lib" and t :: "('s, 'c) session"
  assumes t: "ss_waiting t = Some ReadRequestPadding" "ss_role t = Responder" "ss_srq t = Some r'"
      "length (sr_padding r') = length pad" "sr_ciphertext r' \<noteq> []" "pad \<noteq> []"
    and lib: "cbc_ok (sl_aes L)" "hs_mix (sl_noise L) (hs_mix (sl_noise L) (\<lambda>s t. hs_message (sl_noise L) 48 R t s)) sa (ss_state t)"
    and E: "draws E"
    and r: "sc_sized r" "check_lag_s now (sn_now E)"
  obtains m sa1 sa2 tb body x where
    "sess_run L E None pad t = t\<lparr>ss_waiting := Some WriteCreated, ss_srq := Some (r'\<lparr>sr_padding := pad\<rparr>), ss_scr := Some m, ss_state := tb\<rparr>"
    "sck_Derive (sl_noise L) (sr_ciphertext r') pad sa = Inr sa1"
    "R tb sa2" "sc_data m = body @ sc_padding m" "length body = 64" "sc_padding m \<noteq> []" "length (sc_ciphertext m) = 32"
    "length (sc_padding m) = unat (co_pad_len (sc_options m))"
    "scr_Read (sl_noise L) (sl_aes L) now (aes_new (id_hash (ri_identity (ss_info t))) (ss_iv t)) (r\<lparr>sc_data := body\<rparr>) sa1 =
       Inr (r\<lparr>sc_data := x, sc_options := sc_options m, sc_ciphertext := sc_ciphertext m\<rparr>, sa2)"
proof -
  let ?a = "aes_new (id_hash (ri_identity (ss_info t))) (ss_iv t)"
  obtain sa1 tb1 where mix: "sck_Derive (sl_noise L) (sr_ciphertext r') pad sa = Inr sa1"
    "sck_Derive (sl_noise L) (sr_ciphertext r') pad (ss_state t) = Inr tb1" "hs_message (sl_noise L) 48 R tb1 sa1"
    by (rule sck_Derive_pair [OF lib(2) t(5,6)]) blast
  obtain m0 where m0: "sc_default (sn_now E) (sn_drawn E) (sn_rng E) = Inr m0" "sc_sized m0" "co_ok (sn_now E) (sc_options m0)"
    "length (sc_padding m0) = unat (co_pad_len (sc_options m0))" "MinPaddingSize \<le> unat (co_pad_len (sc_options m0))"
    "co_timestamp (sc_options m0) = sn_now E"
    by (rule sc_default_Inr [OF drawsD(1,2) [OF E], of "sn_now E" "sn_rng E"]) blast
  obtain m tb sa2 body where m: "scr_Write (sl_noise L) (sl_aes L) (sn_now E) ?a m0 tb1 = Inr (m, tb)" "R tb sa2"
    "sc_data m = body @ sc_padding m0" "length body = 64" "co_fields (sc_options m) = co_fields (sc_options m0)"
    "sc_padding m = sc_padding m0" "length (sc_ciphertext m) = 32"
    "\<And>rest. rest = [] \<or> rest = sc_padding m0 \<Longrightarrow>
       \<exists>x. scr_Read (sl_noise L) (sl_aes L) now ?a (r\<lparr>sc_data := body @ rest\<rparr>) sa1 =
         Inr (r\<lparr>sc_data := x, sc_options := sc_options m, sc_ciphertext := sc_ciphertext m,
           sc_padding := (if rest = [] then sc_padding r else sc_padding m0)\<rparr>, sa2)"
    by (rule scr_write_read [OF lib(1) mix(3), of m0 "sn_now E" r now ?a]) (use m0 r in auto)
  obtain x where x: "scr_Read (sl_noise L) (sl_aes L) now ?a (r\<lparr>sc_data := body\<rparr>) sa1 =
      Inr (r\<lparr>sc_data := x, sc_options := sc_options m, sc_ciphertext := sc_ciphertext m, sc_padding := sc_padding r\<rparr>, sa2)"
    using m(8) [of "[]"] by auto
  have o: "overwrite 0 pad (sr_padding r') = pad" using t(4) by (simp add: overwrite_def)
  let ?u = "t\<lparr>ss_waiting := Some WriteCreated, ss_srq := Some (r'\<lparr>sr_padding := pad\<rparr>), ss_scr := Some m, ss_state := tb\<rparr>"
  have "got_request_padding L E pad (t\<lparr>ss_waiting := None\<rparr>) = Inr ?u"
    using t m0(1) mix(2) m(1)
    by (simp add: got_request_padding_def HandleSessionCreated_def DoSessionCreated_def deref_def scr_new_def sck_new_def
        scr_ProcessMessage_def awaiting_def o)
  then have run: "sess_run L E None pad t = ?u"
    by (intro handler_run [OF t(1)]) (simp add: sess_handler_def)
  have pn: "sc_padding m \<noteq> []" "co_pad_len (sc_options m) = co_pad_len (sc_options m0)"
    using m(5,6) m0(4,5) by (auto simp: sr_sizes co_fields_def)
  show ?thesis
    by (rule that) (use run m pn m0(4) x mix(1) in simp_all)
qed

lemma created_read:
  fixes L :: "('s, 'c) sess_lib" and s :: "('s, 'c) session"
  assumes s: "ss_waiting s = Some ReadCreated" "ss_srq s = Some q" "ss_dest s = Some d" "ss_scr s = Some r"
      "length (sc_data r) = 64"
    and keys: "sck_Derive (sl_noise L) (sr_ciphertext q) (sr_padding q) (ss_state s) = Inr sa1"
    and rd: "scr_Read (sl_noise L) (sl_aes L) (sn_now E) (aes_new (id_hash (ri_identity d)) (ss_iv s)) (r\<lparr>sc_data := body\<rparr>) sa1 =
       Inr (r\<lparr>sc_data := x, sc_options := sc_options m, sc_ciphertext := sc_ciphertext m\<rparr>, sa2)"
    and m: "length body = 64" "sc_padding m \<noteq> []" "length (sc_padding m) = unat (co_pad_len (sc_options m))"
  obtains r' where
    "sess_run L E None body s = s\<lparr>ss_waiting := Some ReadCreatedPadding, ss_scr := Some r', ss_state := sa2\<rparr>"
    "sc_ciphertext r' = sc_ciphertext m" "length (sc_padding r') = length (sc_padding m)"
proof -
  let ?n = "unat (co_pad_len (sc_options m))"
  let ?r = "r\<lparr>sc_data := x, sc_options := sc_options m, sc_ciphertext := sc_ciphertext m\<rparr>"
  let ?r' = "?r\<lparr>sc_padding := sec_resize ?n (sc_padding ?r)\<rparr>"
  have n: "?n \<noteq> 0" using m(2,3) by (cases "sc_padding m") simp_all
  have o: "overwrite 0 body (sc_data r) = body" using m(1) s(5) by (simp add: overwrite_def)
  have "got_created L E body (s\<lparr>ss_waiting := None\<rparr>) =
      Inr (s\<lparr>ss_waiting := Some ReadCreatedPadding, ss_scr := Some ?r', ss_state := sa2\<rparr>)"
    using s keys rd n
    by (simp add: got_created_def deref_def scr_new_def sck_new_def scr_ProcessMessage_def awaiting_def o Let_def)
  then have "sess_run L E None body s = s\<lparr>ss_waiting := Some ReadCreatedPadding, ss_scr := Some ?r', ss_state := sa2\<rparr>"
    by (intro handler_run [OF s(1)]) (simp add: sess_handler_def)
  then show ?thesis by (rule that) (use m(3) in simp_all)
qed

section \<open>The third message\<close>

lemma confirmed_written:
  fixes L :: "('s, 'c) sess_lib" and s :: "('s, 'c) session"
  assumes s: "ss_waiting s = Some ReadCreatedPadding" "ss_role s = Initiator" "ss_srq s = Some q" "ss_scr s = Some r'"
      "length (sc_padding r') = length pad" "sc_ciphertext r' \<noteq> []" "pad \<noteq> []" "ss_sco s = Some sco"
    and c: "conf_of J i n sco" "conf_fits i n" "\<forall>k. be_ident (sn_V E k) = J" "so_m3p2_len (sr_options q) = cf_payload_size sco"
    and lib: "hs_mix (sl_noise L) (hs_mix (sl_noise L) (hs_message (sl_noise L) 64 R)) (ss_state s) tb"
  obtains m sa tb1 tb2 where
    "sess_run L E None pad s = s\<lparr>ss_waiting := Some WriteConfirmed, ss_scr := Some (r'\<lparr>sc_padding := pad\<rparr>), ss_sco := Some m, ss_state := sa\<rparr>"
    "sck_Derive (sl_noise L) (sc_ciphertext r') pad tb = Inr tb1" "R sa tb2"
    "length (cf_data m) = PartOneSize + unat (so_m3p2_len (sr_options q))"
    "\<And>W r. reads_infos J i W \<Longrightarrow>
       \<exists>y d. sco_Read (sl_noise L) W (sr_options q) (r\<lparr>cf_data := cf_data m\<rparr>) tb1 = Inr (y, tb2)
         \<and> ib_info (cf_info y) = Some d \<and> kv (ri_options d) = kv (ri_options i)"
proof -
  obtain sa1 tb1 where mix: "sck_Derive (sl_noise L) (sc_ciphertext r') pad (ss_state s) = Inr sa1"
    "sck_Derive (sl_noise L) (sc_ciphertext r') pad tb = Inr tb1" "hs_message (sl_noise L) 64 R sa1 tb1"
    by (rule sck_Derive_pair [OF lib s(6,7)]) blast
  obtain m0 sa tb2 where w: "sco_Write (sl_noise L) (sn_V E) (sr_options q) sco sa1 = Inr (m0, sa)" "R sa tb2"
    "length (cf_data m0) = PartOneSize + unat (so_m3p2_len (sr_options q))"
    "\<And>W r. reads_infos J i W \<Longrightarrow>
       \<exists>y d. sco_Read (sl_noise L) W (sr_options q) (r\<lparr>cf_data := cf_data m0\<rparr>) tb1 = Inr (y, tb2)
         \<and> ib_info (cf_info y) = Some d \<and> kv (ri_options d) = kv (ri_options i)"
    by (rule confirmed_write_read [OF mix(3) c]) blast
  have o: "overwrite 0 pad (sc_padding r') = pad" using s(5) by (simp add: overwrite_def)
  let ?u = "s\<lparr>ss_waiting := Some WriteConfirmed, ss_scr := Some (r'\<lparr>sc_padding := pad\<rparr>), ss_sco := Some m0, ss_state := sa\<rparr>"
  have "got_created_padding L E pad (s\<lparr>ss_waiting := None\<rparr>) = Inr ?u"
    using s mix(1) w(1)
    by (simp add: got_created_padding_def HandleSessionConfirmed_def DoSessionConfirmed_def deref_def sco_new_def sck_new_def
        sco_ProcessMessage_def awaiting_def o)
  then have run: "sess_run L E None pad s = ?u"
    by (intro handler_run [OF s(1)]) (simp add: sess_handler_def)
  show ?thesis by (rule that [OF run mix(2) w(2-4)])
qed

section \<open>The end of the handshake\<close>

text \<open>
  What the library promises two sides that agree: a chain of messages and hashes, at the end of
  which the responder knows the initiator's static key and both hold cipher states in step, here
  for \<open>n\<close> messages in each direction. \<open>A\<close> is the initiator's state, \<open>B\<close> the responder's.
\<close>

definition hs_done :: "('s, 'c) noise_lib \<Rightarrow> byte list \<Rightarrow> nat \<Rightarrow> 's \<Rightarrow> 's \<Rightarrow> bool" where
  "hs_done L key n A B \<longleftrightarrow> hs_remote_public L B = Some (Inr key)
     \<and> (\<exists>sA rA kA A' hA sB rB kB B' hB.
          hs_split_save L A 32 = Inr (sA, rA, kA, A') \<and> hs_get_hash L A' 32 = Inr hA \<and> length hA = 32
        \<and> hs_split_save L B 32 = Inr (sB, rB, kB, B') \<and> hs_get_hash L B' 32 = Inr hB \<and> length hB = 32
        \<and> cs_synced L n rB sA \<and> cs_synced L n rA sB)"

definition hs_third :: "('s, 'c) noise_lib \<Rightarrow> byte list \<Rightarrow> nat \<Rightarrow> 's \<Rightarrow> 's \<Rightarrow> bool" where
  "hs_third L key n = (\<lambda>B A. hs_mix L (hs_mix L (hs_message L 64 (hs_done L key n))) A B)"

definition hs_second :: "('s, 'c) noise_lib \<Rightarrow> byte list \<Rightarrow> nat \<Rightarrow> 's \<Rightarrow> 's \<Rightarrow> bool" where
  "hs_second L key n = hs_mix L (hs_mix L (\<lambda>A B. hs_message L 48 (hs_third L key n) B A))"

definition hs_chain :: "('s, 'c) noise_lib \<Rightarrow> byte list \<Rightarrow> nat \<Rightarrow> 's \<Rightarrow> 's \<Rightarrow> bool" where
  "hs_chain L key n = hs_message L 48 (hs_second L key n)"

text \<open>Two sides whose keys of the data phase are in step for \<open>n\<close> messages in both directions.\<close>

definition in_step :: "('s, 'c) noise_lib \<Rightarrow> dp_prims \<Rightarrow> nat \<Rightarrow> 'c dp_kdf \<Rightarrow> 'c dp_kdf \<Rightarrow> bool" where
  "in_step L P n k l \<longleftrightarrow> sip_ok P k \<and> sip_ok P l \<and> same_sip_keys AliceToBob k l \<and> same_sip_keys BobToAlice k l
     \<and> cs_synced L n (cipherstate BobToAlice k) (cipherstate BobToAlice l)
     \<and> cs_synced L n (cipherstate AliceToBob l) (cipherstate AliceToBob k)"

lemma kdf_new_pair:
  assumes "hs_done L key n A B" "\<And>iv k. length (siphash P iv k) = 16"
  obtains k l A' B' where "kdf_new L P Initiator (Some B) = Inr (k, B')" "kdf_new L P Responder (Some A) = Inr (l, A')"
    "in_step L P n k l"
proof -
  obtain sA rA kA A' hA sB rB kB B' hB where h: "hs_split_save L A 32 = Inr (sA, rA, kA, A')" "hs_get_hash L A' 32 = Inr hA"
    "length hA = 32" "hs_split_save L B 32 = Inr (sB, rB, kB, B')" "hs_get_hash L B' 32 = Inr hB" "length hB = 32"
    "cs_synced L n rB sA" "cs_synced L n rA sB"
    using assms(1) unfolding hs_done_def by blast
  let ?k = "\<lambda>h a b. \<lparr>key_pt1_ab = replicate 8 0, key_pt2_ab = replicate 8 0, iv_ab = replicate 8 0,
              key_pt1_ba = replicate 8 0, key_pt2_ba = replicate 8 0, iv_ba = replicate 8 0, kdf_h = h,
              alice_to_bob = a, bob_to_alice = b\<rparr>"
  have "kdf_new L P Initiator (Some B) = Inr (?k hB sB rB, B')" "kdf_new L P Responder (Some A) = Inr (?k hA rA sA, A')"
    using h by (simp_all add: kdf_new_def noise_split_def get_handshake_hash_def InitSipKeys_zero Let_def)
  moreover have "in_step L P n (?k hB sB rB) (?k hA rA sA)"
    using h(7,8) assms(2) by (simp add: in_step_def sip_ok_def same_sip_keys_def cipherstate_def)
  ultimately show ?thesis by (rule that)
qed

lemma cs_synced_less: "cs_synced L (Suc n) c d \<Longrightarrow> cs_synced L n c d"
proof (induction n arbitrary: c d)
  case (Suc n)
  then show ?case unfolding cs_synced.simps(2) [of L "Suc n"] cs_synced.simps(2) [of L n] cs_pair_def by blast
qed simp

text \<open>Writing and reading change the keys of one direction only.\<close>

lemma ProcessLength_other:
  assumes "ProcessLength P len d k = Inr (x, k')" "d \<noteq> e"
  shows "cipherstate e k' = cipherstate e k \<and> same_sip_keys e k' = same_sip_keys e k"
  using assms
  by (cases d; cases e) (auto simp: ProcessLength_def DeriveMask_def result_simps cipherstate_def same_sip_keys_def intro!: ext)

lemma set_cipherstate_other: "d \<noteq> e \<Longrightarrow> cipherstate e (set_cipherstate d c k) = cipherstate e k"
  by (cases d; cases e) (simp_all add: set_cipherstate_def cipherstate_def)

lemma same_sip_keys_set: "same_sip_keys e (set_cipherstate d c k) = same_sip_keys e k"
  by (intro ext) simp

lemma same_sip_keys_sym: "same_sip_keys e k l \<Longrightarrow> same_sip_keys e l k"
  by (auto simp: same_sip_keys_def split: dir.splits)

lemma dp_Write_other:
  assumes "dp_Write L P V rl m k = Inr (m', k')" "write_dir rl \<noteq> e"
  shows "cipherstate e k' = cipherstate e k \<and> same_sip_keys e k' = same_sip_keys e k"
proof -
  obtain olen k1 c where w: "ProcessLength P (word_of_nat (dm_size m) + 16) (write_dir rl) k = Inr (olen, k1)"
    "k' = set_cipherstate (write_dir rl) c k1"
    using dp_Write_Inr [OF assms(1)] by blast
  then show ?thesis
    using ProcessLength_other [OF w(1) assms(2)] by (simp add: set_cipherstate_other [OF assms(2)] same_sip_keys_set)
qed

lemma sip_ok_set: "sip_ok P (set_cipherstate d c k) = sip_ok P k"
  by (simp add: sip_ok_def set_cipherstate_def split: dir.split)

lemma ProcessLength_sip:
  "ProcessLength P len d k = Inr (x, k') \<Longrightarrow> sip_ok P k \<Longrightarrow> sip_ok P k'"
  using ProcessLength_total [of P k len d] by auto

text \<open>What reading does to the keys: the keys of the length advance, and a message takes a step of the cipher.\<close>

lemma dp_Read_keys:
  assumes "dp_Read L P V rl deobfs m k = Inr (m', k')"
  obtains k1 where "k1 = k \<or> (\<exists>l len. ProcessLength P l (read_dir rl) k = Inr (len, k1))"
    "k' = k1 \<or> (\<exists>c. k' = set_cipherstate (read_dir rl) c k1)"
proof -
  have "\<not> (length (dm_buf m) < MsgMinLen \<or> length (dm_buf m) > MsgMaxLen)" using assms by (auto simp: dp_Read_def Let_def)
  note r = assms [unfolded dp_Read_def Let_def if_not_P [OF this]]
  from r show ?thesis
  proof (elim bindr_pair_InrE bindr_InrE)
    fix l len k1
    assume k1: "(if deobfs then ProcessLength P (word_of_be l) (read_dir rl) k else Inr (word_of_be l, k)) = Inr (len, k1)"
      and rest: "(if sint (word_of_int (int (unat len) - 16) :: u16) \<le> 0 then Inr (m, k1)
        else if unat len > MsgMaxLen - SizeLen then throw_ex (Ex ''DataPhase'' ''Read'') Length_error ''invalid message size.''
        else bindr (noise_decrypt L (cipherstate (read_dir rl) k1) SizeLen (unat len) (dm_buf m) (Ex ''DataPhase'' ''Read'')) (\<lambda>(buf, c).
          bindr (dm_deserialize V (m\<lparr>dm_buf := sec_resize (SizeLen + unat len) buf\<rparr>)) (\<lambda>m.
            Inr (m, set_cipherstate (read_dir rl) c k1)))) = Inr (m', k')"
    have "k' = k1 \<or> (\<exists>c. k' = set_cipherstate (read_dir rl) c k1)"
      using rest by (auto simp: result_simps split: if_splits)
    moreover have "k1 = k \<or> (\<exists>l len. ProcessLength P l (read_dir rl) k = Inr (len, k1))"
      using k1 by (auto split: if_splits)
    ultimately show ?thesis by (rule that [rotated])
  qed
qed

lemma dp_Read_other:
  assumes "dp_Read L P V rl deobfs m k = Inr (m', k')" "read_dir rl \<noteq> e"
  shows "cipherstate e k' = cipherstate e k \<and> same_sip_keys e k' = same_sip_keys e k"
  using dp_Read_keys [OF assms(1)] ProcessLength_other [OF _ assms(2)] set_cipherstate_other [OF assms(2)] same_sip_keys_set
  by metis

lemma dp_Read_sip: "dp_Read L P V rl deobfs m k = Inr (m', k') \<Longrightarrow> sip_ok P k \<Longrightarrow> sip_ok P k'"
  by (erule dp_Read_keys) (metis ProcessLength_sip sip_ok_set)

lemma same_sip_keys_both:
  "same_sip_keys e k' = same_sip_keys e k \<Longrightarrow> same_sip_keys e l' = same_sip_keys e l \<Longrightarrow> same_sip_keys e k l \<Longrightarrow> same_sip_keys e k' l'"
  using same_sip_keys_sym by metis

text \<open>What the responder's side wrote was read: one direction took a step, the other one did not.\<close>

lemma in_step_written:
  assumes "in_step L P (Suc n) k l" "dp_Write L P V Initiator m k = Inr (m', k')"
    and "cipherstate AliceToBob l' = cipherstate AliceToBob l" "same_sip_keys AliceToBob l' = same_sip_keys AliceToBob l"
    and "sip_ok P l'" "same_sip_keys BobToAlice k' l'" "cs_synced L n (cipherstate BobToAlice k') (cipherstate BobToAlice l')"
  shows "in_step L P n k' l'"
proof -
  have d: "write_dir Initiator \<noteq> AliceToBob" by (simp add: write_dir_def)
  have "cs_synced L n (cipherstate AliceToBob l) (cipherstate AliceToBob k)"
    using assms(1) cs_synced_less [of L n] by (simp add: in_step_def del: cs_synced.simps)
  then show ?thesis
    using assms dp_Write_other [OF assms(2) d] dp_Write_sip [OF assms(2)] same_sip_keys_both [of AliceToBob k' k l' l]
    by (simp add: in_step_def)
qed

text \<open>The responder's first message: a block with its own router info.\<close>

lemma info_block_copy: "info_block_of J i b \<Longrightarrow> info_block_of J i (ib_copy b)"
  by (simp add: info_block_of_def ib_copy_def ib_members_def block_of_size_def block.defs)

lemma info_block_data_size:
  assumes "info_block_of J i b" "info_size i \<le> 32763"
  shows "data_size (DInfo b) = 4 + info_size i"
  using assms u16_small [of "4 + info_size i"]
  by (simp add: data_size_def block_size_def info_block_of_def HeaderLen_def head_of_def block.defs)

lemma info_block_added:
  assumes "info_block_of J i b" "info_size i \<le> 32763"
  shows "dm_add_block (DInfo b) \<lparr>dm_blocks = [], dm_buf = []\<rparr> = (\<lparr>dm_blocks = [DInfo (ib_copy b)], dm_buf = []\<rparr>, Inr ())"
  using assms info_block_data_size [OF assms] info_block_copy [OF assms(1)]
  by (simp add: dm_add_block_def Let_def TotalSize_def dm_sizes AddBlock_def CheckBlockOrder_data_def data_order_iff
      info_block_of_def data_type_def)

text \<open>It is written, with a block whose router info has what the reader needs.\<close>

lemma info_message_written:
  assumes c: "info_block_of J i c" "info_size i \<le> 32763" and V: "be_ident (V 0) = J"
    and k: "in_step L P (Suc n) k l"
  obtains m b i' k' where "dp_Write L P V Initiator \<lparr>dm_blocks = [DInfo c], dm_buf = []\<rparr> k = Inr (m, k')"
    "dm_blocks m = [DInfo b]" "info_block_of J i b" "ib_info b = Some i'" "length (ri_buf i') = info_size i"
    "\<exists>j. publishable J j \<and> published i j \<and> info_serialize J (be_rng (V 0)) (be_now_ms (V 0)) j = Inr i'"
    "data_sized (V 0) (DInfo c)"
proof -
  let ?m = "\<lparr>dm_blocks = [DInfo c], dm_buf = []\<rparr>"
  have big: "info_size i \<le> MaxLen" using c(2) by (simp add: MaxLen_def)
  note dsz = info_block_data_size [OF _ c(2)]
  obtain b i' where b: "ib_serialize (V 0) c = Inr b" "info_block_of J i b" "ib_info b = Some i'" "length (ri_buf i') = info_size i"
    "\<exists>j. publishable J j \<and> published i j \<and> info_serialize J (be_rng (V 0)) (be_now_ms (V 0)) j = Inr i'"
    by (rule ib_serialize_of [OF c(1) big V]) blast
  have sz: "info_sized (V 0) c" using c(1) V by (auto simp: info_block_of_def info_sized_def publishable_def)
  have bw: "block_writes (V x) (dm_blocks ?m ! x) ([DInfo b] ! x)" if "x < length (dm_blocks ?m)" for x
    using that b(1) sz dsz [OF c(1)] dsz [OF b(2)] by (simp add: block_writes_def)
  have ms: "dm_size ?m = 4 + info_size i" using dsz [OF c(1)] by (simp add: dm_size_def TotalSize_def)
  have enc: "\<exists>ct c'. cs_encrypt L (cipherstate (write_dir Initiator) k) p = Inr (ct, c')" for p
    using k by (auto simp: in_step_def write_dir_def)
  have ord: "data_order_seq (map data_type (dm_blocks ?m))" using c(1) by (simp add: info_block_of_def data_type_def)
  obtain m k' where w: "dp_Write L P V Initiator ?m k = Inr (m, k')" "dm_blocks m = [DInfo b]"
    using dp_Write_total [OF _ enc, of P "[DInfo b]" ?m V] k bw ord ms c(2) by (auto simp: in_step_def)
  show ?thesis by (rule that [OF w b(2-5)]) (simp add: sz)
qed

text \<open>The block that the reader finds.\<close>

lemma info_found:
  assumes r: "map data_view (dm_blocks r) = [info_val b]" "ib_info b = Some i'" "ri_buf i' \<noteq> []" "list_all (info_read_by W) (dm_blocks r)"
    and j: "publishable J j" "published i j" "info_size i \<le> MaxLen" "info_serialize J rn now j = Inr i'" and W: "reads_infos J i W"
  obtains y d where "dm_find_block Info r = Some (DInfo y)" "ib_info y = Some d" "kv (ri_options d) = kv (ri_options i)"
proof -
  obtain x where x: "dm_blocks r = [x]" "data_view x = InfoV (ib_flag b) (ri_buf i')"
    using r(1,2) by (cases "dm_blocks r") (auto simp: info_val_def)
  obtain y where y: "x = DInfo y" "info_val y = InfoV (ib_flag b) (ri_buf i')"
    using x(2) by (cases x) (auto simp: options_val_def)
  obtain d where d: "ib_info y = Some d" "ri_buf d = ri_buf i'"
    using y(2) r(3) by (auto simp: info_val_def split: option.splits)
  obtain z g where z: "block_type y = Info" "be_fresh (W z) = Inr g" "info_of_buffer (be_ident (W z)) (be_r1 (W z)) (be_r2 (W z)) g (ri_buf d) = Inr d"
    using r(4) by (auto simp: x(1) y(1) info_read_by_def d(1))
  have "be_ident (W z) = J" "info_fresh (ri_identity i) (info_members g)" using spec [OF W [unfolded reads_infos_def], of z] z(2) by auto
  then have "kv (ri_options d) = kv (ri_options i)"
    using published_readable(2) [OF j _ z(2)] z(3) by (auto simp: d(2))
  moreover have "dm_find_block Info r = Some (DInfo y)" by (simp add: dm_find_block_def x(1) y(1) data_type_def z(1))
  ultimately show ?thesis using d(1) that by blast
qed

text \<open>The reader finds it and is in step again.\<close>

lemma info_message_read:
  assumes k: "in_step N P (Suc n) k l" and w: "dp_Write N P V Initiator dm k = Inr (m, k')"
    and b: "ib_info b = Some i'" "ri_buf i' \<noteq> []" and r: "ProcessLength P x BobToAlice l = Inr (len, l1)" "dm_blocks r = []"
    and q: "dp_Read N P W Responder False r l1 = Inr (r', l')" "map data_view (dm_blocks r') = [info_val b]"
      "same_sip_keys BobToAlice k' l'" "cs_synced N n (cipherstate BobToAlice k') (cipherstate BobToAlice l')"
    and j: "publishable J j" "published i j" "info_size i \<le> MaxLen" "info_serialize J rn now j = Inr i'" and W: "reads_infos J i W"
  shows "\<exists>b d. dm_find_block Info r' = Some (DInfo b) \<and> ib_info b = Some d \<and> kv (ri_options d) = kv (ri_options i)"
    and "in_step N P n k' l'"
proof -
  have dirs: "read_dir Responder = write_dir Initiator" "write_dir Initiator = BobToAlice"
    by (simp_all add: read_dir_def write_dir_def)
  obtain y d where "dm_find_block Info r' = Some (DInfo y)" "ib_info y = Some d" "kv (ri_options d) = kv (ri_options i)"
    by (rule info_found [OF q(2) b dp_Read_infos [OF q(1)] j W]) (simp add: r(2))
  then show "\<exists>b d. dm_find_block Info r' = Some (DInfo b) \<and> ib_info b = Some d \<and> kv (ri_options d) = kv (ri_options i)" by blast
  show "in_step N P n k' l'"
  proof (rule in_step_written [OF k w])
    show "cipherstate AliceToBob l' = cipherstate AliceToBob l" "same_sip_keys AliceToBob l' = same_sip_keys AliceToBob l"
      using ProcessLength_other [OF r(1), of AliceToBob] dp_Read_other [OF q(1), of AliceToBob] by (simp_all add: dirs)
    show "sip_ok P l'"
      using dp_Read_sip [OF q(1)] ProcessLength_sip [OF r(1)] k by (simp add: in_step_def)
  qed (rule q)+
qed

lemma data_written:
  assumes k: "in_step (sl_noise L) (sl_dp L) (Suc n) k l" "kdf_new (sl_noise L) (sl_dp L) Initiator (Some (ss_state t)) = Inr (k, st)"
    and t: "ss_role t = Responder"
    and i: "publishable J (ss_info t)" "info_size (ss_info t) \<le> 32763"
    and E: "be_ident (sn_U E 0) = J" "be_ident (sn_V E 0) = J" and W: "reads_infos J (ss_info t) W"
  obtains m k' i' len l1 where
    "DoDataPhase L E t = Inr (t\<lparr>ss_waiting := Some WriteData, ss_state := st, ss_dp := Some k', ss_dp_msg := Some m, ss_info := i'\<rparr>)"
    "ProcessLength (sl_dp L) (word_of_be (take 2 (dm_buf m))) BobToAlice l = Inr (len, l1)"
    "length (dm_buf m) = 2 + unat len" "16 < unat len"
    "\<And>r. dm_buf r = be_of_word len @ drop 2 (dm_buf m) \<Longrightarrow> dm_blocks r = [] \<Longrightarrow>
       \<exists>r' l' b d. dp_Read (sl_noise L) (sl_dp L) W Responder False r l1 = Inr (r', l') \<and> in_step (sl_noise L) (sl_dp L) n k' l'
         \<and> dm_find_block Info r' = Some (DInfo b) \<and> ib_info b = Some d \<and> kv (ri_options d) = kv (ri_options (ss_info t))"
proof -
  let ?i = "ss_info t" and ?N = "sl_noise L" and ?P = "sl_dp L"
  have big: "info_size ?i \<le> MaxLen" using i(2) by (simp add: MaxLen_def)
  obtain b0 where b0: "ib_of_info (sn_U E 0) (Some ?i) = Inr b0" "info_block_of J ?i b0"
    by (rule ib_of_info_of [OF i(1) big E(1)]) blast
  let ?m = "\<lparr>dm_blocks = [DInfo (ib_copy b0)], dm_buf = []\<rparr>"
  note dsz = info_block_data_size [OF _ i(2)]
  obtain m b i' k' where w: "dp_Write ?N ?P (sn_V E) Initiator ?m k = Inr (m, k')" "dm_blocks m = [DInfo b]"
    "info_block_of J ?i b" "ib_info b = Some i'" "length (ri_buf i') = info_size ?i"
    "\<exists>j. publishable J j \<and> published ?i j \<and> info_serialize J (be_rng (sn_V E 0)) (be_now_ms (sn_V E 0)) j = Inr i'"
    and sz: "data_sized (sn_V E 0) (DInfo (ib_copy b0))"
    by (rule info_message_written [OF info_block_copy [OF b0(2)] i(2) _ k(1), where V = "sn_V E"]) (use E(2) in blast)+
  obtain j where j: "publishable J j" "published ?i j" "info_serialize J (be_rng (sn_V E 0)) (be_now_ms (sn_V E 0)) j = Inr i'"
    using w(6) by blast
  have ms: "dm_size ?m = 4 + info_size ?i" "dm_size m = dm_size ?m"
    using dsz [OF info_block_copy [OF b0(2)]] dsz [OF w(3)] w(2) by (simp_all add: dm_size_def TotalSize_def)
  obtain f where f: "be_ident (W 0) = J" "be_fresh (W 0) = Inr f" "info_fresh (ri_identity ?i) (info_members f)"
    using W by (auto simp: reads_infos_def)
  have vok: "val_ok (W x) (data_view (dm_blocks m ! x))" if "x < length (dm_blocks m)" for x
    using that w(3,4) published_readable(1) [OF j(1,2) big j(3) f] by (simp add: w(2) info_val_def info_block_of_def)
  have bi: "block_info m ?i = i'"
    using w(2-4) by (simp add: block_info_def dm_find_block_def info_block_of_def data_type_def)
  have do: "DoDataPhase L E t = Inr (t\<lparr>ss_waiting := Some WriteData, ss_state := st, ss_dp := Some k', ss_dp_msg := Some m, ss_info := i'\<rparr>)"
    using t k(2) b0(1) info_block_added [OF b0(2) i(2)] w(1) bi by (simp add: DoDataPhase_def awaiting_def)
  have dirs: "read_dir Responder = write_dir Initiator" "write_dir Initiator = BobToAlice"
    by (simp_all add: read_dir_def write_dir_def)
  have pair: "cs_pair ?N (cs_synced ?N n) (cipherstate (write_dir Initiator) k) (cipherstate (write_dir Initiator) l)"
    "same_sip_keys (write_dir Initiator) k l"
    using k(1) by (simp_all add: in_step_def dirs)
  have small: "dm_size ?m \<le> 32767" using ms i(2) by simp
  have dsd: "data_sized (sn_V E x) (dm_blocks ?m ! x)" if "x < length (dm_blocks ?m)" for x using that sz by simp
  show ?thesis
  proof (rule dp_write_reads [OF w(1) dirs(1) pair(2,1) small ms(2) dsd vok])
    fix len l1
    assume r: "ProcessLength ?P (word_of_be (take 2 (dm_buf m))) (write_dir Initiator) l = Inr (len, l1)"
      "length (dm_buf m) = 2 + unat len" "16 < unat len"
      and rd: "\<And>deobfs r. dm_buf r = (if deobfs then dm_buf m else be_of_word len @ drop 2 (dm_buf m)) \<Longrightarrow>
         \<exists>r' l'. dp_Read ?N ?P W Responder deobfs r (if deobfs then l else l1) = Inr (r', l')
           \<and> map data_view (dm_blocks r') = map data_view (dm_blocks m)
           \<and> same_sip_keys (write_dir Initiator) k' l'
           \<and> cs_synced ?N n (cipherstate (write_dir Initiator) k') (cipherstate (write_dir Initiator) l')"
    have rn: "ri_buf i' \<noteq> []" using w(5) i(1) by (auto simp: publishable_def MinInfoLen_def)
    have "\<exists>r' l' b d. dp_Read ?N ?P W Responder False r l1 = Inr (r', l') \<and> in_step ?N ?P n k' l'
         \<and> dm_find_block Info r' = Some (DInfo b) \<and> ib_info b = Some d \<and> kv (ri_options d) = kv (ri_options ?i)"
      if r0: "dm_buf r = be_of_word len @ drop 2 (dm_buf m)" "dm_blocks r = []" for r
    proof -
      obtain r' l' where q: "dp_Read ?N ?P W Responder False r l1 = Inr (r', l')" "map data_view (dm_blocks r') = [info_val b]"
        "same_sip_keys BobToAlice k' l'" "cs_synced ?N n (cipherstate BobToAlice k') (cipherstate BobToAlice l')"
        using rd [of r False] r0(1) w(2) by (auto simp: dirs(2))
      show ?thesis
        using info_message_read [OF k(1) w(1,4) rn r(1) [unfolded dirs(2)] r0(2) q j(1,2) big j(3) W] q(1) by blast
    qed
    then show ?thesis using that [OF do] r(1-3) dirs(2) by auto
  qed
qed

lemma confirmed_read:
  assumes t: "ss_waiting t = Some ReadConfirmed" "ss_role t = Responder" "ss_srq t = Some q" "ss_scr t = Some m" "ss_sco t = Some r"
      "length (cf_data r) = length bytes"
    and keys: "sck_Derive (sl_noise L) (sc_ciphertext m) (sc_padding m) (ss_state t) = Inr tb1"
      "hs_remote_public (sl_noise L) tb2 = Some (Inr key)"
    and rd: "sco_Read (sl_noise L) (sn_V E) (sr_options q) (r\<lparr>cf_data := bytes\<rparr>) tb1 = Inr (y, tb2)"
      "ib_info (cf_info y) = Some d" "decoded_option ''s'' d = Inr key"
    and dp: "DoDataPhase L E (t\<lparr>ss_waiting := None, ss_sco := Some y, ss_state := tb2, ss_dest := Some d, ss_remote_key := key\<rparr>) = Inr u"
  shows "sess_run L E None bytes t = u"
proof -
  let ?t = "t\<lparr>ss_waiting := None\<rparr>"
  let ?v = "?t\<lparr>ss_sco := Some y, ss_state := tb2, ss_dest := Some d, ss_remote_key := key\<rparr>"
  have o: "overwrite 0 bytes (cf_data r) = bytes" using t(6) by (simp add: overwrite_def)
  have g: "got_confirmed L E bytes ?t = Inr (key, ?v)"
    using t keys rd by (simp add: got_confirmed_def deref_def sco_new_def sck_new_def sco_ProcessMessage_def o
        get_remote_public_key_def noise_dh_def)
  have "check_static_key L E key ?v = Inr u"
    using t(2) dp by (simp add: check_static_key_def equal_prefix_def HandleDataPhase_def)
  then show ?thesis by (intro handler_run [OF t(1)]) (simp add: sess_handler_def g)
qed

lemma data_length_read:
  assumes s: "ss_waiting s = Some ReadDataLength" "ss_dp_msg s = Some m"
    and k: "kdf_new (sl_noise L) (sl_dp L) Responder (Some (ss_state s)) = Inr (l, st)"
    and len: "ProcessLength (sl_dp L) (word_of_be bytes) BobToAlice l = Inr (len, l1)" "length bytes = 2" "2 \<le> length (dm_buf m)" "len \<noteq> 0"
  obtains b where "sess_run L E None bytes s =
    s\<lparr>ss_waiting := Some (ReadData len), ss_state := st, ss_dp := Some l1, ss_dp_msg := Some (m\<lparr>dm_buf := b\<rparr>)\<rparr>" "length b = 2 + unat len"
proof -
  let ?b = "sec_resize (SizeLen + unat len) (overwrite 0 bytes (dm_buf m))"
  have r: "raw_read_bytes 2 (Some (overwrite 0 bytes (dm_buf m))) = Inr bytes"
    using len(2,3) by (simp add: raw_read_bytes_def overwrite_def)
  have "got_data_length L E bytes (s\<lparr>ss_waiting := None\<rparr>) =
      Inr (s\<lparr>ss_waiting := Some (ReadData len), ss_state := st, ss_dp := Some l1, ss_dp_msg := Some (m\<lparr>dm_buf := ?b\<rparr>)\<rparr>)"
    using s k len(1,4) by (simp add: got_data_length_def deref_def r awaiting_def Let_def)
  then have "sess_run L E None bytes s =
      s\<lparr>ss_waiting := Some (ReadData len), ss_state := st, ss_dp := Some l1, ss_dp_msg := Some (m\<lparr>dm_buf := ?b\<rparr>)\<rparr>"
    by (intro handler_run [OF s(1)]) (simp add: sess_handler_def)
  then show ?thesis by (rule that) (simp add: SizeLen_def)
qed

lemma data_read:
  assumes s: "ss_waiting s = Some (ReadData len)" "ss_dp_msg s = Some m" "ss_dp s = Some l1" "ss_dest s = Some d"
      "length (dm_buf m) = 2 + unat len" "length bytes = unat len"
    and rd: "dp_Read (sl_noise L) (sl_dp L) (sn_V E) Responder False (m\<lparr>dm_buf := be_of_word len @ bytes\<rparr>) l1 = Inr (r, l2)"
      "dm_find_block Info r = Some (DInfo b)" "ib_info b = Some j" "kv (ri_options j) = kv (ri_options d)"
    and key: "decoded_option ''s'' d = Inr k"
  shows "sess_run L E None bytes s = s\<lparr>ss_waiting := None, ss_ready := True, ss_dp := Some l2, ss_dp_msg := Some r\<rparr>"
proof -
  have w: "raw_write_bytes (be_of_word len) (Some (overwrite SizeLen bytes (dm_buf m))) = Inr (be_of_word len @ bytes)"
    using s(5,6) by (simp add: raw_write_bytes_def overwrite_def SizeLen_def)
  obtain x where x: "mapping_entry_at (ascii ''s'') (ri_options d) = Inr x"
    using key by (auto simp: decoded_option_def result_simps)
  then have "mapping_entry_at (ascii ''s'') (ri_options j) = Inr x" using rd(4) by (simp add: mapping_entry_at_def)
  then have "got_data L E len bytes (s\<lparr>ss_waiting := None\<rparr>) =
      Inr (s\<lparr>ss_waiting := None, ss_ready := True, ss_dp := Some l2, ss_dp_msg := Some r\<rparr>)"
    using s(2-4) rd(1-3) x by (simp add: got_data_def deref_def w Let_def became_ready_def)
  then show ?thesis by (intro handler_run [OF s(1)]) (simp add: sess_handler_def)
qed

text \<open>The operations that complete without transferring a message into the session.\<close>

lemma written_runs:
  "ss_waiting s = Some WriteRequest \<Longrightarrow> ss_role s = Initiator \<Longrightarrow> sess_run L E None bytes s = s\<lparr>ss_waiting := Some WaitCreated\<rparr>"
  "ss_waiting s = Some WriteCreated \<Longrightarrow> ss_role s = Responder \<Longrightarrow> sess_run L E None bytes s = s\<lparr>ss_waiting := Some WaitConfirmed\<rparr>"
  "ss_waiting s = Some WriteConfirmed \<Longrightarrow> ss_role s = Initiator \<Longrightarrow> sess_run L E None bytes s = s\<lparr>ss_waiting := Some WaitData\<rparr>"
  "ss_waiting s = Some WriteData \<Longrightarrow> sess_run L E None bytes s = s\<lparr>ss_waiting := None, ss_ready := True\<rparr>"
  by (rule handler_run, assumption,
      simp add: sess_handler_def HandleSessionCreated_def HandleSessionConfirmed_def HandleDataPhase_def awaiting_def became_ready_def)+

lemma waited_runs:
  "ss_waiting s = Some WaitRequest \<Longrightarrow> ss_role s = Responder \<Longrightarrow> sr_default (sn_now E) (sn_drawn E) (sn_rng E) = Inr m \<Longrightarrow>
     sess_run L E None bytes s = s\<lparr>ss_waiting := Some ReadRequest, ss_srq := Some m\<rparr>"
  "ss_waiting s = Some WaitCreated \<Longrightarrow> ss_role s = Initiator \<Longrightarrow> sc_default (sn_now E) (sn_drawn E) (sn_rng E) = Inr c \<Longrightarrow>
     sess_run L E None bytes s = s\<lparr>ss_waiting := Some ReadCreated, ss_scr := Some c\<rparr>"
  "ss_waiting s = Some WaitData \<Longrightarrow> ss_role s = Initiator \<Longrightarrow>
     sess_run L E None bytes s = s\<lparr>ss_waiting := Some ReadDataLength, ss_dp_msg := Some \<lparr>dm_blocks = [], dm_buf = sec_resize MsgMaxLen []\<rparr>\<rparr>"
  by (rule handler_run, assumption,
      simp add: sess_handler_def DoSessionRequest_def DoSessionCreated_def DoDataPhase_def awaiting_def)+

lemma confirmed_awaited:
  assumes "ss_waiting s = Some WaitConfirmed" "ss_role s = Responder" "ss_srq s = Some q"
    "unat (so_m3p2_len (sr_options q)) \<le> MaxMsg3Pt2Size"
  obtains r where "sess_run L E None bytes s = s\<lparr>ss_waiting := Some ReadConfirmed, ss_sco := Some r\<rparr>"
    "length (cf_data r) = PartOneSize + unat (so_m3p2_len (sr_options q))"
proof -
  let ?n = "PartOneSize + unat (so_m3p2_len (sr_options q))"
  have u: "unat (word_of_nat ?n :: u16) = ?n" using assms(4) by (intro u16_small) (simp add: cf_sizes sr_sizes)
  obtain o' p where op: "opt_default = Inr o'" "pad_default = Inr p" using opt_default_eq pad_default_eq by blast
  let ?r = "\<lparr>cf_data = sec_of_size ?n, cf_payload = [], cf_info = ib_default, cf_opt = o', cf_pad = p\<rparr>"
  have r: "cf_of_size (word_of_nat ?n) = Inr ?r" unfolding cf_of_size_def u op bindr_simps ..
  have "DoSessionConfirmed L E (s\<lparr>ss_waiting := None\<rparr>) = Inr (s\<lparr>ss_waiting := Some ReadConfirmed, ss_sco := Some ?r\<rparr>)"
    using assms(2,3) r by (simp add: DoSessionConfirmed_def deref_def awaiting_def del: of_nat_add)
  then have "sess_run L E None bytes s = s\<lparr>ss_waiting := Some ReadConfirmed, ss_sco := Some ?r\<rparr>"
    by (intro handler_run [OF assms(1)]) (simp add: sess_handler_def)
  then show ?thesis by (rule that) simp
qed

end
