(* ===== verification/Handshake.thy ===== *)
theory Handshake
  imports Connection
begin

text \<open>
  The handshake as a whole: two sessions that were made and started connect, or the responder
  refuses the initiator's key and both wait for ever. What the turns of a connection make of two
  reachable sessions is reachable.
\<close>

section \<open>The handshake\<close>

lemma link_turns_append: "link_turns L (xs @ ys) l = link_turns L ys (link_turns L xs l)"
  by (induction L xs l rule: link_turns.induct) simp_all

text \<open>
  The environments of the turns: clocks that do not go backwards and do not differ by more than
  the lag, and readers whose default identities have the types of both infos.
\<close>

definition net_ok :: "ident_env \<Rightarrow> info \<Rightarrow> info \<Rightarrow> (nat \<Rightarrow> sess_env) \<Rightarrow> bool" where
  "net_ok J i j E \<longleftrightarrow> (\<forall>n. draws (E n) \<and> (\<exists>h. sn_host (E n) = Inr h) \<and> be_ident (sn_U (E n) 0) = J
       \<and> reads_infos J i (sn_V (E n)) \<and> reads_infos J j (sn_V (E n)))
     \<and> (\<forall>m n. m \<le> n \<longrightarrow> check_lag_s (sn_now (E n)) (sn_now (E m)))"

lemma requests_exchanged:
  fixes L :: "('s, 'c) sess_lib" and s t :: "('s, 'c) session"
  assumes s: "ss_waiting s = Some Connecting" "ss_role s = Initiator" "ss_dest s = Some d" "ss_sco s = Some sco"
    and t: "ss_waiting t = Some WaitRequest" "ss_role t = Responder" "ss_iv t = ss_iv s"
      "id_hash (ri_identity (ss_info t)) = id_hash (ri_identity d)"
    and keys: "set_id_keys L (ri_identity d) (ss_state s) = Inr s1" "srk_Derive_key (sl_noise L) (ss_remote_key s) s1 = Inr sa"
      "set_id_keys L (ri_identity (ss_info t)) (ss_state t) = Inr t1" "srk_Derive (sl_noise L) t1 = Inr tb"
    and lib: "cbc_ok (sl_aes L)" "hs_chain (sl_noise L) key n sa tb"
    and E: "net_ok J i (ss_info t) E"
    and sz: "MinMsg3Pt2Size \<le> unat (cf_payload_size sco)" "unat (cf_payload_size sco) \<le> MaxMsg3Pt2Size"
  obtains q q' c r sa1 sa2 sa3 tb1 body x host where
    "link_steps L [(Initiator, E 0), (Initiator, E 1), (Responder, E 2), (Responder, E 3), (Responder, E 4), (Responder, E 5)]
       \<lparr>lk_alice = s, lk_bob = t, lk_ab = [], lk_ba = []\<rparr> =
     Some \<lparr>lk_alice = s\<lparr>ss_waiting := Some WaitCreated, ss_srq := Some q, ss_state := sa1, ss_connect_key := host\<rparr>,
      lk_bob = t\<lparr>ss_waiting := Some WaitConfirmed, ss_srq := Some q', ss_scr := Some c, ss_state := tb1\<rparr>,
      lk_ab = [], lk_ba = body @ sc_padding c\<rparr>"
    "so_m3p2_len (sr_options q) = cf_payload_size sco" "sr_options q' = sr_options q"
    "sck_Derive (sl_noise L) (sr_ciphertext q) (sr_padding q) sa1 = Inr sa2"
    "sc_default (sn_now (E 6)) (sn_drawn (E 6)) (sn_rng (E 6)) = Inr r" "length (sc_data r) = 64"
    "scr_Read (sl_noise L) (sl_aes L) (sn_now (E 7)) (aes_new (id_hash (ri_identity d)) (ss_iv s)) (r\<lparr>sc_data := body\<rparr>) sa2 =
       Inr (r\<lparr>sc_data := x, sc_options := sc_options c, sc_ciphertext := sc_ciphertext c\<rparr>, sa3)"
    "length body = 64" "sc_padding c \<noteq> []" "length (sc_padding c) = unat (co_pad_len (sc_options c))" "sc_ciphertext c \<noteq> []"
    "hs_third (sl_noise L) key n tb1 sa3"
proof -
  have e: "draws (E k)" "\<exists>h. sn_host (E k) = Inr h" "k \<le> k' \<Longrightarrow> check_lag_s (sn_now (E k')) (sn_now (E k))" for k k'
    using E by (auto simp: net_ok_def)
  obtain host where host: "sn_host (E 0) = Inr host" using e(2) by blast
  have drw: "unat (sn_drawn (E 2)) \<le> MaxPaddingSize" using e(1) [of 2] by (simp add: draws_def)
  obtain p where p: "sr_default (sn_now (E 2)) (sn_drawn (E 2)) (sn_rng (E 2)) = Inr p" "sr_sized p" "length (sr_data p) = 64"
    by (rule sr_default_Inr [OF drw]) blast
  obtain r where r: "sc_default (sn_now (E 6)) (sn_drawn (E 6)) (sn_rng (E 6)) = Inr r" "sc_sized r" "length (sc_data r) = 64"
    by (rule sc_default_Inr [OF drawsD(1,2) [OF e(1)]]) blast
  obtain q sa1 tb0 body0 x0 where q: "sess_run L (E 0) None [] s =
      s\<lparr>ss_waiting := Some WriteRequest, ss_srq := Some q, ss_state := sa1, ss_connect_key := sl_sha L host\<rparr>"
    "hs_second (sl_noise L) key n sa1 tb0"
    "sr_data q = body0 @ sr_padding q" "length body0 = 64" "sr_padding q \<noteq> []" "length (sr_ciphertext q) = 32"
    "length (sr_padding q) = unat (so_pad_len (sr_options q))" "so_m3p2_len (sr_options q) = cf_payload_size sco"
    "srq_Read (sl_noise L) (sl_aes L) (sn_now (E 3)) (aes_new (id_hash (ri_identity d)) (ss_iv s)) (p\<lparr>sr_data := body0\<rparr>) tb =
       Inr (p\<lparr>sr_data := x0, sr_options := sr_options q, sr_ciphertext := sr_ciphertext q\<rparr>, tb0)"
    by (rule request_written [OF s keys(1,2) lib(1) lib(2) [unfolded hs_chain_def] e(1) host sz p(2) e(3) [of 0 3]]) simp
  let ?s1 = "s\<lparr>ss_waiting := Some WriteRequest, ss_srq := Some q, ss_state := sa1, ss_connect_key := sl_sha L host\<rparr>"
  let ?t1 = "t\<lparr>ss_waiting := Some ReadRequest, ss_srq := Some p\<rparr>"
  obtain q1 where q1: "sess_run L (E 3) None body0 ?t1 = ?t1\<lparr>ss_waiting := Some ReadRequestPadding, ss_srq := Some q1, ss_state := tb0\<rparr>"
    "sr_options q1 = sr_options q" "sr_ciphertext q1 = sr_ciphertext q" "length (sr_padding q1) = length (sr_padding q)"
    by (rule request_read [where t = ?t1 and r = p and ?t1.0 = t1 and tb = tb and E = "E 3" and body = body0 and x = x0 and m = q and tb' = tb0]) (use p t keys q in simp_all)
  let ?t2 = "?t1\<lparr>ss_waiting := Some ReadRequestPadding, ss_srq := Some q1, ss_state := tb0\<rparr>"
  have ct: "sr_ciphertext q1 \<noteq> []" using q(6) q1(3) by auto
  obtain c sa2 sa3 tb1 body x where c: "sess_run L (E 4) None (sr_padding q) ?t2 =
      ?t2\<lparr>ss_waiting := Some WriteCreated, ss_srq := Some (q1\<lparr>sr_padding := sr_padding q\<rparr>), ss_scr := Some c, ss_state := tb1\<rparr>"
    "sck_Derive (sl_noise L) (sr_ciphertext q1) (sr_padding q) sa1 = Inr sa2"
    "hs_third (sl_noise L) key n tb1 sa3"
    "sc_data c = body @ sc_padding c" "length body = 64" "sc_padding c \<noteq> []" "length (sc_ciphertext c) = 32"
    "length (sc_padding c) = unat (co_pad_len (sc_options c))"
    "scr_Read (sl_noise L) (sl_aes L) (sn_now (E 7)) (aes_new (id_hash (ri_identity (ss_info ?t2))) (ss_iv ?t2)) (r\<lparr>sc_data := body\<rparr>) sa2 =
       Inr (r\<lparr>sc_data := x, sc_options := sc_options c, sc_ciphertext := sc_ciphertext c\<rparr>, sa3)"
    by (rule created_written [where t = ?t2 and r' = q1 and pad = "sr_padding q" and sa = sa1 and E = "E 4" and r = r and R = "hs_third (sl_noise L) key n" and now = "sn_now (E 7)"])
      (use q(2) [unfolded hs_second_def] q(5) q1(4) ct t lib(1) e(1) [of 4] e(3) [of 4 7] r(2) in simp_all)
  let ?t3 = "?t2\<lparr>ss_waiting := Some WriteCreated, ss_srq := Some (q1\<lparr>sr_padding := sr_padding q\<rparr>), ss_scr := Some c, ss_state := tb1\<rparr>"
  have runs: "sess_run L (E 1) None [] ?s1 = ?s1\<lparr>ss_waiting := Some WaitCreated\<rparr>"
    "sess_run L (E 2) None [] t = ?t1" "sess_run L (E 5) None [] ?t3 = ?t3\<lparr>ss_waiting := Some WaitConfirmed\<rparr>"
    using s t p(1) by (simp_all add: written_runs waited_runs)
  have turns: "side_step L (E 0) [] s = Some ([], [], ?s1)" "side_step L (E 1) [] ?s1 = Some ([], body0 @ sr_padding q, ?s1\<lparr>ss_waiting := Some WaitCreated\<rparr>)"
    "side_step L (E 2) (body0 @ sr_padding q) t = Some (body0 @ sr_padding q, [], ?t1)"
    "side_step L (E 3) (body0 @ sr_padding q) ?t1 = Some (sr_padding q, [], ?t2)"
    "side_step L (E 4) (sr_padding q) ?t2 = Some ([], [], ?t3)"
    "side_step L (E 5) [] ?t3 = Some ([], body @ sc_padding c, ?t3\<lparr>ss_waiting := Some WaitConfirmed\<rparr>)"
    using s t q p(3) q1 c runs by (simp_all add: side_defs of_msg_def)
  have l: "link_steps L [(Initiator, E 0), (Initiator, E 1), (Responder, E 2), (Responder, E 3), (Responder, E 4), (Responder, E 5)]
       \<lparr>lk_alice = s, lk_bob = t, lk_ab = [], lk_ba = []\<rparr> =
     Some \<lparr>lk_alice = s\<lparr>ss_waiting := Some WaitCreated, ss_srq := Some q, ss_state := sa1, ss_connect_key := sl_sha L host\<rparr>,
      lk_bob = t\<lparr>ss_waiting := Some WaitConfirmed, ss_srq := Some (q1\<lparr>sr_padding := sr_padding q\<rparr>), ss_scr := Some c, ss_state := tb1\<rparr>,
      lk_ab = [], lk_ba = body @ sc_padding c\<rparr>"
    using turns by simp
  show ?thesis
    by (rule that [OF l _ _ _ r(1,3)]) (use q(8) q1(2,3) c t(3,4) in auto)
qed

lemma confirmation_sent:
  fixes L :: "('s, 'c) sess_lib" and s :: "('s, 'c) session"
  assumes s: "ss_waiting s = Some WaitCreated" "ss_role s = Initiator" "ss_dest s = Some d" "ss_srq s = Some q" "ss_sco s = Some sco"
    and keys: "sck_Derive (sl_noise L) (sr_ciphertext q) (sr_padding q) (ss_state s) = Inr sa2"
    and r: "sc_default (sn_now (E 6)) (sn_drawn (E 6)) (sn_rng (E 6)) = Inr r" "length (sc_data r) = 64"
    and rd: "scr_Read (sl_noise L) (sl_aes L) (sn_now (E 7)) (aes_new (id_hash (ri_identity d)) (ss_iv s)) (r\<lparr>sc_data := body\<rparr>) sa2 =
       Inr (r\<lparr>sc_data := x, sc_options := sc_options c, sc_ciphertext := sc_ciphertext c\<rparr>, sa3)"
    and c: "length body = 64" "sc_padding c \<noteq> []" "length (sc_padding c) = unat (co_pad_len (sc_options c))" "sc_ciphertext c \<noteq> []"
    and lib: "hs_third (sl_noise L) key n tb sa3"
    and m: "conf_of J i p sco" "conf_fits i p" "so_m3p2_len (sr_options q) = cf_payload_size sco"
    and E: "net_ok J i j E"
  obtains c' m sa4 tb2 tb3 where
    "link_steps L [(Initiator, E 6), (Initiator, E 7), (Initiator, E 8), (Initiator, E 9)]
       \<lparr>lk_alice = s, lk_bob = t, lk_ab = [], lk_ba = body @ sc_padding c\<rparr> =
     Some \<lparr>lk_alice = s\<lparr>ss_waiting := Some WaitData, ss_scr := Some c', ss_sco := Some m, ss_state := sa4\<rparr>, lk_bob = t,
      lk_ab = cf_data m, lk_ba = []\<rparr>"
    "sck_Derive (sl_noise L) (sc_ciphertext c) (sc_padding c) tb = Inr tb2" "hs_done (sl_noise L) key n sa4 tb3"
    "length (cf_data m) = PartOneSize + unat (so_m3p2_len (sr_options q))"
    "\<And>W r. reads_infos J i W \<Longrightarrow>
       \<exists>y d. sco_Read (sl_noise L) W (sr_options q) (r\<lparr>cf_data := cf_data m\<rparr>) tb2 = Inr (y, tb3)
         \<and> ib_info (cf_info y) = Some d \<and> kv (ri_options d) = kv (ri_options i)"
proof -
  let ?s1 = "s\<lparr>ss_waiting := Some ReadCreated, ss_scr := Some r\<rparr>"
  obtain r1 where r1: "sess_run L (E 7) None body ?s1 = ?s1\<lparr>ss_waiting := Some ReadCreatedPadding, ss_scr := Some r1, ss_state := sa3\<rparr>"
    "sc_ciphertext r1 = sc_ciphertext c" "length (sc_padding r1) = length (sc_padding c)"
    by (rule created_read [where s = ?s1 and q = q and d = d and r = r and ?sa1.0 = sa2 and E = "E 7" and body = body and x = x
          and m = c and ?sa2.0 = sa3]) (use s keys r rd c in simp_all)
  let ?s2 = "?s1\<lparr>ss_waiting := Some ReadCreatedPadding, ss_scr := Some r1, ss_state := sa3\<rparr>"
  have id: "\<forall>k. be_ident (sn_V (E 8) k) = J" using E by (auto simp: net_ok_def reads_infos_def)
  have mix: "hs_mix (sl_noise L) (hs_mix (sl_noise L) (hs_message (sl_noise L) 64 (hs_done (sl_noise L) key n))) (ss_state ?s2) tb"
    using lib by (simp add: hs_third_def)
  obtain m sa4 tb2 tb3 where w: "sess_run L (E 8) None (sc_padding c) ?s2 =
      ?s2\<lparr>ss_waiting := Some WriteConfirmed, ss_scr := Some (r1\<lparr>sc_padding := sc_padding c\<rparr>), ss_sco := Some m, ss_state := sa4\<rparr>"
    "sck_Derive (sl_noise L) (sc_ciphertext r1) (sc_padding c) tb = Inr tb2" "hs_done (sl_noise L) key n sa4 tb3"
    "length (cf_data m) = PartOneSize + unat (so_m3p2_len (sr_options q))"
    "\<And>W r. reads_infos J i W \<Longrightarrow>
       \<exists>y d. sco_Read (sl_noise L) W (sr_options q) (r\<lparr>cf_data := cf_data m\<rparr>) tb2 = Inr (y, tb3)
         \<and> ib_info (cf_info y) = Some d \<and> kv (ri_options d) = kv (ri_options i)"
    by (rule confirmed_written [OF _ _ _ _ _ _ _ _ m(1,2) id m(3) mix, of r1]) (use s r1 c in auto)
  let ?s3 = "?s2\<lparr>ss_waiting := Some WriteConfirmed, ss_scr := Some (r1\<lparr>sc_padding := sc_padding c\<rparr>), ss_sco := Some m, ss_state := sa4\<rparr>"
  have runs: "sess_run L (E 6) None [] s = ?s1" "sess_run L (E 9) None [] ?s3 = ?s3\<lparr>ss_waiting := Some WaitData\<rparr>"
    using s r(1) by (simp_all add: written_runs waited_runs)
  have "body \<noteq> []" using c(1) by auto
  then have turns: "side_step L (E 6) (body @ sc_padding c) s = Some (body @ sc_padding c, [], ?s1)"
    "side_step L (E 7) (body @ sc_padding c) ?s1 = Some (sc_padding c, [], ?s2)"
    "side_step L (E 8) (sc_padding c) ?s2 = Some ([], [], ?s3)"
    "side_step L (E 9) [] ?s3 = Some ([], cf_data m, ?s3\<lparr>ss_waiting := Some WaitData\<rparr>)"
    using s c(1) r1 w(1) runs by (simp_all add: side_defs of_msg_def NoisePayloadSize_def OptionsSize_def)
  then have l: "link_steps L [(Initiator, E 6), (Initiator, E 7), (Initiator, E 8), (Initiator, E 9)]
       \<lparr>lk_alice = s, lk_bob = t, lk_ab = [], lk_ba = body @ sc_padding c\<rparr> =
     Some \<lparr>lk_alice = s\<lparr>ss_waiting := Some WaitData, ss_scr := Some (r1\<lparr>sc_padding := sc_padding c\<rparr>), ss_sco := Some m, ss_state := sa4\<rparr>,
      lk_bob = t, lk_ab = cf_data m, lk_ba = []\<rparr>"
    by simp
  show ?thesis by (rule that [OF l _ w(3,4)]) (use w(2,5) r1(2) in auto)
qed

lemma confirmation_read:
  fixes L :: "('s, 'c) sess_lib" and t :: "('s, 'c) session"
  assumes t: "ss_waiting t = Some WaitConfirmed" "ss_role t = Responder" "ss_srq t = Some q'" "sr_options q' = opts" "ss_scr t = Some c"
    and keys: "sck_Derive (sl_noise L) (sc_ciphertext c) (sc_padding c) (ss_state t) = Inr tb2"
    and lib: "hs_done (sl_noise L) key (Suc n) sa tb3" "\<And>iv k. length (siphash (sl_dp L) iv k) = 16"
    and m: "length bytes = PartOneSize + unat (so_m3p2_len opts)" "unat (so_m3p2_len opts) \<le> MaxMsg3Pt2Size"
      "\<And>W r. reads_infos J i W \<Longrightarrow> \<exists>y d. sco_Read (sl_noise L) W opts (r\<lparr>cf_data := bytes\<rparr>) tb2 = Inr (y, tb3)
         \<and> ib_info (cf_info y) = Some d \<and> kv (ri_options d) = kv (ri_options i)"
    and key: "decoded_option ''s'' i = Inr key"
    and own: "publishable J (ss_info t)" "info_size (ss_info t) \<le> 32763"
    and E: "net_ok J i (ss_info t) E"
  obtains t' u k l l1 st len where
    "link_steps L [(Responder, E 10), (Responder, E 11), (Responder, E 12)]
       \<lparr>lk_alice = s, lk_bob = t, lk_ab = bytes, lk_ba = []\<rparr> = Some \<lparr>lk_alice = s, lk_bob = t', lk_ab = [], lk_ba = dm_buf (u :: data_message)\<rparr>"
    "ss_ready t' \<and> ss_waiting t' = None" "ss_dp t' = Some k" "ss_remote_key t' = key"
    "kdf_new (sl_noise L) (sl_dp L) Responder (Some sa) = Inr (l, st)"
    "ProcessLength (sl_dp L) (word_of_be (take 2 (dm_buf u))) BobToAlice l = Inr (len, l1)"
    "length (dm_buf u) = 2 + unat len" "16 < unat len"
    "\<And>r. dm_buf r = be_of_word len @ drop 2 (dm_buf u) \<Longrightarrow> dm_blocks r = [] \<Longrightarrow>
       \<exists>r' l' b d. dp_Read (sl_noise L) (sl_dp L) (sn_V (E 15)) Responder False r l1 = Inr (r', l')
         \<and> in_step (sl_noise L) (sl_dp L) n k l'
         \<and> dm_find_block Info r' = Some (DInfo b) \<and> ib_info b = Some d \<and> kv (ri_options d) = kv (ri_options (ss_info t))"
proof -
  have e: "reads_infos J i (sn_V (E 11))" "reads_infos J (ss_info t) (sn_V (E 15))" "be_ident (sn_U (E 11) 0) = J" "be_ident (sn_V (E 11) 0) = J"
    using E by (auto simp: net_ok_def reads_infos_def)
  obtain r where r: "sess_run L (E 10) None [] t = t\<lparr>ss_waiting := Some ReadConfirmed, ss_sco := Some r\<rparr>"
    "length (cf_data r) = length bytes"
    using confirmed_awaited [OF t(1-3), of L "E 10" "[]"] t(4) m(1,2) by metis
  obtain y d where y: "sco_Read (sl_noise L) (sn_V (E 11)) opts (r\<lparr>cf_data := bytes\<rparr>) tb2 = Inr (y, tb3)" "ib_info (cf_info y) = Some d"
    "kv (ri_options d) = kv (ri_options i)"
    using m(3) [OF e(1), of r] by blast
  have key': "decoded_option ''s'' d = Inr key" using key decoded_option_kv [OF y(3)] by simp
  obtain k l A' B' where k: "kdf_new (sl_noise L) (sl_dp L) Initiator (Some tb3) = Inr (k, B')"
    "kdf_new (sl_noise L) (sl_dp L) Responder (Some sa) = Inr (l, A')" "in_step (sl_noise L) (sl_dp L) (Suc n) k l"
    by (rule kdf_new_pair [OF lib]) blast
  let ?t1 = "t\<lparr>ss_waiting := Some ReadConfirmed, ss_sco := Some r\<rparr>"
  let ?v = "?t1\<lparr>ss_waiting := None, ss_sco := Some y, ss_state := tb3, ss_dest := Some d, ss_remote_key := key\<rparr>"
  obtain u k' i' len l1 where u:
    "DoDataPhase L (E 11) ?v = Inr (?v\<lparr>ss_waiting := Some WriteData, ss_state := B', ss_dp := Some k', ss_dp_msg := Some u, ss_info := i'\<rparr>)"
    "ProcessLength (sl_dp L) (word_of_be (take 2 (dm_buf u))) BobToAlice l = Inr (len, l1)"
    "length (dm_buf u) = 2 + unat len" "16 < unat len"
    "\<And>r. dm_buf r = be_of_word len @ drop 2 (dm_buf u) \<Longrightarrow> dm_blocks r = [] \<Longrightarrow>
       \<exists>r' l' b d. dp_Read (sl_noise L) (sl_dp L) (sn_V (E 15)) Responder False r l1 = Inr (r', l') \<and> in_step (sl_noise L) (sl_dp L) n k' l'
         \<and> dm_find_block Info r' = Some (DInfo b) \<and> ib_info b = Some d \<and> kv (ri_options d) = kv (ri_options (ss_info ?v))"
    by (rule data_written [OF k(3), where t = ?v and W = "sn_V (E 15)" and E = "E 11" and J = J and st = B'])
      (use k(1) t(2) own e in simp_all)
  let ?t2 = "?v\<lparr>ss_waiting := Some WriteData, ss_state := B', ss_dp := Some k', ss_dp_msg := Some u, ss_info := i'\<rparr>"
  have "sess_run L (E 11) None bytes ?t1 = ?t2"
    by (rule confirmed_read [where q = q' and m = c and r = r and ?tb1.0 = tb2 and ?tb2.0 = tb3 and key = key and y = y and d = d])
      (use t r keys lib(1) y key' u(1) in \<open>simp_all add: hs_done_def\<close>)
  moreover have "sess_run L (E 12) None [] ?t2 = ?t2\<lparr>ss_waiting := None, ss_ready := True\<rparr>"
    by (rule written_runs(4)) simp
  moreover have "bytes \<noteq> []" using m(1) by (auto simp: PartOneSize_def)
  ultimately have "side_step L (E 10) bytes t = Some (bytes, [], ?t1)" "side_step L (E 11) bytes ?t1 = Some ([], [], ?t2)"
    "side_step L (E 12) [] ?t2 = Some ([], dm_buf u, ?t2\<lparr>ss_waiting := None, ss_ready := True\<rparr>)"
    using t r by (simp_all add: side_defs of_msg_def)
  then have l: "link_steps L [(Responder, E 10), (Responder, E 11), (Responder, E 12)] \<lparr>lk_alice = s, lk_bob = t, lk_ab = bytes, lk_ba = []\<rparr> =
      Some \<lparr>lk_alice = s, lk_bob = ?t2\<lparr>ss_waiting := None, ss_ready := True\<rparr>, lk_ab = [], lk_ba = dm_buf u\<rparr>"
    by simp
  show ?thesis by (rule that [OF l _ _ _ k(2) u(2-4)]) (use u(5) in simp_all)
qed

lemma data_received:
  fixes L :: "('s, 'c) sess_lib" and s :: "('s, 'c) session" and u :: data_message and E :: "nat \<Rightarrow> sess_env"
  assumes s: "ss_waiting s = Some WaitData" "ss_role s = Initiator" "ss_dest s = Some d" "decoded_option ''s'' d = Inr rk"
    and k: "kdf_new (sl_noise L) (sl_dp L) Responder (Some (ss_state s)) = Inr (l, st)"
      "ProcessLength (sl_dp L) (word_of_be (take 2 (dm_buf u))) BobToAlice l = Inr (len, l1)"
      "length (dm_buf u) = 2 + unat len" "16 < unat len"
    and rd: "\<And>r. dm_buf r = be_of_word len @ drop 2 (dm_buf u) \<Longrightarrow> dm_blocks r = [] \<Longrightarrow>
       \<exists>r' l' b j. dp_Read (sl_noise L) (sl_dp L) (sn_V (E 15)) Responder False r l1 = Inr (r', l')
         \<and> in_step (sl_noise L) (sl_dp L) n kb l'
         \<and> dm_find_block Info r' = Some (DInfo b) \<and> ib_info b = Some j \<and> kv (ri_options j) = kv (ri_options d)"
  obtains s' l2 where
    "link_steps L [(Initiator, E 13), (Initiator, E 14), (Initiator, E 15)]
       \<lparr>lk_alice = s, lk_bob = t, lk_ab = [], lk_ba = dm_buf u\<rparr> = Some \<lparr>lk_alice = s', lk_bob = t, lk_ab = [], lk_ba = []\<rparr>"
    "ss_ready s' \<and> ss_waiting s' = None" "ss_dp s' = Some l2" "in_step (sl_noise L) (sl_dp L) n kb l2"
proof -
  let ?h = "take 2 (dm_buf u)" and ?b = "drop 2 (dm_buf u)"
  let ?s1 = "s\<lparr>ss_waiting := Some ReadDataLength, ss_dp_msg := Some \<lparr>dm_blocks = [], dm_buf = sec_resize MsgMaxLen []\<rparr>\<rparr>"
  have n0: "len \<noteq> 0" using k(4) by auto
  obtain b where b: "sess_run L (E 14) None ?h ?s1 = ?s1\<lparr>ss_waiting := Some (ReadData len), ss_state := st, ss_dp := Some l1,
      ss_dp_msg := Some (\<lparr>dm_blocks = [], dm_buf = sec_resize MsgMaxLen []\<rparr>\<lparr>dm_buf := b\<rparr>)\<rparr>" "length b = 2 + unat len"
    by (rule data_length_read [where s = ?s1 and m = "\<lparr>dm_blocks = [], dm_buf = sec_resize MsgMaxLen []\<rparr>" and l = l and len = len and ?l1.0 = l1
        and bytes = ?h and E = "E 14"])
      (use k n0 in \<open>simp_all add: dm_sizes\<close>)
  let ?s2 = "?s1\<lparr>ss_waiting := Some (ReadData len), ss_state := st, ss_dp := Some l1, ss_dp_msg := Some \<lparr>dm_blocks = [], dm_buf = b\<rparr>\<rparr>"
  obtain r l2 x j where r: "dp_Read (sl_noise L) (sl_dp L) (sn_V (E 15)) Responder False
      (\<lparr>dm_blocks = [], dm_buf = b\<rparr>\<lparr>dm_buf := be_of_word len @ ?b\<rparr>) l1 = Inr (r, l2)" "in_step (sl_noise L) (sl_dp L) n kb l2"
    "dm_find_block Info r = Some (DInfo x)" "ib_info x = Some j" "kv (ri_options j) = kv (ri_options d)"
    using rd [of "\<lparr>dm_blocks = [], dm_buf = b\<rparr>\<lparr>dm_buf := be_of_word len @ ?b\<rparr>"] by auto
  let ?s3 = "?s2\<lparr>ss_waiting := None, ss_ready := True, ss_dp := Some l2, ss_dp_msg := Some r\<rparr>"
  have "sess_run L (E 15) None ?b ?s2 = ?s3"
    by (rule data_read [OF _ _ _ _ _ _ r(1,3-5) s(4)]) (use s(3) b(2) k(3) in simp_all)
  moreover have "sess_run L (E 13) None [] s = ?s1" by (rule waited_runs(3) [OF s(1,2)])
  moreover have "dm_buf u \<noteq> []" "\<not> length (dm_buf u) < SizeLen" "\<not> length ?b < unat len" "take SizeLen (dm_buf u) = ?h"
    "drop SizeLen (dm_buf u) = ?b" "take (unat len) ?b = ?b" "drop (unat len) ?b = []"
    using k(3) by (auto simp: SizeLen_def)
  ultimately have "side_step L (E 13) (dm_buf u) s = Some (dm_buf u, [], ?s1)" "side_step L (E 14) (dm_buf u) ?s1 = Some (?b, [], ?s2)"
    "side_step L (E 15) ?b ?s2 = Some ([], [], ?s3)"
    using s(1) b(1) by (simp_all add: side_defs del: take_eq_Nil)
  then have l: "link_steps L [(Initiator, E 13), (Initiator, E 14), (Initiator, E 15)]
       \<lparr>lk_alice = s, lk_bob = t, lk_ab = [], lk_ba = dm_buf u\<rparr> = Some \<lparr>lk_alice = ?s3, lk_bob = t, lk_ab = [], lk_ba = []\<rparr>"
    by simp
  show ?thesis by (rule that [OF l _ _ r(2)]) simp_all
qed

text \<open>Whose turn it is: sixteen completions.\<close>

definition handshake_turns :: "(nat \<Rightarrow> sess_env) \<Rightarrow> (role \<times> sess_env) list" where
  "handshake_turns E =
     [(Initiator, E 0), (Initiator, E 1), (Responder, E 2), (Responder, E 3), (Responder, E 4), (Responder, E 5)]
     @ [(Initiator, E 6), (Initiator, E 7), (Initiator, E 8), (Initiator, E 9)]
     @ [(Responder, E 10), (Responder, E 11), (Responder, E 12)]
     @ [(Initiator, E 13), (Initiator, E 14), (Initiator, E 15)]"

text \<open>The same, by side: the environments of a side's completions in the order it makes them.\<close>

definition initiator_envs :: "(nat \<Rightarrow> sess_env) \<Rightarrow> nat \<Rightarrow> sess_env" where
  "initiator_envs E i = E (if i < 9 then [0, 1, 6, 7, 8, 9, 13, 14, 15] ! i else 0)"

definition responder_envs :: "(nat \<Rightarrow> sess_env) \<Rightarrow> nat \<Rightarrow> sess_env" where
  "responder_envs E j = E (if j < 7 then [2, 3, 4, 5, 10, 11, 12] ! j else 0)"

lemma handshake_envs:
  "k < 9 \<Longrightarrow> initiator_envs E k = turn_envs Initiator (handshake_turns E) ! k"
  "k < 7 \<Longrightarrow> responder_envs E k = turn_envs Responder (handshake_turns E) ! k"
  by (auto simp: initiator_envs_def responder_envs_def turn_envs_def handshake_turns_def less_Suc_eq numeral_eq_Suc)

lemma handshake_fair:
  assumes "link_steps L (handshake_turns E) l = Some m" "\<And>r F. link_step L r F m = None" "fair \<sigma>"
  shows "\<exists>N. \<forall>n\<ge>N. schedule (sched_step L (initiator_envs E) (responder_envs E)) (map \<sigma> [0..<n]) (0, 0, l) = (9, 7, m)"
proof -
  have n: "length (turn_envs Initiator (handshake_turns E)) = 9" "length (turn_envs Responder (handshake_turns E)) = 7"
    by (simp_all add: turn_envs_def handshake_turns_def)
  have "settles (sched_step L (initiator_envs E) (responder_envs E)) (length (handshake_turns E)) (0, 0, l) (9, 7, m)"
    using link_steps_settle [OF assms(1), of "initiator_envs E" 0 "responder_envs E" 0] handshake_envs assms(2) n by simp
  then show ?thesis by (rule link_sides.fair_settles [OF _ assms(3)])
qed

text \<open>
  Two sessions that were started, and what the initiator must know of the responder. The initiator
  takes its static keys from the identity of the destination: the key that the responder then finds
  is the one that belongs to those, and it must be the one in the initiator's router info.
\<close>

definition opened :: "('s, 'c) sess_lib \<Rightarrow> byte list \<Rightarrow> nat \<Rightarrow> ('s, 'c) session \<Rightarrow> ('s, 'c) session \<Rightarrow> bool" where
  "opened L key n s t \<longleftrightarrow>
     (\<exists>d s1 sa t1 tb. ss_dest s = Some d
        \<and> set_id_keys L (ri_identity d) (ss_state s) = Inr s1 \<and> srk_Derive_key (sl_noise L) (ss_remote_key s) s1 = Inr sa
        \<and> set_id_keys L (ri_identity (ss_info t)) (ss_state t) = Inr t1 \<and> srk_Derive (sl_noise L) t1 = Inr tb
        \<and> hs_chain (sl_noise L) key n sa tb)"

definition knows :: "info \<Rightarrow> info \<Rightarrow> bool" where
  "knows d j \<longleftrightarrow> id_hash (ri_identity d) = id_hash (ri_identity j) \<and> kv (ri_options d) = kv (ri_options j)"

lemma confirmation_arrives:
  fixes L :: "('s, 'c) sess_lib" and s t :: "('s, 'c) session"
  assumes s: "ss_waiting s = Some Connecting" "ss_role s = Initiator" "ss_dest s = Some d" "ss_sco s = Some sco"
    and t: "ss_waiting t = Some WaitRequest" "ss_role t = Responder" "ss_iv t = ss_iv s"
    and lib: "cbc_ok (sl_aes L)" "opened L key n s t"
    and m: "conf_of J i p sco" "conf_fits i p"
    and own: "knows d (ss_info t)" and E: "net_ok J i (ss_info t) E"
  obtains s4 t4 bytes opts q' c tb2 tb3 where
    "link_steps L ([(Initiator, E 0), (Initiator, E 1), (Responder, E 2), (Responder, E 3), (Responder, E 4), (Responder, E 5)]
       @ [(Initiator, E 6), (Initiator, E 7), (Initiator, E 8), (Initiator, E 9)])
       \<lparr>lk_alice = s, lk_bob = t, lk_ab = [], lk_ba = []\<rparr> = Some \<lparr>lk_alice = s4, lk_bob = t4, lk_ab = bytes, lk_ba = []\<rparr>"
    "ss_waiting s4 = Some WaitData" "ss_role s4 = Initiator" "ss_dest s4 = Some d" "ss_ready s4 = ss_ready s"
    "ss_waiting t4 = Some WaitConfirmed" "ss_role t4 = Responder" "ss_srq t4 = Some q'" "sr_options q' = opts" "ss_scr t4 = Some c"
    "ss_info t4 = ss_info t" "ss_ready t4 = ss_ready t"
    "sck_Derive (sl_noise L) (sc_ciphertext c) (sc_padding c) (ss_state t4) = Inr tb2" "hs_done (sl_noise L) key n (ss_state s4) tb3"
    "length bytes = PartOneSize + unat (so_m3p2_len opts)" "unat (so_m3p2_len opts) \<le> MaxMsg3Pt2Size"
    "\<And>W r. reads_infos J i W \<Longrightarrow> \<exists>y d. sco_Read (sl_noise L) W opts (r\<lparr>cf_data := bytes\<rparr>) tb2 = Inr (y, tb3)
       \<and> ib_info (cf_info y) = Some d \<and> kv (ri_options d) = kv (ri_options i)"
proof -
  obtain s1 sa t1 tb where keys: "set_id_keys L (ri_identity d) (ss_state s) = Inr s1" "srk_Derive_key (sl_noise L) (ss_remote_key s) s1 = Inr sa"
    "set_id_keys L (ri_identity (ss_info t)) (ss_state t) = Inr t1" "srk_Derive (sl_noise L) t1 = Inr tb"
    and chain: "hs_chain (sl_noise L) key n sa tb"
    using lib(2) s(3) by (auto simp: opened_def)
  obtain j where "publishable J j" "published i j" using m(1) by (auto simp: conf_of_def info_block_of_def)
  then have sz: "MinMsg3Pt2Size \<le> unat (cf_payload_size sco)" "unat (cf_payload_size sco) \<le> MaxMsg3Pt2Size"
    using block_sizes_of(7) [OF m(1,2)] m(2)
    by (auto simp: conf_fits_def cf_sizes sr_sizes publishable_def published_def MinInfoLen_def)
  have hash: "id_hash (ri_identity (ss_info t)) = id_hash (ri_identity d)"
    using own(1) by (simp_all add: knows_def)
  obtain q q' c r sa1 sa2 sa3 tb1 body x host where a: "link_steps L [(Initiator, E 0), (Initiator, E 1), (Responder, E 2), (Responder, E 3), (Responder, E 4), (Responder, E 5)]
       \<lparr>lk_alice = s, lk_bob = t, lk_ab = [], lk_ba = []\<rparr> =
     Some \<lparr>lk_alice = s\<lparr>ss_waiting := Some WaitCreated, ss_srq := Some q, ss_state := sa1, ss_connect_key := host\<rparr>,
      lk_bob = t\<lparr>ss_waiting := Some WaitConfirmed, ss_srq := Some q', ss_scr := Some c, ss_state := tb1\<rparr>,
      lk_ab = [], lk_ba = body @ sc_padding c\<rparr>"
    "so_m3p2_len (sr_options q) = cf_payload_size sco" "sr_options q' = sr_options q"
    "sck_Derive (sl_noise L) (sr_ciphertext q) (sr_padding q) sa1 = Inr sa2"
    "sc_default (sn_now (E 6)) (sn_drawn (E 6)) (sn_rng (E 6)) = Inr r" "length (sc_data r) = 64"
    "scr_Read (sl_noise L) (sl_aes L) (sn_now (E 7)) (aes_new (id_hash (ri_identity d)) (ss_iv s)) (r\<lparr>sc_data := body\<rparr>) sa2 =
       Inr (r\<lparr>sc_data := x, sc_options := sc_options c, sc_ciphertext := sc_ciphertext c\<rparr>, sa3)"
    "length body = 64" "sc_padding c \<noteq> []" "length (sc_padding c) = unat (co_pad_len (sc_options c))" "sc_ciphertext c \<noteq> []"
    "hs_third (sl_noise L) key n tb1 sa3"
    by (rule requests_exchanged [OF s t hash keys lib(1) chain E sz]) blast
  let ?s = "s\<lparr>ss_waiting := Some WaitCreated, ss_srq := Some q, ss_state := sa1, ss_connect_key := host\<rparr>"
  let ?t = "t\<lparr>ss_waiting := Some WaitConfirmed, ss_srq := Some q', ss_scr := Some c, ss_state := tb1\<rparr>"
  obtain c' m sa4 tb2 tb3 where b: "link_steps L [(Initiator, E 6), (Initiator, E 7), (Initiator, E 8), (Initiator, E 9)]
       \<lparr>lk_alice = ?s, lk_bob = ?t, lk_ab = [], lk_ba = body @ sc_padding c\<rparr> =
     Some \<lparr>lk_alice = ?s\<lparr>ss_waiting := Some WaitData, ss_scr := Some c', ss_sco := Some m, ss_state := sa4\<rparr>, lk_bob = ?t,
      lk_ab = cf_data m, lk_ba = []\<rparr>"
    "sck_Derive (sl_noise L) (sc_ciphertext c) (sc_padding c) tb1 = Inr tb2" "hs_done (sl_noise L) key n sa4 tb3"
    "length (cf_data m) = PartOneSize + unat (so_m3p2_len (sr_options q))"
    "\<And>W r. reads_infos J i W \<Longrightarrow>
       \<exists>y d. sco_Read (sl_noise L) W (sr_options q) (r\<lparr>cf_data := cf_data m\<rparr>) tb2 = Inr (y, tb3)
         \<and> ib_info (cf_info y) = Some d \<and> kv (ri_options d) = kv (ri_options i)"
    by (rule confirmation_sent [where s = ?s and t = ?t and q = q and d = d and sco = sco and ?sa2.0 = sa2 and r = r and body = body
          and x = x and c = c and ?sa3.0 = sa3 and E = E, OF _ _ _ _ _ _ a(5,6) _ a(8-12) m(1,2) a(2) E])
      (use s a(4,7) in simp_all)
  let ?s4 = "?s\<lparr>ss_waiting := Some WaitData, ss_scr := Some c', ss_sco := Some m, ss_state := sa4\<rparr>"
  have l: "link_steps L ([(Initiator, E 0), (Initiator, E 1), (Responder, E 2), (Responder, E 3), (Responder, E 4), (Responder, E 5)]
       @ [(Initiator, E 6), (Initiator, E 7), (Initiator, E 8), (Initiator, E 9)])
       \<lparr>lk_alice = s, lk_bob = t, lk_ab = [], lk_ba = []\<rparr> = Some \<lparr>lk_alice = ?s4, lk_bob = ?t, lk_ab = cf_data m, lk_ba = []\<rparr>"
    by (rule link_steps_join [OF a(1) b(1)])
  show ?thesis
    by (rule that [OF l _ _ _ _ _ _ _ a(3) _ _ _ _ _ b(4) _ b(5)]) (use s t a(2) b(2,3) sz in simp_all)
qed

lemma handshake:
  fixes L :: "('s, 'c) sess_lib" and s t :: "('s, 'c) session"
  assumes s: "ss_waiting s = Some Connecting" "ss_role s = Initiator" "ss_dest s = Some d" "ss_sco s = Some sco"
      "decoded_option ''s'' d = Inr rk"
    and t: "ss_waiting t = Some WaitRequest" "ss_role t = Responder" "ss_iv t = ss_iv s"
    and lib: "cbc_ok (sl_aes L)" "opened L key (Suc n) s t" "\<And>iv k. length (siphash (sl_dp L) iv k) = 16"
    and m: "conf_of J i p sco" "conf_fits i p" "decoded_option ''s'' i = Inr key"
    and own: "knows d (ss_info t)" "publishable J (ss_info t)" "info_size (ss_info t) \<le> 32763"
    and E: "net_ok J i (ss_info t) E"
  obtains s' t' k l where
    "link_steps L (handshake_turns E) \<lparr>lk_alice = s, lk_bob = t, lk_ab = [], lk_ba = []\<rparr> =
       Some \<lparr>lk_alice = s', lk_bob = t', lk_ab = [], lk_ba = []\<rparr>"
    "ss_ready s'" "ss_ready t'" "ss_remote_key t' = key" "ss_dp t' = Some k" "ss_dp s' = Some l"
    "in_step (sl_noise L) (sl_dp L) n k l" "ss_waiting s' = None" "ss_waiting t' = None"
proof -
  obtain s4 t4 bytes opts q' c tb2 tb3 where a:
    "link_steps L ([(Initiator, E 0), (Initiator, E 1), (Responder, E 2), (Responder, E 3), (Responder, E 4), (Responder, E 5)]
       @ [(Initiator, E 6), (Initiator, E 7), (Initiator, E 8), (Initiator, E 9)])
       \<lparr>lk_alice = s, lk_bob = t, lk_ab = [], lk_ba = []\<rparr> = Some \<lparr>lk_alice = s4, lk_bob = t4, lk_ab = bytes, lk_ba = []\<rparr>"
    and s4: "ss_waiting s4 = Some WaitData" "ss_role s4 = Initiator" "ss_dest s4 = Some d"
    and t4: "ss_waiting t4 = Some WaitConfirmed" "ss_role t4 = Responder" "ss_srq t4 = Some q'" "sr_options q' = opts" "ss_scr t4 = Some c"
      "ss_info t4 = ss_info t"
    and f: "sck_Derive (sl_noise L) (sc_ciphertext c) (sc_padding c) (ss_state t4) = Inr tb2"
      "hs_done (sl_noise L) key (Suc n) (ss_state s4) tb3"
      "length bytes = PartOneSize + unat (so_m3p2_len opts)" "unat (so_m3p2_len opts) \<le> MaxMsg3Pt2Size"
      "\<And>W r. reads_infos J i W \<Longrightarrow> \<exists>y d. sco_Read (sl_noise L) W opts (r\<lparr>cf_data := bytes\<rparr>) tb2 = Inr (y, tb3)
         \<and> ib_info (cf_info y) = Some d \<and> kv (ri_options d) = kv (ri_options i)"
    by (rule confirmation_arrives [OF s(1-4) t lib(1,2) m(1,2) own(1) E]) blast
  obtain t' u k l l1 st len where e: "link_steps L [(Responder, E 10), (Responder, E 11), (Responder, E 12)]
       \<lparr>lk_alice = s4, lk_bob = t4, lk_ab = bytes, lk_ba = []\<rparr> = Some \<lparr>lk_alice = s4, lk_bob = t', lk_ab = [], lk_ba = dm_buf (u :: data_message)\<rparr>"
    "ss_ready t' \<and> ss_waiting t' = None" "ss_dp t' = Some k" "ss_remote_key t' = key"
    "kdf_new (sl_noise L) (sl_dp L) Responder (Some (ss_state s4)) = Inr (l, st)"
    "ProcessLength (sl_dp L) (word_of_be (take 2 (dm_buf u))) BobToAlice l = Inr (len, l1)"
    "length (dm_buf u) = 2 + unat len" "16 < unat len"
    "\<And>r. dm_buf r = be_of_word len @ drop 2 (dm_buf u) \<Longrightarrow> dm_blocks r = [] \<Longrightarrow>
       \<exists>r' l' b d. dp_Read (sl_noise L) (sl_dp L) (sn_V (E 15)) Responder False r l1 = Inr (r', l')
         \<and> in_step (sl_noise L) (sl_dp L) n k l'
         \<and> dm_find_block Info r' = Some (DInfo b) \<and> ib_info b = Some d \<and> kv (ri_options d) = kv (ri_options (ss_info t4))"
    by (rule confirmation_read [OF t4(1-5) f(1,2) lib(3) f(3-5) m(3), where s = s4 and E = E]) (use own E t4(6) in simp_all)
  obtain s' l2 where g: "link_steps L [(Initiator, E 13), (Initiator, E 14), (Initiator, E 15)]
       \<lparr>lk_alice = s4, lk_bob = t', lk_ab = [], lk_ba = dm_buf u\<rparr> = Some \<lparr>lk_alice = s', lk_bob = t', lk_ab = [], lk_ba = []\<rparr>"
    "ss_ready s' \<and> ss_waiting s' = None" "ss_dp s' = Some l2" "in_step (sl_noise L) (sl_dp L) n k l2"
    by (rule data_received [OF s4 s(5) e(5-8), where t = t' and E = E and n = n and kb = k])
      (use e(9) own(1) t4(6) in \<open>simp_all add: knows_def\<close>)
  have "link_steps L (handshake_turns E) \<lparr>lk_alice = s, lk_bob = t, lk_ab = [], lk_ba = []\<rparr> =
       Some \<lparr>lk_alice = s', lk_bob = t', lk_ab = [], lk_ba = []\<rparr>"
    using link_steps_join [OF link_steps_join [OF a e(1)] g(1)] by (simp only: handshake_turns_def append_assoc)
  then show ?thesis by (rule that [OF _ _ _ e(4,3) g(3,4)]) (use e(2) g(2) in simp_all)
qed

text \<open>The sessions as their constructors and their starts leave them.\<close>

lemma sess_out_started:
  assumes o: "sess_out L U (Some d) (Some i) = Inr s0" "sess_start L V p s0 = Inr s"
    and i: "publishable J i" "conf_fits i (unat (sn_drawn U))" "\<forall>k. be_ident (sn_U U k) = J" "\<forall>k. be_ident (sn_V U k) = J"
  obtains sco rk iv where "ss_waiting s = Some Connecting" "ss_role s = Initiator" "ss_dest s = Some d" "ss_sco s = Some sco"
    "decoded_option ''s'' d = Inr rk" "conf_of J i (unat (sn_drawn U)) sco" "bindr (decoded_option ''i'' d) (first_bytes 16) = Inr iv"
    "ss_iv s = iv" "\<not> ss_ready s" "ss_remote_key s = take 32 rk" "ss_dp s = None"
proof -
  obtain m where m: "cf_of_info_drawn (sn_U U) (sn_V U) (Some i) (sn_drawn U) = Inr m" "conf_of J i (unat (sn_drawn U)) m"
    by (rule cf_of_info_of [OF i]) blast
  show ?thesis
    using o m that by (auto simp: sess_out_def Let_def result_simps sess_members_def sess_start_def sess_connect_def awaiting_def
        deref_def first_bytes_def split: option.splits if_splits)
qed

lemma sess_in_started:
  assumes "sess_in L (Some j) = Inr t0" "sess_start L V p t0 = Inr t"
  shows "ss_waiting t = Some WaitRequest \<and> ss_role t = Responder \<and> ss_info t = j \<and> \<not> ss_ready t
    \<and> bindr (decoded_option ''i'' j) (first_bytes 16) = Inr (ss_iv t) \<and> ss_dp t = None"
  using assms by (auto simp: sess_in_def Let_def result_simps sess_members_def sess_start_def HandleSessionRequest_def
      CalculateConnectKey_def awaiting_def)

theorem handshake_started:
  fixes L :: "('s, 'c) sess_lib"
  assumes made: "sess_out L U (Some d) (Some i) = Inr s0" "sess_start L V p s0 = Inr s"
      "sess_in L (Some j) = Inr t0" "sess_start L W p' t0 = Inr t"
    and i: "publishable J i" "conf_fits i (unat (sn_drawn U))" "\<forall>k. be_ident (sn_U U k) = J" "\<forall>k. be_ident (sn_V U k) = J"
    and j: "publishable J j" "info_size j \<le> 32763" "knows d j"
    and lib: "cbc_ok (sl_aes L)" "\<And>iv k. length (siphash (sl_dp L) iv k) = 16"
    and E: "net_ok J i j E"
    and key: "opened L key (Suc n) s t" "decoded_option ''s'' i = Inr key"
  obtains s' t' k l where
    "link_steps L (handshake_turns E) \<lparr>lk_alice = s, lk_bob = t, lk_ab = [], lk_ba = []\<rparr> =
       Some \<lparr>lk_alice = s', lk_bob = t', lk_ab = [], lk_ba = []\<rparr>"
    "ss_ready s'" "ss_ready t'" "ss_remote_key t' = key" "ss_dp t' = Some k" "ss_dp s' = Some l"
    "in_step (sl_noise L) (sl_dp L) n k l" "ss_waiting s' = None" "ss_waiting t' = None"
proof -
  obtain sco rk iv where s: "ss_waiting s = Some Connecting" "ss_role s = Initiator" "ss_dest s = Some d" "ss_sco s = Some sco"
    "decoded_option ''s'' d = Inr rk" "conf_of J i (unat (sn_drawn U)) sco" "bindr (decoded_option ''i'' d) (first_bytes 16) = Inr iv"
    "ss_iv s = iv"
    by (rule sess_out_started [OF made(1,2) i]) blast
  note t = sess_in_started [OF made(3,4)]
  have iv: "ss_iv t = ss_iv s"
    using t s(7,8) decoded_option_kv [of d j] j(3) by (auto simp: knows_def)
  have own: "knows d (ss_info t)" "publishable J (ss_info t)" "info_size (ss_info t) \<le> 32763" "net_ok J i (ss_info t) E"
    using t j E by simp_all
  show ?thesis
    by (rule handshake [OF s(1-5) _ _ iv lib(1) key(1) lib(2) s(6) i(2) key(2) own]) (use t that in auto)
qed

section \<open>Refused\<close>

text \<open>
  The same run with a router info that does not carry the key that the responder finds: nothing is
  ever sent to the initiator any more, whatever happens, and neither side becomes ready.
\<close>

definition refused_turns :: "(nat \<Rightarrow> sess_env) \<Rightarrow> (role \<times> sess_env) list" where
  "refused_turns E =
     ([(Initiator, E 0), (Initiator, E 1), (Responder, E 2), (Responder, E 3), (Responder, E 4), (Responder, E 5)]
      @ [(Initiator, E 6), (Initiator, E 7), (Initiator, E 8), (Initiator, E 9)])
     @ [(Responder, E 10), (Responder, E 11)]"

lemma refused_envs:
  "k < 6 \<Longrightarrow> initiator_envs E k = turn_envs Initiator (refused_turns E) ! k"
  "k < 6 \<Longrightarrow> responder_envs E k = turn_envs Responder (refused_turns E) ! k"
  by (auto simp: initiator_envs_def responder_envs_def turn_envs_def refused_turns_def less_Suc_eq numeral_eq_Suc)

lemma refused_fair:
  assumes "link_steps L (refused_turns E) l = Some m" "\<And>r F. link_step L r F m = None" "fair \<sigma>"
  shows "\<exists>N. \<forall>n\<ge>N. schedule (sched_step L (initiator_envs E) (responder_envs E)) (map \<sigma> [0..<n]) (0, 0, l) = (6, 6, m)"
proof -
  have n: "length (turn_envs Initiator (refused_turns E)) = 6" "length (turn_envs Responder (refused_turns E)) = 6"
    by (simp_all add: turn_envs_def refused_turns_def)
  have "settles (sched_step L (initiator_envs E) (responder_envs E)) (length (refused_turns E)) (0, 0, l) (6, 6, m)"
    using link_steps_settle [OF assms(1), of "initiator_envs E" 0 "responder_envs E" 0] refused_envs assms(2) n by simp
  then show ?thesis by (rule link_sides.fair_settles [OF _ assms(3)])
qed

lemma confirmed_refused:
  assumes t: "ss_waiting t = Some ReadConfirmed" "ss_role t = Responder" "ss_srq t = Some q" "ss_scr t = Some m" "ss_sco t = Some r"
      "length (cf_data r) = length bytes"
    and keys: "sck_Derive (sl_noise L) (sc_ciphertext m) (sc_padding m) (ss_state t) = Inr tb1"
      "hs_remote_public (sl_noise L) tb2 = Some (Inr key)"
    and rd: "sco_Read (sl_noise L) (sn_V E) (sr_options q) (r\<lparr>cf_data := bytes\<rparr>) tb1 = Inr (y, tb2)"
      "ib_info (cf_info y) = Some d" "decoded_option ''s'' d = Inr key'"
    and ne: "key' \<noteq> key" "length key' = length key"
  shows "sess_run L E None bytes t =
    t\<lparr>ss_waiting := None, ss_sco := Some y, ss_state := tb2, ss_dest := Some d, ss_remote_key := key\<rparr>"
proof -
  let ?t = "t\<lparr>ss_waiting := None\<rparr>"
  let ?v = "?t\<lparr>ss_sco := Some y, ss_state := tb2, ss_dest := Some d, ss_remote_key := key\<rparr>"
  have o: "overwrite 0 bytes (cf_data r) = bytes" using t(6) by (simp add: overwrite_def)
  have g: "got_confirmed L E bytes ?t = Inr (key', ?v)"
    using t keys rd by (simp add: got_confirmed_def deref_def sco_new_def sck_new_def sco_ProcessMessage_def o
        get_remote_public_key_def noise_dh_def)
  have "\<exists>e. check_static_key L E key' ?v = Inl (Throw Logic_error e)"
    using ne by (simp add: check_static_key_def equal_prefix_def throw_ex_eq thrown_def)
  then show ?thesis
    using t(1,2) g by (auto simp: sess_run_def sess_complete_def kept_def Let_def sess_handler_def)
qed

text \<open>A side that waits for the other one, and one that waits for nothing.\<close>

lemma idle_steps:
  assumes "ss_waiting (lk_alice l) = None \<or> ss_waiting (lk_alice l) = Some WaitData \<and> lk_ba l = []" "ss_waiting (lk_bob l) = None"
  shows "link_step L r E l = None"
  using assms by (cases r) (auto simp: side_defs)

lemma idle_turns:
  assumes "\<And>r E. link_step L r E l = None"
  shows "link_turns L ts l = l"
  using assms by (induction ts) (auto simp del: link_step.simps)

lemma handshake_refused:
  fixes L :: "('s, 'c) sess_lib" and s t :: "('s, 'c) session"
  assumes s: "ss_waiting s = Some Connecting" "ss_role s = Initiator" "ss_dest s = Some d" "ss_sco s = Some sco" "\<not> ss_ready s"
    and t: "ss_waiting t = Some WaitRequest" "ss_role t = Responder" "ss_iv t = ss_iv s" "\<not> ss_ready t"
    and lib: "cbc_ok (sl_aes L)" "opened L key n s t"
    and m: "conf_of J i p sco" "conf_fits i p"
    and own: "knows d (ss_info t)" and E: "net_ok J i (ss_info t) E"
    and key: "decoded_option ''s'' i = Inr key'" "key' \<noteq> key" "length key' = length key"
  obtains s' t' where
    "link_steps L (refused_turns E) \<lparr>lk_alice = s, lk_bob = t, lk_ab = [], lk_ba = []\<rparr> =
       Some \<lparr>lk_alice = s', lk_bob = t', lk_ab = [], lk_ba = []\<rparr>"
    "ss_waiting s' = Some WaitData" "ss_waiting t' = None" "\<not> ss_ready s'" "\<not> ss_ready t'"
proof -
  obtain s4 t4 bytes opts q' c tb2 tb3 where a:
    "link_steps L ([(Initiator, E 0), (Initiator, E 1), (Responder, E 2), (Responder, E 3), (Responder, E 4), (Responder, E 5)]
       @ [(Initiator, E 6), (Initiator, E 7), (Initiator, E 8), (Initiator, E 9)])
       \<lparr>lk_alice = s, lk_bob = t, lk_ab = [], lk_ba = []\<rparr> = Some \<lparr>lk_alice = s4, lk_bob = t4, lk_ab = bytes, lk_ba = []\<rparr>"
    and s4: "ss_waiting s4 = Some WaitData" "\<not> ss_ready s4"
    and t4: "ss_waiting t4 = Some WaitConfirmed" "ss_role t4 = Responder" "ss_srq t4 = Some q'" "sr_options q' = opts" "ss_scr t4 = Some c"
      "\<not> ss_ready t4"
    and f: "sck_Derive (sl_noise L) (sc_ciphertext c) (sc_padding c) (ss_state t4) = Inr tb2"
      "hs_done (sl_noise L) key n (ss_state s4) tb3"
      "length bytes = PartOneSize + unat (so_m3p2_len opts)" "unat (so_m3p2_len opts) \<le> MaxMsg3Pt2Size"
      "\<And>W r. reads_infos J i W \<Longrightarrow> \<exists>y d. sco_Read (sl_noise L) W opts (r\<lparr>cf_data := bytes\<rparr>) tb2 = Inr (y, tb3)
         \<and> ib_info (cf_info y) = Some d \<and> kv (ri_options d) = kv (ri_options i)"
    by (rule confirmation_arrives [OF s(1-4) t(1-3) lib m own E]) (use s(5) t(4) in blast)
  have e: "reads_infos J i (sn_V (E 11))" using E by (simp add: net_ok_def)
  obtain r where r: "sess_run L (E 10) None [] t4 = t4\<lparr>ss_waiting := Some ReadConfirmed, ss_sco := Some r\<rparr>"
    "length (cf_data r) = length bytes"
    using confirmed_awaited [OF t4(1-3), of L "E 10" "[]"] t4(4) f(3,4) by metis
  obtain y j where y: "sco_Read (sl_noise L) (sn_V (E 11)) opts (r\<lparr>cf_data := bytes\<rparr>) tb2 = Inr (y, tb3)" "ib_info (cf_info y) = Some j"
    "kv (ri_options j) = kv (ri_options i)"
    using f(5) [OF e, of r] by blast
  let ?t1 = "t4\<lparr>ss_waiting := Some ReadConfirmed, ss_sco := Some r\<rparr>"
  let ?t2 = "?t1\<lparr>ss_waiting := None, ss_sco := Some y, ss_state := tb3, ss_dest := Some j, ss_remote_key := key\<rparr>"
  have "sess_run L (E 11) None bytes ?t1 = ?t2"
    by (rule confirmed_refused [where q = q' and m = c and r = r and ?tb1.0 = tb2 and ?tb2.0 = tb3 and key = key and y = y and d = j
          and key' = key'])
      (use t4 r f(1,2) y(1,2) key decoded_option_kv [OF y(3)] in \<open>simp_all add: hs_done_def\<close>)
  moreover have "bytes \<noteq> []" using f(3) by (auto simp: PartOneSize_def)
  ultimately have "side_step L (E 10) bytes t4 = Some (bytes, [], ?t1)" "side_step L (E 11) bytes ?t1 = Some ([], [], ?t2)"
    using t4(1) r by (simp_all add: side_defs of_msg_def)
  then have l: "link_steps L [(Responder, E 10), (Responder, E 11)] \<lparr>lk_alice = s4, lk_bob = t4, lk_ab = bytes, lk_ba = []\<rparr> =
      Some \<lparr>lk_alice = s4, lk_bob = ?t2, lk_ab = [], lk_ba = []\<rparr>"
    by simp
  have "link_steps L (refused_turns E) \<lparr>lk_alice = s, lk_bob = t, lk_ab = [], lk_ba = []\<rparr> =
       Some \<lparr>lk_alice = s4, lk_bob = ?t2, lk_ab = [], lk_ba = []\<rparr>"
    unfolding refused_turns_def by (rule link_steps_join [OF a l])
  then show ?thesis by (rule that) (use s4 t4(6) in simp_all)
qed

theorem strangers_refused:
  fixes L :: "('s, 'c) sess_lib"
  assumes made: "sess_out L U (Some d) (Some i) = Inr s0" "sess_start L V p s0 = Inr s"
      "sess_in L (Some j) = Inr t0" "sess_start L W p' t0 = Inr t"
    and i: "publishable J i" "conf_fits i (unat (sn_drawn U))" "\<forall>k. be_ident (sn_U U k) = J" "\<forall>k. be_ident (sn_V U k) = J"
    and j: "knows d j" and lib: "cbc_ok (sl_aes L)" and E: "net_ok J i j E"
    and key: "opened L key n s t" "decoded_option ''s'' i = Inr key'" "key' \<noteq> key" "length key' = length key"
  shows "\<exists>l. link_turns L (handshake_turns E) \<lparr>lk_alice = s, lk_bob = t, lk_ab = [], lk_ba = []\<rparr> = l
    \<and> (\<forall>\<sigma>. fair \<sigma> \<longrightarrow> (\<exists>N. \<forall>n\<ge>N. schedule (sched_step L (initiator_envs E) (responder_envs E)) (map \<sigma> [0..<n])
          (0, 0, \<lparr>lk_alice = s, lk_bob = t, lk_ab = [], lk_ba = []\<rparr>) = (6, 6, l)))
    \<and> (\<forall>ts. link_turns L ts l = l) \<and> \<not> ss_ready (lk_alice l) \<and> \<not> ss_ready (lk_bob l)"
proof -
  obtain sco rk iv where s: "ss_waiting s = Some Connecting" "ss_role s = Initiator" "ss_dest s = Some d" "ss_sco s = Some sco"
    "conf_of J i (unat (sn_drawn U)) sco" "bindr (decoded_option ''i'' d) (first_bytes 16) = Inr iv" "ss_iv s = iv" "\<not> ss_ready s"
    by (rule sess_out_started [OF made(1,2) i]) blast
  note t = sess_in_started [OF made(3,4)]
  have iv: "ss_iv t = ss_iv s"
    using t s(6,7) decoded_option_kv [of d j] j by (auto simp: knows_def)
  have own: "knows d (ss_info t)" "net_ok J i (ss_info t) E" using t j E by simp_all
  let ?l = "\<lparr>lk_alice = s, lk_bob = t, lk_ab = [], lk_ba = []\<rparr>"
  obtain s' t' where l: "link_steps L (refused_turns E) ?l = Some \<lparr>lk_alice = s', lk_bob = t', lk_ab = [], lk_ba = []\<rparr>"
    "ss_waiting s' = Some WaitData" "ss_waiting t' = None" "\<not> ss_ready s'" "\<not> ss_ready t'"
    by (rule handshake_refused [OF s(1-4,8) _ _ iv _ lib key(1) s(5) i(2) own key(2-4)]) (use t in auto)
  let ?m = "\<lparr>lk_alice = s', lk_bob = t', lk_ab = [], lk_ba = []\<rparr>"
  have idle: "link_step L r F ?m = None" for r F by (rule idle_steps) (use l in simp_all)
  have ts: "handshake_turns E = refused_turns E @ [(Responder, E 12), (Initiator, E 13), (Initiator, E 14), (Initiator, E 15)]"
    by (simp add: handshake_turns_def refused_turns_def)
  have "link_turns L (handshake_turns E) ?l = ?m"
    unfolding ts link_turns_append link_steps_turns [OF l(1)] by (rule idle_turns [OF idle])
  then show ?thesis
    by (intro exI [of _ ?m] conjI allI impI refused_fair [OF l(1) idle] idle_turns [OF idle]) (use l(4,5) in simp_all)
qed

text \<open>What the turns make of two reachable sessions.\<close>

lemma side_step_reach:
  "side_step L E inb s = Some (inb', out, s') \<Longrightarrow> sess_reach L s \<Longrightarrow> sess_reach L s' \<and> ss_role s' = ss_role s"
  by (auto simp: side_defs completed sess_run_ok sess_reach_ok split: option.splits transfer.splits if_splits)

lemma link_step_reach:
  assumes "link_step L r E l = Some m" "sess_reach L (lk_alice l)" "sess_reach L (lk_bob l)"
  shows "sess_reach L (lk_alice m) \<and> sess_reach L (lk_bob m)
    \<and> ss_role (lk_alice m) = ss_role (lk_alice l) \<and> ss_role (lk_bob m) = ss_role (lk_bob l)"
  using assms by (cases r) (auto dest: side_step_reach split: option.splits)

lemma link_turns_reach:
  assumes "sess_reach L (lk_alice l)" "sess_reach L (lk_bob l)"
  shows "sess_reach L (lk_alice (link_turns L ts l)) \<and> sess_reach L (lk_bob (link_turns L ts l))
    \<and> ss_role (lk_alice (link_turns L ts l)) = ss_role (lk_alice l) \<and> ss_role (lk_bob (link_turns L ts l)) = ss_role (lk_bob l)"
  using assms
proof (induction L ts l rule: link_turns.induct)
  case (2 L r E ts l)
  let ?m = "case link_step L r E l of None \<Rightarrow> l | Some l' \<Rightarrow> l'"
  have m: "sess_reach L (lk_alice ?m) \<and> sess_reach L (lk_bob ?m)
      \<and> ss_role (lk_alice ?m) = ss_role (lk_alice l) \<and> ss_role (lk_bob ?m) = ss_role (lk_bob l)"
  proof (cases "link_step L r E l")
    case (Some m)
    then show ?thesis using link_step_reach [OF Some 2(2,3)] by (simp only: option.case)
  qed (use 2(2,3) in simp)
  then show ?case using 2(1) by (simp only: link_turns.simps)
qed simp

text \<open>Sessions that were made and started.\<close>

lemma sess_out_reach:
  assumes "sess_out L U d i = Inr s0" "sess_start L V p s0 = Inr s"
  shows "sess_reach L s"
proof -
  have "sess_reach L s0" by (rule made_out [OF assms(1)])
  moreover have "ss_srq s0 = None" "ss_waiting s0 = None" "\<not> ss_stopped s0"
    using assms(1) by (auto simp: sess_out_def Let_def sess_members_def result_simps throw_ex_eq split: option.splits)
  ultimately show ?thesis using started assms(2) by blast
qed

lemma sess_in_reach:
  assumes "sess_in L j = Inr t0" "sess_start L V p t0 = Inr t"
  shows "sess_reach L t"
proof -
  have "sess_reach L t0" by (rule made_in [OF assms(1)])
  moreover have "ss_srq t0 = None" "ss_waiting t0 = None" "\<not> ss_stopped t0"
    using assms(1) by (auto simp: sess_in_def Let_def sess_members_def result_simps throw_ex_eq split: option.splits)
  ultimately show ?thesis using started assms(2) by blast
qed

end
