(* ===== verification/Conversation.thy ===== *)
theory Conversation
  imports Handshake
begin

text \<open>
  Two connected sessions: what one writes the other one reads, in any order of the two directions.
\<close>

section \<open>One message\<close>

text \<open>Sessions whose keys are in step: \<open>s\<close> is the initiator, \<open>t\<close> the responder.\<close>

definition paired :: "('s, 'c) sess_lib \<Rightarrow> nat \<Rightarrow> ('s, 'c) session \<Rightarrow> ('s, 'c) session \<Rightarrow> bool" where
  "paired L n s t \<longleftrightarrow> ss_role s = Initiator \<and> ss_role t = Responder \<and> ss_ready s \<and> ss_ready t
     \<and> (\<exists>k l. ss_dp t = Some k \<and> ss_dp s = Some l \<and> in_step (sl_noise L) (sl_dp L) n k l)"

lemma in_step_sent:
  assumes "in_step L P (Suc n) k l" "sendable W (V, m)"
  obtains m' k' r' l' where "dp_Write L P V Initiator m k = Inr (m', k')"
    "dp_Read L P W Responder True (r\<lparr>dm_buf := dm_buf m'\<rparr>) l = Inr (r', l')"
    "map data_view (dm_blocks r') = map data_view (dm_blocks m')" "in_step L P n k' l'"
proof -
  have i: "sip_ok P k" "sip_ok P l" "same_sip_keys BobToAlice k l" "same_sip_keys AliceToBob k l"
    "cs_synced L (Suc n) (cipherstate BobToAlice k) (cipherstate BobToAlice l)"
    "cs_synced L n (cipherstate AliceToBob l) (cipherstate AliceToBob k)"
    using assms(1) cs_synced_less by (auto simp: in_step_def simp del: cs_synced.simps)
  have d: "write_dir Initiator = BobToAlice" "read_dir Responder = BobToAlice" by (simp_all add: write_dir_def read_dir_def)
  obtain m' k' r' l' where s: "dp_Write L P V Initiator m k = Inr (m', k')"
    "dp_Read L P W Responder True (r\<lparr>dm_buf := dm_buf m'\<rparr>) l = Inr (r', l')"
    "map data_view (dm_blocks r') = map data_view (dm_blocks m')" "sip_ok P k'" "same_sip_keys BobToAlice k' l'"
    "cs_synced L n (cipherstate BobToAlice k') (cipherstate BobToAlice l')"
    using sendable_sent [OF assms(2) i(1), of Initiator l Responder L n r] i(3,5) by (auto simp: d)
  have "in_step L P n k' l'"
    by (rule in_step_written [OF assms(1) s(1) _ _ _ s(5,6)])
      (use dp_Read_other [OF s(2), of AliceToBob] dp_Read_sip [OF s(2) i(2)] in \<open>simp_all add: d\<close>)
  then show ?thesis by (rule that [OF s(1-3)])
qed

lemma in_step_answered:
  assumes "in_step L P (Suc n) k l" "sendable W (V, m)"
  obtains m' l' r' k' where "dp_Write L P V Responder m l = Inr (m', l')"
    "dp_Read L P W Initiator True (r\<lparr>dm_buf := dm_buf m'\<rparr>) k = Inr (r', k')"
    "map data_view (dm_blocks r') = map data_view (dm_blocks m')" "in_step L P n k' l'"
proof -
  have i: "sip_ok P k" "sip_ok P l" "same_sip_keys BobToAlice k l" "same_sip_keys AliceToBob l k"
    "cs_synced L n (cipherstate BobToAlice k) (cipherstate BobToAlice l)"
    "cs_synced L (Suc n) (cipherstate AliceToBob l) (cipherstate AliceToBob k)"
    using assms(1) cs_synced_less same_sip_keys_sym by (auto simp: in_step_def simp del: cs_synced.simps)
  have d: "write_dir Responder = AliceToBob" "read_dir Initiator = AliceToBob" by (simp_all add: write_dir_def read_dir_def)
  obtain m' l' r' k' where s: "dp_Write L P V Responder m l = Inr (m', l')"
    "dp_Read L P W Initiator True (r\<lparr>dm_buf := dm_buf m'\<rparr>) k = Inr (r', k')"
    "map data_view (dm_blocks r') = map data_view (dm_blocks m')" "sip_ok P l'" "same_sip_keys AliceToBob l' k'"
    "cs_synced L n (cipherstate AliceToBob l') (cipherstate AliceToBob k')"
    using sendable_sent [OF assms(2) i(2), of Responder k Initiator L n r] i(4,6) by (auto simp: d)
  have "in_step L P n k' l'"
    using s(4-6) i dp_Read_sip [OF s(2)] dp_Write_other [OF s(1), of BobToAlice] dp_Read_other [OF s(2), of BobToAlice]
      same_sip_keys_both [of BobToAlice k' k l' l] same_sip_keys_sym by (simp add: in_step_def d)
  then show ?thesis by (rule that [OF s(1-3)])
qed

section \<open>A conversation\<close>

text \<open>
  Both sides write in any order. An element says who writes, the environments of the writer and of
  the reader, the message, and the object that it is read into.
\<close>

fun converse ::
  "('s, 'c) sess_lib \<Rightarrow> (role \<times> sess_env \<times> sess_env \<times> data_message \<times> data_message) list
     \<Rightarrow> ('s, 'c) session \<Rightarrow> ('s, 'c) session \<Rightarrow> ((data_message \<times> data_message) list \<times> ('s, 'c) session \<times> ('s, 'c) session) result" where
  "converse L [] s t = Inr ([], s, t)"
| "converse L ((Initiator, E, F, m, r) # xs) s t =
     bindr (sess_write L E m s) (\<lambda>(m, s).
     bindr (sess_read L F (r\<lparr>dm_buf := dm_buf m\<rparr>) t) (\<lambda>(r, t).
     bindr (converse L xs s t) (\<lambda>(ms, s, t). Inr ((m, r) # ms, s, t))))"
| "converse L ((Responder, E, F, m, r) # xs) s t =
     bindr (sess_write L E m t) (\<lambda>(m, t).
     bindr (sess_read L F (r\<lparr>dm_buf := dm_buf m\<rparr>) s) (\<lambda>(r, s).
     bindr (converse L xs s t) (\<lambda>(ms, s, t). Inr ((m, r) # ms, s, t))))"

definition speakable :: "role \<times> sess_env \<times> sess_env \<times> data_message \<times> data_message \<Rightarrow> bool" where
  "speakable x = (case x of (_, E, F, m, _) \<Rightarrow> sendable (sn_V F) (sn_V E, m))"

definition understood :: "data_message \<times> data_message \<Rightarrow> bool" where
  "understood x \<longleftrightarrow> map data_view (dm_blocks (snd x)) = map data_view (dm_blocks (fst x))"

lemma paired_sent:
  assumes "paired L (Suc n) s t" "sendable (sn_V F) (sn_V E, m)"
  obtains m' s' r' t' where "sess_write L E m s = Inr (m', s')" "sess_read L F (r\<lparr>dm_buf := dm_buf m'\<rparr>) t = Inr (r', t')"
    "understood (m', r')" "paired L n s' t'"
proof -
  obtain k l where c: "ss_dp t = Some k" "ss_dp s = Some l" "in_step (sl_noise L) (sl_dp L) (Suc n) k l"
    "ss_role s = Initiator" "ss_role t = Responder" "ss_ready s" "ss_ready t"
    using assms(1) by (auto simp: paired_def)
  obtain m' l' r' k' where x: "dp_Write (sl_noise L) (sl_dp L) (sn_V E) Responder m l = Inr (m', l')"
    "dp_Read (sl_noise L) (sl_dp L) (sn_V F) Initiator True (r\<lparr>dm_buf := dm_buf m'\<rparr>) k = Inr (r', k')"
    "map data_view (dm_blocks r') = map data_view (dm_blocks m')" "in_step (sl_noise L) (sl_dp L) n k' l'"
    by (rule in_step_answered [OF c(3) assms(2), of r]) blast
  show ?thesis
    by (rule that [of m' "s\<lparr>ss_dp := Some l'\<rparr>" r' "t\<lparr>ss_dp := Some k'\<rparr>"])
      (use c x in \<open>simp_all add: sess_write_def sess_read_def deref_def dp_role_def understood_def paired_def\<close>)
qed

lemma paired_answered:
  assumes "paired L (Suc n) s t" "sendable (sn_V F) (sn_V E, m)"
  obtains m' t' r' s' where "sess_write L E m t = Inr (m', t')" "sess_read L F (r\<lparr>dm_buf := dm_buf m'\<rparr>) s = Inr (r', s')"
    "understood (m', r')" "paired L n s' t'"
proof -
  obtain k l where c: "ss_dp t = Some k" "ss_dp s = Some l" "in_step (sl_noise L) (sl_dp L) (Suc n) k l"
    "ss_role s = Initiator" "ss_role t = Responder" "ss_ready s" "ss_ready t"
    using assms(1) by (auto simp: paired_def)
  obtain m' k' r' l' where x: "dp_Write (sl_noise L) (sl_dp L) (sn_V E) Initiator m k = Inr (m', k')"
    "dp_Read (sl_noise L) (sl_dp L) (sn_V F) Responder True (r\<lparr>dm_buf := dm_buf m'\<rparr>) l = Inr (r', l')"
    "map data_view (dm_blocks r') = map data_view (dm_blocks m')" "in_step (sl_noise L) (sl_dp L) n k' l'"
    by (rule in_step_sent [OF c(3) assms(2), of r]) blast
  show ?thesis
    by (rule that [of m' "t\<lparr>ss_dp := Some k'\<rparr>" r' "s\<lparr>ss_dp := Some l'\<rparr>"])
      (use c x in \<open>simp_all add: sess_write_def sess_read_def deref_def dp_role_def understood_def paired_def\<close>)
qed

lemma converse_understood:
  assumes "paired L (length xs + n) s t" "list_all speakable xs"
  shows "\<exists>ms s' t'. converse L xs s t = Inr (ms, s', t') \<and> length ms = length xs \<and> list_all understood ms \<and> paired L n s' t'"
  using assms
proof (induction xs arbitrary: s t)
  case (Cons x xs)
  obtain rl E F m r where x: "x = (rl, E, F, m, r)" by (cases x)
  have sp: "sendable (sn_V F) (sn_V E, m)" "list_all speakable xs"
    using Cons.prems(2) by (simp_all add: x) (simp add: speakable_def)
  have c: "paired L (Suc (length xs + n)) s t" using Cons.prems(1) by simp
  show ?case
  proof (cases rl)
    case Initiator
    obtain m' s1 r' t1 where one: "sess_write L E m s = Inr (m', s1)" "sess_read L F (r\<lparr>dm_buf := dm_buf m'\<rparr>) t = Inr (r', t1)"
      "understood (m', r')" "paired L (length xs + n) s1 t1"
      by (rule paired_sent [OF c sp(1), of r])
    then show ?thesis using Cons.IH [OF one(4) sp(2)] by (auto simp: x Initiator)
  next
    case Responder
    obtain m' t1 r' s1 where one: "sess_write L E m t = Inr (m', t1)" "sess_read L F (r\<lparr>dm_buf := dm_buf m'\<rparr>) s = Inr (r', s1)"
      "understood (m', r')" "paired L (length xs + n) s1 t1"
      by (rule paired_answered [OF c sp(1), of r])
    then show ?thesis using Cons.IH [OF one(4) sp(2)] by (auto simp: x Responder)
  qed
qed simp

section \<open>The handshake connects\<close>

lemma handshake_connects:
  fixes L :: "('s, 'c) sess_lib"
  assumes made: "sess_out L U (Some d) (Some i) = Inr s0" "sess_start L V p s0 = Inr s"
      "sess_in L (Some j) = Inr t0" "sess_start L W p' t0 = Inr t"
    and i: "publishable J i" "conf_fits i (unat (sn_drawn U))" "\<forall>k. be_ident (sn_U U k) = J" "\<forall>k. be_ident (sn_V U k) = J"
    and j: "publishable J j" "info_size j \<le> 32763" "knows d j"
    and lib: "cbc_ok (sl_aes L)" "\<forall>iv k. length (siphash (sl_dp L) iv k) = 16"
    and E: "net_ok J i j E"
    and key: "opened L key (Suc n) s t" "decoded_option ''s'' i = Inr key"
  obtains s' t' where "link_steps L (handshake_turns E) \<lparr>lk_alice = s, lk_bob = t, lk_ab = [], lk_ba = []\<rparr> =
      Some \<lparr>lk_alice = s', lk_bob = t', lk_ab = [], lk_ba = []\<rparr>"
    "\<forall>\<sigma>. fair \<sigma> \<longrightarrow> (\<exists>N. \<forall>n\<ge>N. schedule (sched_step L (initiator_envs E) (responder_envs E)) (map \<sigma> [0..<n])
        (0, 0, \<lparr>lk_alice = s, lk_bob = t, lk_ab = [], lk_ba = []\<rparr>) = (9, 7, \<lparr>lk_alice = s', lk_bob = t', lk_ab = [], lk_ba = []\<rparr>))"
    "ss_remote_key t' = key" "paired L n s' t'" "sess_reach L s'" "sess_reach L t'"
proof -
  have h: "length (siphash (sl_dp L) iv k) = 16" for iv k using lib(2) by blast
  let ?l = "\<lparr>lk_alice = s, lk_bob = t, lk_ab = [], lk_ba = []\<rparr>"
  obtain s' t' k l where r: "link_steps L (handshake_turns E) ?l = Some \<lparr>lk_alice = s', lk_bob = t', lk_ab = [], lk_ba = []\<rparr>"
    "ss_ready s'" "ss_ready t'" "ss_remote_key t' = key" "ss_dp t' = Some k" "ss_dp s' = Some l"
    "in_step (sl_noise L) (sl_dp L) n k l" "ss_waiting s' = None" "ss_waiting t' = None"
    by (rule handshake_started [OF made i j lib(1) h E key])
  let ?m = "\<lparr>lk_alice = s', lk_bob = t', lk_ab = [], lk_ba = []\<rparr>"
  have idle: "link_step L c F ?m = None" for c F by (rule idle_steps) (simp_all add: r)
  note turns = link_steps_turns [OF r(1)]
  have "ss_role s = Initiator" "ss_role t = Responder"
    using sess_out_started [OF made(1,2) i] sess_in_started [OF made(3,4)] by blast+
  then have "ss_role s' = Initiator" "ss_role t' = Responder" and reach: "sess_reach L s'" "sess_reach L t'"
    using link_turns_reach [of L ?l "handshake_turns E"] sess_out_reach [OF made(1,2)] sess_in_reach [OF made(3,4)] by (simp_all add: turns)
  then have p: "paired L n s' t'" using r by (auto simp: paired_def)
  have "\<forall>\<sigma>. fair \<sigma> \<longrightarrow> (\<exists>N. \<forall>n\<ge>N. schedule (sched_step L (initiator_envs E) (responder_envs E)) (map \<sigma> [0..<n]) (0, 0, ?l) = (9, 7, ?m))"
    by (intro allI impI handshake_fair [OF r(1) idle])
  then show ?thesis by (rule that [OF r(1) _ r(4) p reach])
qed

end
