(* ===== verification/Serving.thy ===== *)
theory Serving
  imports Conversation Listener
begin

text \<open>
  A listener at the responder's end of a connection. The operations of the session that it accepted
  complete in its I/O context (\<open>ls_event\<close>), as in \<open>src/ntcp2/session/listener.h\<close>; the initiator's
  end and what is on the way are those of \<open>Connection\<close>.
\<close>

record ('s, 'c) service =
  sv_alice :: "('s, 'c) session"
  sv_listener :: "('s, 'c) listener"
  sv_ab :: "byte list"
  sv_ba :: "byte list"

fun service_step :: "('s, 'c) sess_lib \<Rightarrow> nat \<Rightarrow> role \<Rightarrow> sess_env \<Rightarrow> ('s, 'c) service \<Rightarrow> ('s, 'c) service option" where
  "service_step L i Initiator E v =
     (case side_step L E (sv_ba v) (sv_alice v) of
        None \<Rightarrow> None
      | Some (inb, out, s) \<Rightarrow> Some (v\<lparr>sv_alice := s, sv_ba := inb, sv_ab := sv_ab v @ out\<rparr>))"
| "service_step L i Responder E v =
     (case (if i < length (ls_sessions (sv_listener v)) then ls_sessions (sv_listener v) ! i else None) of
        None \<Rightarrow> None
      | Some t \<Rightarrow>
          (case side_input (sv_ab v) t of
             None \<Rightarrow> None
           | Some (inb, out, bytes) \<Rightarrow>
               Some (v\<lparr>sv_listener := ls_event L (Session_io i E None bytes) (sv_listener v), sv_ab := inb, sv_ba := sv_ba v @ out\<rparr>)))"

fun service_steps :: "('s, 'c) sess_lib \<Rightarrow> nat \<Rightarrow> (role \<times> sess_env) list \<Rightarrow> ('s, 'c) service \<Rightarrow> ('s, 'c) service option" where
  "service_steps L i [] v = Some v"
| "service_steps L i ((r, E) # ts) v = (case service_step L i r E v of None \<Rightarrow> None | Some w \<Rightarrow> service_steps L i ts w)"

section \<open>The listener refines the session\<close>

text \<open>
  The listener's session is the responder of the connection. The router info is the listener's: a
  handler finds it there and leaves it there. Nothing else of the listener changes.
\<close>

definition serves :: "('s, 'c) listener \<Rightarrow> nat \<Rightarrow> ('s, 'c) service \<Rightarrow> ('s, 'c) link \<Rightarrow> bool" where
  "serves l0 i v l \<longleftrightarrow> sv_alice v = lk_alice l \<and> sv_ab v = lk_ab l \<and> sv_ba v = lk_ba l
     \<and> i < length (ls_sessions l0) \<and> (\<exists>t. t\<lparr>ss_info := ss_info (lk_bob l)\<rparr> = lk_bob l
        \<and> sv_listener v = l0\<lparr>ls_info := ss_info (lk_bob l), ls_sessions := (ls_sessions l0)[i := Some t]\<rparr>)
     \<and> ls_running l0 \<and> sess_ok (lk_bob l) \<and> ss_role (lk_bob l) = Responder"

text \<open>What the transfer of an operation depends on.\<close>

lemma op_transfer_info [simp]: "op_transfer w (s\<lparr>ss_info := i\<rparr>) = op_transfer w s"
  by (cases w) simp_all

lemma side_input_info [simp]: "side_input inb (s\<lparr>ss_info := i\<rparr>) = side_input inb s"
  by (cases "ss_waiting s") (simp_all add: side_input_def)

text \<open>A handler that throws leaves its session with nothing outstanding, and not readier than it was.\<close>

lemma sess_complete_throws:
  assumes "sess_complete L E ec bytes s = (s', Inl e)"
  shows "ss_waiting s' = None \<and> ss_ready s' = ss_ready s"
proof (cases "ss_waiting s")
  case None
  then show ?thesis using assms by (simp add: sess_complete_def)
next
  case (Some w)
  have u: "ss_waiting u = None \<and> ss_ready u = ss_ready s" if "got_confirmed L E bytes (s\<lparr>ss_waiting := None\<rparr>) = Inr (k, u)" for k u
    using arg_cong [OF conjunct1 [OF got_confirmed_Inr [OF that]], of hv_waiting]
      arg_cong [OF conjunct1 [OF got_confirmed_Inr [OF that]], of hv_ready] by simp
  from assms Some show ?thesis by (cases rule: sess_complete_cases) (use u in auto)
qed

lemma sess_run_responder:
  "ss_role s = Responder \<Longrightarrow> sess_run L E ec bytes s = fst (sess_complete L E ec bytes s)"
  by (auto simp: sess_run_def split: prod.split sum.split failure.split)

text \<open>A side that waits for nothing stays as it is.\<close>

lemma bob_idle:
  "link_steps L ts l = Some m \<Longrightarrow> ss_waiting (lk_bob l) = None \<Longrightarrow> lk_bob m = lk_bob l"
proof (induction ts arbitrary: l)
  case (Cons t ts)
  obtain r E where t: "t = (r, E)" by (cases t)
  show ?case using Cons by (cases r) (auto simp: t side_defs split: option.splits prod.splits)
qed simp

lemma serves_step:
  assumes v: "serves l0 i v l" and st: "link_step L r E l = Some m"
    and ok: "r = Responder \<Longrightarrow> ss_waiting (lk_bob m) \<noteq> None \<or> ss_ready (lk_bob m)"
  shows "\<exists>w. service_step L i r E v = Some w \<and> serves l0 i w m"
proof (cases r)
  case Initiator
  then show ?thesis using st v by (auto simp: serves_def split: option.splits prod.splits)
next
  case Responder
  obtain t where t: "t\<lparr>ss_info := ss_info (lk_bob l)\<rparr> = lk_bob l" "sv_listener v = l0\<lparr>ls_info := ss_info (lk_bob l), ls_sessions := (ls_sessions l0)[i := Some t]\<rparr>"
    and q: "sv_alice v = lk_alice l" "sv_ab v = lk_ab l" "sv_ba v = lk_ba l" "i < length (ls_sessions l0)" "ls_running l0"
      "sess_ok (lk_bob l)" "ss_role (lk_bob l) = Responder"
    using v by (auto simp: serves_def)
  obtain inb out bytes where s: "side_input (lk_ab l) (lk_bob l) = Some (inb, out, bytes)"
    and m: "m = l\<lparr>lk_bob := sess_run L E None bytes (lk_bob l), lk_ab := inb, lk_ba := lk_ba l @ out\<rparr>"
    using st Responder by (auto simp: side_step_def split: option.splits)
  have si: "side_input (lk_ab l) t = Some (inb, out, bytes)" using s arg_cong [OF t(1), of "side_input (lk_ab l)"] by simp
  obtain u x where c: "sess_complete L E None bytes (lk_bob l) = (u, x)" by (cases "sess_complete L E None bytes (lk_bob l)")
  have run: "sess_run L E None bytes (lk_bob l) = u" using sess_run_responder [OF q(7)] c by simp
  obtain w where "ss_waiting (lk_bob l) = Some w" using s by (auto simp: side_input_def split: option.splits)
  then have "\<not> ss_ready (lk_bob l)" using q(6) by (simp add: sess_ok_def hv_ok_def)
  then have x: "x = Inr ()"
    using sess_complete_throws [of L E None bytes "lk_bob l" u] c ok [OF Responder] by (cases x) (auto simp: m run)
  have "ls_event L (Session_io i E None bytes) (sv_listener v) =
      l0\<lparr>ls_info := ss_info u, ls_sessions := (ls_sessions l0)[i := Some u]\<rparr>"
    using q(4,5) t c x by (simp add: ls_event_def ls_run_def ls_session_io_def)
  then have st: "service_step L i r E v =
      Some (v\<lparr>sv_listener := l0\<lparr>ls_info := ss_info u, ls_sessions := (ls_sessions l0)[i := Some u]\<rparr>, sv_ab := inb, sv_ba := sv_ba v @ out\<rparr>)"
    using q(2,4) t(2) si Responder by simp
  have "sess_ok u \<and> ss_role u = Responder" using sess_run_ok [OF q(6), of L E None bytes] q(7) run by simp
  then have "serves l0 i (v\<lparr>sv_listener := l0\<lparr>ls_info := ss_info u, ls_sessions := (ls_sessions l0)[i := Some u]\<rparr>, sv_ab := inb,
      sv_ba := sv_ba v @ out\<rparr>) m"
    using q by (auto simp: serves_def m run intro!: exI [of _ u])
  with st show ?thesis by blast
qed

lemma serves_steps:
  assumes "serves l0 i v l" "link_steps L ts l = Some m" "ss_ready (lk_bob m)"
  shows "\<exists>w. service_steps L i ts v = Some w \<and> serves l0 i w m"
  using assms
proof (induction ts arbitrary: v l)
  case (Cons t ts)
  obtain r E where t: "t = (r, E)" by (cases t)
  obtain l' where l': "link_step L r E l = Some l'" "link_steps L ts l' = Some m"
    using Cons.prems(2) by (auto simp: t split: option.splits)
  have "ss_waiting (lk_bob l') \<noteq> None \<or> ss_ready (lk_bob l')"
    using bob_idle [OF l'(2)] Cons.prems(3) by (cases "ss_waiting (lk_bob l')") simp_all
  then obtain w where "service_step L i r E v = Some w" "serves l0 i w l'"
    using serves_step [OF Cons.prems(1) l'(1)] by blast
  then show ?case using Cons.IH [OF _ l'(2) Cons.prems(3)] by (auto simp: t)
qed auto

section \<open>The handshake with a listener\<close>

theorem listener_connects:
  fixes L :: "('s, 'c) sess_lib"
  assumes made: "sess_out L U (Some d) (Some i) = Inr s0" "sess_start L V p s0 = Inr s"
    and run: "ls_running l" "ls_accepting l" "ls_run L (Accepted W None) l = (l1, Inr ())" "ls_sessions l1 = ls_sessions l @ [Some t]"
    and i: "publishable J i" "conf_fits i (unat (sn_drawn U))" "\<forall>k. be_ident (sn_U U k) = J" "\<forall>k. be_ident (sn_V U k) = J"
    and j: "publishable J (ls_info l)" "info_size (ls_info l) \<le> 32763" "knows d (ls_info l)"
    and lib: "cbc_ok (sl_aes L)" "\<forall>iv k. length (siphash (sl_dp L) iv k) = 16"
    and E: "net_ok J i (ls_info l) E"
    and key: "opened L key (Suc n) s t" "decoded_option ''s'' i = Inr key"
  shows "\<exists>s' t' l2. service_steps L (length (ls_sessions l)) (handshake_turns E)
        \<lparr>sv_alice = s, sv_listener = l1, sv_ab = [], sv_ba = []\<rparr> =
        Some \<lparr>sv_alice = s', sv_listener = l2, sv_ab = [], sv_ba = []\<rparr>
      \<and> ls_running l2 \<and> ls_accepting l2 \<and> ls_sessions l2 = ls_sessions l @ [Some t']
      \<and> ss_remote_key t' = key \<and> paired L n s' t'"
proof -
  have a: "ls_accept L W None l = (l1, Inr ())" using run(1-3) by (simp add: ls_run_def)
  have l1: "bindr (sess_in L (Some (ls_info l))) (sess_start L W v6) = Inr t" "ls_info l1 = ls_info l" "ls_running l1" "ls_accepting l1"
    by (rule ls_accept_Inr [OF a], use run(1,4) in simp)+
  then obtain t0 where t0: "sess_in L (Some (ls_info l)) = Inr t0" "sess_start L W v6 t0 = Inr t" by (auto simp: result_simps)
  have t: "sess_ok t" "ss_role t = Responder" "ss_info t = ls_info l"
    using new_session_ok [OF l1(1)] sess_in_started [OF t0] by simp_all
  let ?l = "\<lparr>lk_alice = s, lk_bob = t, lk_ab = [], lk_ba = []\<rparr>" and ?v = "\<lparr>sv_alice = s, sv_listener = l1, sv_ab = [], sv_ba = []\<rparr>"
  let ?i = "length (ls_sessions l)"
  obtain s' t' where h: "link_steps L (handshake_turns E) ?l = Some \<lparr>lk_alice = s', lk_bob = t', lk_ab = [], lk_ba = []\<rparr>"
    "ss_remote_key t' = key" "paired L n s' t'"
    by (rule handshake_connects [OF made t0 i j lib E key])
  have v: "serves l1 ?i ?v ?l"
    using run(4) l1(2,3) t by (auto simp: serves_def intro!: exI [of _ t])
  obtain w where w: "service_steps L ?i (handshake_turns E) ?v = Some w" "serves l1 ?i w \<lparr>lk_alice = s', lk_bob = t', lk_ab = [], lk_ba = []\<rparr>"
    using serves_steps [OF v h(1)] h(3) by (auto simp: paired_def)
  then obtain u where u: "u\<lparr>ss_info := ss_info t'\<rparr> = t'" "sv_listener w = l1\<lparr>ls_info := ss_info t', ls_sessions := (ls_sessions l1)[?i := Some u]\<rparr>"
    by (auto simp: serves_def)
  have wq: "w = \<lparr>sv_alice = s', sv_listener = sv_listener w, sv_ab = [], sv_ba = []\<rparr>" using w(2) by (cases w) (simp add: serves_def)
  have "ss_remote_key u = key" "paired L n s' u"
    using h(2,3) arg_cong [OF u(1), of ss_remote_key] arg_cong [OF u(1), of ss_role] arg_cong [OF u(1), of ss_ready] arg_cong [OF u(1), of ss_dp]
    by (simp_all add: paired_def)
  moreover have "ls_sessions (sv_listener w) = ls_sessions l @ [Some u]" "ls_running (sv_listener w)" "ls_accepting (sv_listener w)"
    using run(4) l1(3,4) u(2) by simp_all
  ultimately show ?thesis using w(1) wq by metis
qed

end
