(* ===== verification/DemoSession.thy ===== *)
theory DemoSession
  imports Demo Manager Serving
begin

text \<open>
  Concrete values for the hypotheses about sessions: router infos with their keys, a Noise library
  whose handshake states count the calls, and two sessions that were started on them. They show
  that the hypotheses can hold together.
\<close>


section \<open>A router info with its keys\<close>

definition demo_text :: "byte list \<Rightarrow> byte list" where
  "demo_text bs = (case Encode Base64 bs of Inr s \<Rightarrow> s | Inl _ \<Rightarrow> [])"

definition demo_address :: address where
  "demo_address = address_fields\<lparr>options := \<lparr>kv = [MappingEntry (ascii ''host'') [49],
     MappingEntry (ascii ''port'') (to_string (unat (80::u16)))], map_buffer = []\<rparr>\<rparr>"

definition demo_router_options :: "byte list \<Rightarrow> mapping" where
  "demo_router_options key = \<lparr>kv = [MappingEntry (ascii ''i'') (demo_text (replicate 16 8)),
     MappingEntry (ascii ''s'') (demo_text key), MappingEntry (ascii ''v'') [50]], map_buffer = []\<rparr>"

text \<open>The info of a router with a given key in its options; its own key is that of its identity.\<close>

definition demo_router :: "byte list \<Rightarrow> info" where
  "demo_router key = (info_members demo_ident)\<lparr>ri_addresses := [demo_address], ri_options := demo_router_options key\<rparr>"

abbreviation "demo_key \<equiv> pubkey demo_keys"

lemma demo_text:
  assumes "bs \<noteq> []" "length bs \<le> 180"
  shows "Encode Base64 bs = Inr (demo_text bs)" "demo_text bs \<noteq> []" "length (demo_text bs) \<le> 255"
    "Decode Base64 (demo_text bs) = Inr bs"
proof -
  obtain s where s: "Encode Base64 bs = Inr s" "s \<noteq> []" "length s \<le> 255" using b64_Encode_short [OF assms] by blast
  then show "Encode Base64 bs = Inr (demo_text bs)" "demo_text bs \<noteq> []" "length (demo_text bs) \<le> 255"
    by (simp_all add: demo_text_def)
  show "Decode Base64 (demo_text bs) = Inr bs"
    using b64.Decode_Encode [OF assms(1) s(1)] s(1) by (simp add: demo_text_def)
qed

lemma demo_address_ok: "address_ok demo_address" "address_size demo_address \<le> 400"
proof -
  have p: "to_string (unat (80::u16)) \<noteq> []" "length (to_string (unat (80::u16))) \<le> 5" using length_port [of 80] by auto
  have m: "mapping_ok (options demo_address)"
    using p by (simp add: demo_address_def mapping_ok_def entry_ok_def entry_size_def ascii_host_port less_entry_key mapping_sizes)
  then show "address_ok demo_address" by (simp add: address_ok_def demo_address_def address_fields_def)
  show "address_size demo_address \<le> 400"
    using p mapping_size_unat [OF m]
    by (simp add: address_size_def demo_address_def entry_size_def ascii_host_port mapping_sizes address_fields_def ntcp2_transport_def ntcp_transport_def
        ExpirationSize_def TransportLenSize_def)
qed

lemma demo_router_options_ok:
  assumes "length key = 32"
  shows "mapping_ok (demo_router_options key)" "ri_options_ok (demo_router_options key)"
    "unat (mapping_size (demo_router_options key)) \<le> 1000"
proof -
  have k: "key \<noteq> []" using assms by auto
  note t = demo_text [of "replicate 16 8"] demo_text [OF k]
  show m: "mapping_ok (demo_router_options key)"
    using t assms
    by (simp add: mapping_ok_def demo_router_options_def entry_ok_def entry_size_def ascii_def less_entry_key mapping_sizes)
  then show "ri_options_ok (demo_router_options key)"
    using t assms by (simp add: ri_options_ok_def demo_router_options_def kv_lookup_def ascii_def)
  show "unat (mapping_size (demo_router_options key)) \<le> 1000"
    using mapping_size_unat [OF m] t assms by (simp add: demo_router_options_def entry_size_def ascii_def mapping_sizes)
qed

lemma demo_router_size:
  assumes "length key = 32"
  shows "info_size (demo_router key) \<le> 2000" "440 \<le> info_size (demo_router key)"
  using demo_router_options_ok(3) [OF assms] demo_address_ok(2)
  by (simp_all add: info_size_def demo_router_def info_members_def demo_ident_def ident_size_def demo_cert_def crypto_pubkey_len_def
      signing_pubkey_len_def sig_len_def)

lemma demo_router_publishable: "length key = 32 \<Longrightarrow> publishable demo_env (demo_router key)"
  using demo_ident_ok demo_router_options_ok [of key] demo_address_ok(1) demo_router_size(2) [of key] demo_sign_len
  by (simp add: publishable_def info_ok_def demo_router_def info_members_def demo_env_def MinInfoLen_def demo_ident_def demo_signer_def)
    (simp add: demo_sign_def)

lemma demo_router_option:
  assumes "length key = 32"
  shows "decoded_option ''s'' (demo_router key) = Inr key" "decoded_option ''i'' (demo_router key) = Inr (replicate 16 8)"
proof -
  have k: "key \<noteq> []" using assms by auto
  show "decoded_option ''s'' (demo_router key) = Inr key" "decoded_option ''i'' (demo_router key) = Inr (replicate 16 8)"
    using demo_text(4) [of "replicate 16 8"] demo_text(4) [OF k] assms
    by (simp_all add: decoded_option_def mapping_entry_at_lookup ascii_def demo_router_def demo_router_options_def kv_lookup_def)
qed

section \<open>A library whose handshake completes\<close>

text \<open>A handshake state counts messages and hashes: the third message carries one more key.\<close>

definition hs_over :: "nat \<Rightarrow> nat" where "hs_over s = (if s < 6 then 48 else 64)"

definition demo_hs :: "(nat, nat) noise_lib" where
  "demo_hs = demo_noise\<lparr>
     hs_write_message := (\<lambda>s m n. if length m + hs_over s \<le> n then Inr (m @ replicate (hs_over s) 0, Suc s) else Inl 1),
     hs_read_message := (\<lambda>s m n. if length m - hs_over s \<le> n then Inr (take (length m - hs_over s) m, Suc s) else Inl 1),
     hs_mix_hash := (\<lambda>s b. Inr (Suc s)), hs_remote_public := (\<lambda>s. Some (Inr demo_key))\<rparr>"

lemma demo_message_step:
  "hs_over s = over \<Longrightarrow> R (Suc s) (Suc s) \<Longrightarrow> hs_message demo_hs over R s s"
  by (auto simp: hs_message_def demo_hs_def)

lemma demo_mix_step: "R (Suc s) (Suc s) \<Longrightarrow> hs_mix demo_hs R s s"
  by (simp add: hs_mix_def demo_hs_def)

lemma demo_hs_synced: "cs_synced demo_hs n c d"
  by (induction n arbitrary: c d) (simp_all add: cs_pair_def demo_hs_def demo_noise_def)

lemma demo_done: "hs_done demo_hs demo_key n s s"
  using demo_hs_synced by (simp add: hs_done_def) (simp add: demo_hs_def demo_noise_def)

lemma demo_chain: "hs_chain demo_hs demo_key n 0 0"
  unfolding hs_chain_def hs_second_def hs_third_def
  by (intro demo_message_step demo_mix_step demo_done) (simp_all add: hs_over_def)

section \<open>Two sessions\<close>

definition demo_lib :: "(nat, nat) sess_lib" where
  "demo_lib = \<lparr>sl_noise = demo_hs, sl_aes = \<lparr>cbc_encrypt = (\<lambda>k iv d. d), cbc_decrypt = (\<lambda>k iv d. d)\<rparr>, sl_dp = demo_dp,
     sl_sha = resize 32, sl_make_address = Inr, sl_is_v6 = (\<lambda>_. False)\<rparr>"

definition demo_sess_env :: sess_env where
  "demo_sess_env = \<lparr>sn_now = 1000, sn_drawn = 32, sn_rng = demo_rng, sn_U = (\<lambda>_. demo_block_env), sn_V = (\<lambda>_. demo_block_env),
     sn_open = Inr (), sn_bind = None, sn_host = Inr [49]\<rparr>"

lemma demo_lib_ok: "cbc_ok (sl_aes demo_lib)" "length (siphash (sl_dp demo_lib) iv k) = 16"
  by (simp_all add: demo_lib_def cbc_ok_def demo_dp_def)

lemma demo_conf_fits: "length key = 32 \<Longrightarrow> conf_fits (demo_router key) (unat (sn_drawn demo_sess_env))"
  using demo_router_size [of key] by (simp add: conf_fits_def demo_sess_env_def cf_sizes)

lemma demo_reads: "reads_infos demo_env (demo_router key) (\<lambda>_. demo_block_env)"
  using demo_fresh by (simp add: reads_infos_def demo_block_env_def demo_router_def demo_info_def info_members_def)

lemma demo_net: "net_ok demo_env (demo_router key) (demo_router key') (\<lambda>_. demo_sess_env)"
  using demo_reads
  by (simp add: net_ok_def demo_sess_env_def draws_def sr_sizes) (simp add: demo_block_env_def)

lemma demo_sess_in:
  assumes "length key = 32"
  obtains t0 t where "sess_in demo_lib (Some (demo_router key)) = Inr t0" "sess_start demo_lib demo_sess_env p t0 = Inr t"
    "ss_state t = 0" "ss_info t = demo_router key"
  using demo_router_option [OF assms]
  by (simp add: sess_in_def sess_start_def HandleSessionRequest_def CalculateConnectKey_def awaiting_def sess_members_def first_bytes_def
      init_handshake_def Let_def demo_sess_env_def demo_lib_def demo_hs_def demo_noise_def)

lemma demo_host: "info_host Inr (\<lambda>_. False) False (demo_router key) = Inr ([49], 80)"
proof -
  have "ToEndpoint Inr demo_address = Inr ([49], 80)"
    using ToEndpoint_of_kv [of demo_address "[49]" 80 Inr] by (simp add: demo_address_def)
  then show ?thesis by (simp add: info_host_def demo_router_def find_host.simps)
qed

lemma demo_sess_out:
  assumes "length key = 32" "length own = 32"
  obtains s0 s where "sess_out demo_lib demo_sess_env (Some (demo_router key)) (Some (demo_router own)) = Inr s0"
    "sess_start demo_lib demo_sess_env v4 s0 = Inr s" "ss_state s = 0" "ss_dest s = Some (demo_router key)"
proof -
  obtain m where m: "cf_of_info_drawn (sn_U demo_sess_env) (sn_V demo_sess_env) (Some (demo_router own)) (sn_drawn demo_sess_env) = Inr m"
    by (rule cf_of_info_of [OF demo_router_publishable [OF assms(2)] demo_conf_fits [OF assms(2)]])
      (auto simp: demo_sess_env_def demo_block_env_def)
  note o = demo_router_option [OF assms(1)]
  have i: "init_handshake (sl_noise demo_lib) Initiator ex = Inr 0" for ex
    by (simp add: init_handshake_def demo_lib_def demo_hs_def demo_noise_def)
  have h: "info_host (sl_make_address demo_lib) (sl_is_v6 demo_lib) (v4 = v6) (demo_router key) = Inr ([49], 80)"
    using demo_host by (simp add: demo_lib_def)
  have e: "sn_open demo_sess_env = Inr ()" "sn_bind demo_sess_env = None" by (simp_all add: demo_sess_env_def)
  let ?s0 = "(sess_members Initiator 0 (Some (demo_router key)) (case ib_info (cf_info m) of None \<Rightarrow> demo_router own | Some i \<Rightarrow> i))
      \<lparr>ss_sco := Some m, ss_remote_key := key, ss_iv := replicate 16 8\<rparr> :: (nat, nat) session"
  have out: "sess_out demo_lib demo_sess_env (Some (demo_router key)) (Some (demo_router own)) = Inr ?s0"
    using assms by (simp add: sess_out_def Let_def m i o first_bytes_def)
  have st: "ss_role ?s0 = Initiator" "ss_dest ?s0 = Some (demo_router key)" "ss_state ?s0 = 0" by (simp_all add: sess_members_def)
  have "sess_start demo_lib demo_sess_env v4 ?s0 = Inr (awaiting Connecting (?s0\<lparr>ss_remote_host := Some ([49], 80)\<rparr>))"
    unfolding sess_start_def sess_connect_def deref_def st by (simp add: h e del: ip.simps)
  then show ?thesis by (rule that [OF out]) (simp_all add: awaiting_def sess_members_def)
qed

lemma demo_keys_set:
  "set_id_keys demo_lib (ri_identity (demo_router key)) s = Inr s" "srk_Derive_key (sl_noise demo_lib) k s = Inr s"
  "srk_Derive (sl_noise demo_lib) s = Inr s"
  by (simp_all add: set_id_keys_def srk_set_local_keys_def set_local_keypair_def srk_Derive_key_def srk_set_remote_key_def
      set_remote_public_key_def srk_Derive_def noise_dh_def demo_lib_def demo_hs_def demo_noise_def)

lemma demo_opened:
  assumes "ss_dest s = Some (demo_router key)" "ss_state s = 0" "ss_info t = demo_router key" "ss_state t = 0"
  shows "opened demo_lib demo_key n s t"
  using assms demo_keys_set demo_chain [of n] by (simp add: opened_def) (simp add: demo_lib_def)

lemma demo_sess_in_any:
  assumes "length key = 32"
  obtains t where "bindr (sess_in demo_lib (Some (demo_router key))) (sess_start demo_lib demo_sess_env v6) = Inr t"
    "sess_reach demo_lib t" "ss_waiting t = Some WaitRequest" "ss_role t = Responder"
proof -
  obtain t0 t where t: "sess_in demo_lib (Some (demo_router key)) = Inr t0" "sess_start demo_lib demo_sess_env v6 t0 = Inr t"
    by (rule demo_sess_in [OF assms])
  have "ss_waiting t = Some WaitRequest" "ss_role t = Responder" using sess_in_started [OF t] by blast+
  then show ?thesis by (intro that [of t]) (use t sess_in_reach [OF t] in simp_all)
qed

text \<open>A router that connects to itself.\<close>

text \<open>A fair schedule: the sides take turns.\<close>

definition demo_turns :: "nat \<Rightarrow> role" where
  "demo_turns n = (if even n then Initiator else Responder)"

lemma demo_turns_fair: "fair demo_turns"
  unfolding fair_def
proof (intro allI)
  fix r n
  show "\<exists>k\<ge>n. demo_turns k = r"
    by (cases r) (auto simp: demo_turns_def intro: exI [of _ "2 * n"] exI [of _ "2 * n + 1"])
qed

lemma demo_connected:
  obtains s0 s t0 t s' t' where
    "sess_out demo_lib demo_sess_env (Some (demo_router demo_key)) (Some (demo_router demo_key)) = Inr s0"
    "sess_start demo_lib demo_sess_env v4 s0 = Inr s"
    "sess_in demo_lib (Some (demo_router demo_key)) = Inr t0" "sess_start demo_lib demo_sess_env v4 t0 = Inr t"
    "opened demo_lib demo_key (Suc n) s t" "sess_reach demo_lib s'" "sess_reach demo_lib t'" "paired demo_lib n s' t'"
proof -
  have k: "length demo_key = 32" by (simp add: demo_keys_def)
  obtain s0 s where s: "sess_out demo_lib demo_sess_env (Some (demo_router demo_key)) (Some (demo_router demo_key)) = Inr s0"
    "sess_start demo_lib demo_sess_env v4 s0 = Inr s" "ss_state s = 0" "ss_dest s = Some (demo_router demo_key)"
    by (rule demo_sess_out [OF k k])
  obtain t0 t where t: "sess_in demo_lib (Some (demo_router demo_key)) = Inr t0" "sess_start demo_lib demo_sess_env v4 t0 = Inr t"
    "ss_state t = 0" "ss_info t = demo_router demo_key"
    by (rule demo_sess_in [OF k])
  have o: "opened demo_lib demo_key (Suc n) s t" by (rule demo_opened [OF s(4,3) t(4,3)])
  have e: "\<forall>n. be_ident (sn_U demo_sess_env n) = demo_env" "\<forall>n. be_ident (sn_V demo_sess_env n) = demo_env"
    by (simp_all add: demo_sess_env_def demo_block_env_def)
  obtain s' t' where "paired demo_lib n s' t'" "sess_reach demo_lib s'" "sess_reach demo_lib t'"
    by (rule handshake_connects [OF s(1,2) t(1,2) demo_router_publishable [OF k] demo_conf_fits [OF k] e demo_router_publishable [OF k] _ _
          demo_lib_ok(1) _ demo_net o demo_router_option(1) [OF k]])
      (use demo_router_size(1) [OF k] demo_lib_ok(2) in \<open>simp_all add: knows_def\<close>)
  then show ?thesis using that [OF s(1,2) t(1,2) o] by blast
qed

lemma demo_dest_ok: "dest_ok (demo_router demo_key)"
proof -
  have "dest_key (demo_router demo_key) = demo_key"
    by (simp add: dest_key_def demo_router_def info_members_def demo_ident_def demo_ecies_def state_members_def)
  moreover have "length demo_key = 32" by (simp add: demo_keys_def)
  ultimately show ?thesis using demo_router_option(1) [of demo_key] by (simp add: dest_ok_def)
qed

lemma demo_accepts:
  obtains l s where "ls_accept demo_lib demo_sess_env None (ls_start (ls_new (demo_router demo_key))) = (l, Inr ())"
    "ls_run demo_lib (Accepted demo_sess_env None) (ls_start (ls_new (demo_router demo_key))) = (l, Inr ())"
    "ls_sessions l = [Some s]" "\<not> ss_ready s" "ls_running l" "ls_session_count l = []"
    "ss_state s = 0" "ss_info s = demo_router demo_key"
proof -
  have k: "length demo_key = 32" by (simp add: demo_keys_def)
  obtain t0 t where t0: "sess_in demo_lib (Some (demo_router demo_key)) = Inr t0" "sess_start demo_lib demo_sess_env v6 t0 = Inr t"
    "ss_state t = 0" "ss_info t = demo_router demo_key"
    by (rule demo_sess_in [OF k])
  have t: "bindr (sess_in demo_lib (Some (demo_router demo_key))) (sess_start demo_lib demo_sess_env v6) = Inr t"
    using t0(1,2) by simp
  have r: "\<not> ss_ready t" using sess_in_started [OF t0(1,2)] by blast
  let ?l = "ls_start (ls_new (demo_router demo_key)) :: (nat, nat) listener"
  have i: "ls_info ?l = demo_router demo_key" by (simp add: ls_start_def ls_new_def)
  have t': "bindr (sess_in demo_lib (Some (ls_info ?l))) (sess_start demo_lib demo_sess_env v6) = Inr t"
    unfolding i by (rule t)
  have a: "ls_accept demo_lib demo_sess_env None ?l = (?l\<lparr>ls_connect_count := [(ss_connect_key t, 1)], ls_sessions := [Some t]\<rparr>, Inr ())"
    unfolding ls_accept_eq [OF t' refl refl refl]
    by (simp add: ls_start_def ls_new_def count_of_def count_set_def ls_blacklisted_def MaxConnections_def)
  then have "ls_run demo_lib (Accepted demo_sess_env None) ?l = (?l\<lparr>ls_connect_count := [(ss_connect_key t, 1)], ls_sessions := [Some t]\<rparr>, Inr ())"
    by (simp add: ls_run_def) (simp add: ls_start_def)
  with a show ?thesis by (rule that) (use r t0(3,4) in \<open>simp_all add: ls_start_def ls_new_def\<close>)
qed

lemma demo_messages: "hs_message demo_hs 48 (\<lambda>s t. s = 1 \<and> t = 1) 0 0" "hs_message demo_hs 64 (\<lambda>s t. s = 7 \<and> t = 7) 6 6"
  by (intro demo_message_step; simp add: hs_over_def)+

end
