(* ===== verification/Spec2Isabelle.thy ===== *)
theory Spec2Isabelle
  imports DemoSession
begin

text \<open>
  A model of tini2p, a C++ implementation of I2P's NTCP2 transport, translated from the headers
  under \<open>src/\<close>. Each theory models the headers it names in its first text block:

  \<^item> \<open>Prelude\<close> results and undefined behaviour, lists of bytes, words; \<open>Exceptions\<close>
    (\<open>exception/exception.h\<close>) what is thrown; \<open>Bytes\<close> (\<open>bytes.h\<close>) the cursor that every
    serializer writes with and every deserializer reads with; \<open>SecBytes\<close> (\<open>crypto/sec_bytes.h\<close>,
    \<open>crypto/keys.h\<close>); \<open>TimeRand\<close> (\<open>time.h\<close>, \<open>crypto/rand.h\<close>).
  \<^item> \<open>Codec\<close> (\<open>crypto/codecs.h\<close>), \<open>Hkdf\<close> (\<open>crypto/hkdf.h\<close>, \<open>sha.h\<close>, \<open>blake.h\<close>,
    \<open>kdf_context.h\<close>), \<open>Nonce\<close> (\<open>crypto/nonce.h\<close>), \<open>Ecies\<close> (\<open>crypto/x25519.h\<close>, \<open>dh/x3dh.h\<close>,
    \<open>chacha_poly1305.h\<close>, \<open>ecies/x25519.h\<close>), \<open>Signing\<close> (\<open>crypto/eddsa\<close>).
  \<^item> \<open>Mapping_I2P\<close>, \<open>Address\<close>, \<open>Certificate\<close>, \<open>Identity\<close>, \<open>RouterInfo\<close> (\<open>data/router\<close>).
  \<^item> \<open>Blocks\<close> (the six kinds of block of \<open>data/blocks\<close>), \<open>BlockList\<close> (\<open>data/blocks/blocks.h\<close>).
  \<^item> \<open>Noise\<close> (\<open>ntcp2/noise.h\<close>, \<open>role.h\<close>, \<open>meta.h\<close>), \<open>DataPhase\<close> (\<open>ntcp2/data_phase\<close>,
    \<open>crypto/siphash.h\<close>).
  \<^item> \<open>Aes\<close> (\<open>crypto/aes.h\<close>), \<open>SessionRequest\<close>, \<open>SessionCreated\<close>, \<open>SessionConfirmed\<close>
    (\<open>ntcp2/session_request\<close>, \<open>session_created\<close>, \<open>session_confirmed\<close>) the three messages of the
    handshake with their handlers and key derivations.
  \<^item> \<open>Session\<close> (\<open>ntcp2/session/session.h\<close>) the connection. A session has one asynchronous
    operation outstanding, \<open>ss_waiting\<close>; \<open>sess_run\<close> is its completion, with the code's completion
    handler (\<open>got_request\<close> and the like) and the functions that it goes on to. The clock, the random
    numbers and what the socket says come with the event. \<open>sess_reach\<close> is every session that
    clients and the network can make, \<open>sess_ok\<close> its invariant, \<open>hs_step\<close> the abstract handshake.
  \<^item> \<open>Listener\<close>, \<open>Manager\<close> (\<open>ntcp2/session/listener.h\<close>, \<open>manager.h\<close>) the listener, whose I/O
    context all incoming sessions share, and the sessions of a router. \<open>ls_run\<close> is what the context
    runs for one event: a connection, an operation of a session, a cleaning.
  \<^item> \<open>EventLoop\<close> the locales of what such contexts run; \<open>Schedule\<close> processes that take turns, and the
    locale of those whose order does not matter; \<open>Publish\<close> router infos on their way into
    messages and out of them; \<open>Connection\<close> two sessions whose operations are connected and what
    each side does with the messages; \<open>Handshake\<close> the handshake from one end to the other.
  \<^item> \<open>Conversation\<close> (\<open>session.h\<close>'s \<open>Write\<close> and \<open>Read\<close>) two connected sessions (\<open>paired\<close>),
    each of which writes and reads. \<open>converse\<close> sends messages one at a time in any order of the two sides;
    \<open>connected_sessions_talk\<close> starts it where \<open>handshake_completes\<close> ends. \<open>Serving\<close> a listener at the
    responder's end of a connection.
  \<^item> \<open>Demo\<close>, \<open>DemoSession\<close> concrete values of the parameters, for the witnesses.

  The handshake. A connection is a record \<open>link\<close> of two sessions and the bytes on their way;
  \<open>link_step\<close> completes the operation of one side when what it waits for is there. The sixteen turns
  of \<open>handshake_turns\<close> are one order in which every operation can complete, nine for the initiator and
  seven for the responder; \<open>handshake_ends\<close> shows that no session has more than nine completions.
  The steps of the two sides commute (\<open>link_step_commute\<close>), so that one order speaks for all: every
  fair schedule comes to the same state (\<open>fair_settles\<close> of the locale \<open>commuting_steps\<close>).
  \<open>listeners_serve_initiators\<close> puts a listener in the responder's place, by a simulation (\<open>serves\<close>).
  What is assumed of the Noise library is a chain of messages and
  hashes on which both sides agree (\<open>hs_chain\<close>), with the key that the responder finds at its end. The
  initiator of the code takes its static keys from the identity of the destination, so that this
  key is in the initiator's own router info only when a router connects to itself, as the tests
  do: \<open>handshake_completes\<close> is about that case, \<open>strangers_never_connect\<close> about every other one.

  Conventions. An operation gives \<open>Inr\<close> of its result and its updated state, or \<open>Inl\<close> of a
  failure: an exception with its kind and text, or undefined behaviour, the branch for reads and
  writes outside of a buffer, dereferenced null pointers and casts out of range. An operation
  that throws gives the exception only, except where the object is used afterwards
  (\<open>AddBlock\<close>, \<open>dm_add_block\<close>): these give both. Classes are records, the buffers
  \<open>SecBytes\<close> and \<open>FixedSecBytes\<close> lists of bytes, fixed-width integers words, so that sums wrap as
  they do in the code. Numbers that the code copies from memory are little endian, Boost's big
  numbers big endian. Clock readings and random bytes are arguments. Code outside of the
  repository is an argument too: libsodium's and Crypto++'s primitives (records \<open>prims\<close>,
  \<open>sign_prims\<close>, \<open>dp_prims\<close>), the Noise-C library (record \<open>noise_lib\<close>), Boost's parsing of IP
  addresses. What the properties assume of them, the lengths of keys and digests, that
  decryption inverts encryption, that a signature verifies, is named (\<open>prims_ok\<close>, \<open>hmac_ok\<close>,
  \<open>cbc_ok\<close>, \<open>hs_message\<close>, \<open>hs_mix\<close>, \<open>cs_pair\<close>, \<open>sign_len_ok\<close>) and met by the values of \<open>Demo\<close> and
  \<open>DemoSession\<close>.

  The interfaces are locales: \<open>int_field\<close> numbers in a buffer, \<open>base_codec\<close> the two base
  encodings, \<open>framed_blocks\<close> the blocks of either kind of message, \<open>padded_options\<close> the options of the
  two messages that are sent with plain padding, \<open>commuting_steps\<close> the two ends of a
  connection, \<open>event_loop\<close> and \<open>ending_loop\<close>
  what runs on an I/O context (sessions, listeners, the requests to a manager), each interpreted
  where its operations are defined.

  Loops end by structural recursion, or by a measure: the cursor's remaining bytes for
  \<open>deser_entries\<close> and \<open>read_blocks\<close>. \<open>RandInRange\<close>, which need not end, works on a list
  of draws and gives \<open>None\<close> when none of them is in range.

  Not modelled: the mutexes, each of which guards one operation; the accessors that return a
  member; printing to the console; the trait headers; the
  race between a handler that runs and a client that stops its session; partial reads and writes
  of the socket, which \<open>async_read\<close> and \<open>async_write\<close> hide.
\<close>

section \<open>Sessions\<close>

text \<open>
  C1. Two sessions that were made and started, of routers whose infos serialize and where the
  initiator's router info carries the key that the responder finds in the handshake, become
  connected after sixteen completions over a network that delivers what is sent, nine of the
  initiator and seven of the responder, and they do so in whatever order the two sides take
  turns, as long as neither is passed over for ever: both are ready, the responder knows the
  initiator's key, nothing is left on the way, and both hold keys of the data phase that are in
  step for as many messages as the library's cipher states are.
\<close>
theorem handshake_completes:
  assumes "sess_out L U (Some d) (Some i) = Inr s0" "sess_start L V p s0 = Inr s"
    and "sess_in L (Some j) = Inr t0" "sess_start L W p' t0 = Inr t"
    and "publishable J i" "conf_fits i (unat (sn_drawn U))"
    and "\<forall>k. be_ident (sn_U U k) = J" "\<forall>k. be_ident (sn_V U k) = J"
    and "publishable J j" "info_size j \<le> 32763" "knows d j"
    and "cbc_ok (sl_aes L)" "\<forall>iv k. length (siphash (sl_dp L) iv k) = 16"
    and "net_ok J i j E"
    and "opened L key (Suc n) s t" "decoded_option ''s'' i = Inr key"
  shows "\<exists>s' t'. link_steps L (handshake_turns E) \<lparr>lk_alice = s, lk_bob = t, lk_ab = [], lk_ba = []\<rparr> =
      Some \<lparr>lk_alice = s', lk_bob = t', lk_ab = [], lk_ba = []\<rparr>
    \<and> (\<forall>\<sigma>. fair \<sigma> \<longrightarrow> (\<exists>N. \<forall>n\<ge>N. schedule (sched_step L (initiator_envs E) (responder_envs E)) (map \<sigma> [0..<n])
          (0, 0, \<lparr>lk_alice = s, lk_bob = t, lk_ab = [], lk_ba = []\<rparr>) = (9, 7, \<lparr>lk_alice = s', lk_bob = t', lk_ab = [], lk_ba = []\<rparr>)))
    \<and> ss_remote_key t' = key \<and> paired L n s' t'"
  by (rule handshake_connects [OF assms]) blast

theorem handshake_completes_witness:
  "\<exists>s t s' t' N.
     link_steps demo_lib (handshake_turns (\<lambda>_. demo_sess_env)) \<lparr>lk_alice = s, lk_bob = t, lk_ab = [], lk_ba = []\<rparr> =
       Some \<lparr>lk_alice = s', lk_bob = t', lk_ab = [], lk_ba = []\<rparr>
     \<and> schedule (sched_step demo_lib (initiator_envs (\<lambda>_. demo_sess_env)) (responder_envs (\<lambda>_. demo_sess_env))) (map demo_turns [0..<N])
         (0, 0, \<lparr>lk_alice = s, lk_bob = t, lk_ab = [], lk_ba = []\<rparr>) = (9, 7, \<lparr>lk_alice = s', lk_bob = t', lk_ab = [], lk_ba = []\<rparr>)
     \<and> ss_remote_key t' = demo_key \<and> paired demo_lib 0 s' t'"
proof -
  have k: "length demo_key = 32" by (simp add: demo_keys_def)
  obtain s0 s t0 t where m: "sess_out demo_lib demo_sess_env (Some (demo_router demo_key)) (Some (demo_router demo_key)) = Inr s0"
    "sess_start demo_lib demo_sess_env v4 s0 = Inr s" "sess_in demo_lib (Some (demo_router demo_key)) = Inr t0"
    "sess_start demo_lib demo_sess_env v4 t0 = Inr t" "opened demo_lib demo_key (Suc 0) s t"
    by (rule demo_connected)
  have e: "\<forall>n. be_ident (sn_U demo_sess_env n) = demo_env" "\<forall>n. be_ident (sn_V demo_sess_env n) = demo_env"
    by (simp_all add: demo_sess_env_def demo_block_env_def)
  have r: "info_size (demo_router demo_key) \<le> 32763" "knows (demo_router demo_key) (demo_router demo_key)"
    using demo_router_size(1) [OF k] by (simp_all add: knows_def)
  note h = handshake_completes [OF m(1-4) demo_router_publishable [OF k] demo_conf_fits [OF k] e demo_router_publishable [OF k] r(1,2)
      demo_lib_ok(1) _ demo_net m(5) demo_router_option(1) [OF k]]
  show ?thesis by (rule exI [of _ s], rule exI [of _ t]) (use h demo_lib_ok(2) demo_turns_fair in blast)
qed

text \<open>
  C2. The handshake with a listener at the responder's end: after it accepted the connection,
  the completions of the new session in its I/O context are those of a responder that is alone,
  so that the handshake completes as between two sessions; the listener goes on running and
  accepting, the session is ready under the initiator's key, and the sessions that were there
  before are untouched.
\<close>
theorem listeners_serve_initiators:
  assumes "sess_out L U (Some d) (Some i) = Inr s0" "sess_start L V p s0 = Inr s"
    and "ls_running l" "ls_accepting l" "ls_run L (Accepted W None) l = (l1, Inr ())" "ls_sessions l1 = ls_sessions l @ [Some t]"
    and "publishable J i" "conf_fits i (unat (sn_drawn U))"
    and "\<forall>k. be_ident (sn_U U k) = J" "\<forall>k. be_ident (sn_V U k) = J"
    and "publishable J (ls_info l)" "info_size (ls_info l) \<le> 32763" "knows d (ls_info l)"
    and "cbc_ok (sl_aes L)" "\<forall>iv k. length (siphash (sl_dp L) iv k) = 16"
    and "net_ok J i (ls_info l) E"
    and "opened L key (Suc n) s t" "decoded_option ''s'' i = Inr key"
  shows "\<exists>s' t' l2. service_steps L (length (ls_sessions l)) (handshake_turns E)
        \<lparr>sv_alice = s, sv_listener = l1, sv_ab = [], sv_ba = []\<rparr> =
        Some \<lparr>sv_alice = s', sv_listener = l2, sv_ab = [], sv_ba = []\<rparr>
      \<and> ls_running l2 \<and> ls_accepting l2 \<and> ls_sessions l2 = ls_sessions l @ [Some t']
      \<and> ss_remote_key t' = key \<and> paired L n s' t'"
  by (rule listener_connects [OF assms])

theorem listeners_serve_initiators_witness:
  "\<exists>s l1 s' t' l2. ls_run demo_lib (Accepted demo_sess_env None) (ls_start (ls_new (demo_router demo_key))) = (l1, Inr ())
     \<and> service_steps demo_lib 0 (handshake_turns (\<lambda>_. demo_sess_env)) \<lparr>sv_alice = s, sv_listener = l1, sv_ab = [], sv_ba = []\<rparr> =
         Some \<lparr>sv_alice = s', sv_listener = l2, sv_ab = [], sv_ba = []\<rparr>
     \<and> ls_running l2 \<and> ls_sessions l2 = [Some t'] \<and> ss_remote_key t' = demo_key \<and> paired demo_lib 0 s' t'"
proof -
  have k: "length demo_key = 32" by (simp add: demo_keys_def)
  let ?l = "ls_start (ls_new (demo_router demo_key)) :: (nat, nat) listener"
  obtain s0 s where m: "sess_out demo_lib demo_sess_env (Some (demo_router demo_key)) (Some (demo_router demo_key)) = Inr s0"
    "sess_start demo_lib demo_sess_env v4 s0 = Inr s" "ss_state s = 0" "ss_dest s = Some (demo_router demo_key)"
    by (rule demo_sess_out [OF k k])
  obtain l1 t where a: "ls_run demo_lib (Accepted demo_sess_env None) ?l = (l1, Inr ())" "ls_sessions l1 = [Some t]"
    "ss_state t = 0" "ss_info t = demo_router demo_key"
    by (rule demo_accepts)
  have l: "ls_running ?l" "ls_accepting ?l" "ls_sessions ?l = []" "ls_info ?l = demo_router demo_key" by (simp_all add: ls_start_def ls_new_def)
  have e: "\<forall>n. be_ident (sn_U demo_sess_env n) = demo_env" "\<forall>n. be_ident (sn_V demo_sess_env n) = demo_env"
    by (simp_all add: demo_sess_env_def demo_block_env_def)
  have r: "info_size (demo_router demo_key) \<le> 32763" "knows (demo_router demo_key) (demo_router demo_key)"
    using demo_router_size(1) [OF k] by (simp_all add: knows_def)
  have t: "ls_sessions l1 = ls_sessions ?l @ [Some t]" using a(2) l(3) by simp
  have h: "\<forall>iv k. length (siphash (sl_dp demo_lib) iv k) = 16" using demo_lib_ok(2) by blast
  have "\<exists>s' t' l2. service_steps demo_lib (length (ls_sessions ?l)) (handshake_turns (\<lambda>_. demo_sess_env))
        \<lparr>sv_alice = s, sv_listener = l1, sv_ab = [], sv_ba = []\<rparr> =
        Some \<lparr>sv_alice = s', sv_listener = l2, sv_ab = [], sv_ba = []\<rparr>
      \<and> ls_running l2 \<and> ls_accepting l2 \<and> ls_sessions l2 = ls_sessions ?l @ [Some t']
      \<and> ss_remote_key t' = demo_key \<and> paired demo_lib 0 s' t'"
    by (rule listeners_serve_initiators [OF m(1,2) l(1,2) a(1) t, unfolded l(4), OF demo_router_publishable [OF k] demo_conf_fits [OF k] e
          demo_router_publishable [OF k] r demo_lib_ok(1) h demo_net demo_opened [OF m(4,3) a(4,3)] demo_router_option(1) [OF k]])
  then show ?thesis using a(1) unfolding l(3) by auto
qed

text \<open>
  C3. Two sessions whose keys are in step for at least as many messages as they exchange, as
  they are after the handshake, carry any conversation: in whatever order the two sides write
  sendable messages, every write and every read succeeds, each message is read with the values
  that were written, and the sessions stay connected.
\<close>
theorem connected_sessions_talk:
  assumes "paired L (length xs + n) s t" "list_all speakable xs"
  shows "\<exists>ms s' t'. converse L xs s t = Inr (ms, s', t') \<and> length ms = length xs
    \<and> list_all understood ms \<and> paired L n s' t'"
  using assms by (rule converse_understood)

theorem connected_sessions_talk_witness:
  "\<exists>s t ms s' t'. sess_reach demo_lib s \<and> sess_reach demo_lib t
     \<and> converse demo_lib [(Initiator, demo_sess_env, demo_sess_env, demo_message, demo_message),
         (Responder, demo_sess_env, demo_sess_env, demo_message, demo_message)] s t = Inr (ms, s', t')
     \<and> list_all understood ms"
proof -
  obtain s t where c: "sess_reach demo_lib s" "sess_reach demo_lib t" "paired demo_lib 2 s t" by (rule demo_connected)
  let ?xs = "[(Initiator, demo_sess_env, demo_sess_env, demo_message, demo_message),
     (Responder, demo_sess_env, demo_sess_env, demo_message, demo_message)]"
  have "list_all speakable ?xs"
    using demo_sendable by (simp add: speakable_def demo_sess_env_def)
  moreover have "paired demo_lib (length ?xs + 0) s t" using c(3) by (simp add: numeral_2_eq_2)
  ultimately have "\<exists>ms s' t'. converse demo_lib ?xs s t = Inr (ms, s', t') \<and> length ms = length ?xs
      \<and> list_all understood ms \<and> paired demo_lib 0 s' t'"
    by (intro connected_sessions_talk)
  then show ?thesis using c(1,2) by blast
qed







text \<open>
  C7. A router info whose key option is the single letter A passes the responder's comparison of
  keys, whatever key the handshake authenticated: the option decodes to no bytes, and only as
  many bytes as it has are compared.
\<close>
theorem authentication_can_be_skipped:
  assumes "mapping_entry_at (ascii ''s'') (ri_options d) = Inr [65]"
  shows "decoded_option ''s'' d = Inr [] \<and> check_static_key L E [] t = HandleDataPhase L E t"
proof -
  have "Decode Base64 [65] = Inr []"
    by code_simp
  then show ?thesis using assms by (simp add: decoded_option_def check_static_key_def equal_prefix_def)
qed

theorem authentication_can_be_skipped_witness:
  "decoded_option ''s'' demo_info = Inr [] \<and> (\<forall>t. check_static_key demo_lib demo_sess_env [] t = HandleDataPhase demo_lib demo_sess_env t)"
proof -
  have "mapping_entry_at (ascii ''s'') (ri_options demo_info) = Inr [65]"
    by (simp add: demo_info_def demo_options_def mapping_entry_at_lookup kv_lookup_def ascii_def)
  then show ?thesis using authentication_can_be_skipped by blast
qed

text \<open>
  C8. After at most nine completions, with any errors and any bytes, a session that can be
  reached has nothing outstanding: the handshake has no cycle.
\<close>
theorem handshake_ends:
  assumes "sess_reach L s" "9 \<le> length evs"
  shows "ss_waiting (sess_runs L evs s) = None"
  using sess_reach_ok [OF assms(1)] assms(2) by (rule sess_runs_end)

theorem handshake_ends_witness:
  "\<exists>s. ss_waiting s = Some WaitRequest \<and> ss_waiting (sess_runs demo_lib (replicate 9 (demo_sess_env, None, [])) s) = None"
proof -
  have k: "length demo_key = 32" by (simp add: demo_keys_def)
  obtain t where t: "sess_reach demo_lib t" "ss_waiting t = Some WaitRequest"
    by (rule demo_sess_in_any [OF k])
  then show ?thesis using handshake_ends [OF t(1), of "replicate 9 (demo_sess_env, None, [])"] by auto
qed

text \<open>
  C9. In every session that clients and the network can reach, the messages, keys and router
  infos that the handler of the outstanding operation dereferences are there, a ready session
  has all of them and nothing outstanding, and a stopped one is neither ready nor has anything
  outstanding.
\<close>
theorem sessions_are_consistent:
  assumes "sess_reach L s"
  shows "hv_ok (sess_view s)"
  using sess_reach_ok [OF assms] by (simp add: sess_ok_def)

theorem sessions_are_consistent_witness: "\<exists>s. ss_ready s \<and> hv_ok (sess_view (s :: (nat, nat) session))"
proof -
  obtain s t where "sess_reach demo_lib t" "paired demo_lib 0 s t" by (rule demo_connected)
  then show ?thesis using sessions_are_consistent by (auto simp: paired_def)
qed

section \<open>The data phase\<close>

text \<open>
  C10. Every sequence of sendable messages that one side of an established session writes is
  written without an error, and the other side, reading the buffers in the same order, finds in
  each message the values of the blocks that were written.
\<close>
theorem messages_arrive_in_order:
  assumes "list_all (sendable W) ms" "sip_ok P k" "same_sip_keys (write_dir rl) k l" "read_dir rl' = write_dir rl"
    and "cs_synced L (length ms) (cipherstate (write_dir rl) k) (cipherstate (write_dir rl) l)"
  shows "\<exists>ms' k' rs l'. write_all L P rl ms k = Inr (ms', k')
    \<and> read_all L P W rl' (map dm_buf ms') r l = Inr (rs, l')
    \<and> map (map data_view \<circ> dm_blocks) rs = map (map data_view \<circ> dm_blocks) ms'"
  by (rule all_sent [OF assms])

theorem messages_arrive_in_order_witness:
  "\<exists>ms' k' rs l'. write_all demo_noise demo_dp Initiator (replicate 2 (\<lambda>_. demo_block_env, demo_message)) demo_kdf = Inr (ms', k')
    \<and> read_all demo_noise demo_dp (\<lambda>_. demo_block_env) Responder (map dm_buf ms') demo_message demo_kdf = Inr (rs, l')
    \<and> map (map data_view \<circ> dm_blocks) rs = map (map data_view \<circ> dm_blocks) ms'"
proof (rule messages_arrive_in_order)
  show "list_all (sendable (\<lambda>_. demo_block_env)) (replicate 2 (\<lambda>_. demo_block_env, demo_message))"
    by (simp add: numeral_2_eq_2 demo_sendable)
qed (simp_all add: demo_dp_ok demo_noise_synced read_dir_def write_dir_def del: cs_synced.simps)

text \<open>
  C11. The constructor of the data phase's key derivation leaves all key parts and both IVs of
  the length obfuscation zero, whatever the handshake was, because each call of the HMAC
  overwrites its first argument.
\<close>
theorem length_keys_are_zero:
  assumes "kdf_new L P rl (Some s) = Inr (k, s')" and "\<And>s n h. hs_get_hash L s n = Inr h \<Longrightarrow> length h = n"
  shows "key_pt1_ab k = replicate 8 0 \<and> key_pt2_ab k = replicate 8 0 \<and> iv_ab k = replicate 8 0
    \<and> key_pt1_ba k = replicate 8 0 \<and> key_pt2_ba k = replicate 8 0 \<and> iv_ba k = replicate 8 0"
  by (rule kdf_new_zero [OF assms])

theorem length_keys_are_zero_witness:
  "\<exists>k s'. kdf_new demo_noise demo_dp Initiator (Some 0) = Inr (k, s') \<and> key_pt1_ab k = replicate 8 0"
proof -
  have "\<exists>k s'. kdf_new demo_noise demo_dp Initiator (Some 0) = Inr (k, s')"
    by (simp add: kdf_new_def noise_split_def get_handshake_hash_def demo_noise_def InitSipKeys_zero)
  then obtain k s' where "kdf_new demo_noise demo_dp Initiator (Some 0) = Inr (k, s')" by blast
  then show ?thesis using length_keys_are_zero [of demo_noise demo_dp Initiator 0 k s'] demo_noise_hash by blast
qed

text \<open>
  C12. A message whose length, with the MAC, is 32784 or more is dropped by the reader without
  an error and without being decrypted, since the length is cast to a signed 16-bit number: the
  message object keeps its old blocks, and only the length keys advance.
\<close>
theorem long_messages_are_dropped:
  assumes "MsgMinLen \<le> length (dm_buf m)" "length (dm_buf m) \<le> MsgMaxLen"
    and "ProcessLength P (word_of_be (take 2 (dm_buf m))) (read_dir rl) k = Inr (len, k1)"
    and "32784 \<le> unat len"
  shows "dp_Read L P V rl True m k = Inr (m, k1)"
  using dp_Read_drops [of m True P rl k len k1 L V] assms by simp

theorem long_messages_are_dropped_witness:
  "\<exists>k1. dp_Read demo_noise demo_dp (\<lambda>_. demo_block_env) Initiator True (demo_message\<lparr>dm_buf := [0x87, 0x17, 0]\<rparr>) demo_kdf =
     Inr (demo_message\<lparr>dm_buf := [0x87, 0x17, 0]\<rparr>, k1)"
proof -
  have "SipHash_Hash demo_dp (replicate 8 0) (replicate 8 0) (replicate 8 0) = Inr (7 # 7 # replicate 14 7)"
    by (simp add: SipHash_Hash_def demo_dp_def bytes_on_written write_data_fits fixed_default_def)
  then have "ProcessLength demo_dp (word_of_be [0x87, 0x17]) (read_dir Initiator) demo_kdf =
      Inr (0x8010, demo_kdf\<lparr>iv_ab := take 8 (7 # 7 # replicate 14 7)\<rparr>)"
    by (simp add: ProcessLength_def DeriveMask_def read_dir_def demo_kdf_def raw_read_bytes_def word_of_be_def)
  then have "dp_Read demo_noise demo_dp (\<lambda>_. demo_block_env) Initiator True (demo_message\<lparr>dm_buf := [0x87, 0x17, 0]\<rparr>) demo_kdf =
      Inr (demo_message\<lparr>dm_buf := [0x87, 0x17, 0]\<rparr>, demo_kdf\<lparr>iv_ab := take 8 (7 # 7 # replicate 14 7)\<rparr>)"
    by (intro long_messages_are_dropped [where len = "0x8010"]) (simp_all add: dm_sizes)
  then show ?thesis by blast
qed



section \<open>The messages of the handshake\<close>

text \<open>
  C14. A SessionRequest message is written without an error, and a reader in step with the
  writer finds its options and its ciphertext, whether it is given all of the message or the
  first 64 bytes as the session does; the padding only in the first case.
\<close>
theorem request_message_travels:
  assumes "cbc_ok C" "hs_message L 48 R s t"
    and "sr_of_sizes now r n p = Inr m" "MinPaddingSize \<le> unat p"
    and "sr_default now' drawn r' = Inr q" "unat drawn \<le> MaxPaddingSize" "check_lag_s now' now"
  shows "\<exists>m' s' t' body x y. srq_Write L C now a m s = Inr (m', s') \<and> R s' t'
    \<and> sr_data m' = body @ sr_padding m \<and> length body = 64
    \<and> so_fields (sr_options m') = (ntcp2_version, p, n, now)
    \<and> srq_Read L C now' a (q\<lparr>sr_data := sr_data m'\<rparr>) t =
        Inr (q\<lparr>sr_data := x, sr_options := sr_options m', sr_ciphertext := sr_ciphertext m', sr_padding := sr_padding m\<rparr>, t')
    \<and> srq_Read L C now' a (q\<lparr>sr_data := body\<rparr>) t =
        Inr (q\<lparr>sr_data := y, sr_options := sr_options m', sr_ciphertext := sr_ciphertext m'\<rparr>, t')"
proof -
  note f = sr_of_sizes_sized [OF assms(3)]
  have q: "sr_sized q" using assms(5) sr_default_Inr [OF assms(6), of now' r'] by (metis Inr_inject)
  have v: "so_version (sr_options m) = ntcp2_version" using f by (simp add: so_ok_def)
  obtain m' s' t' body where m: "srq_Write L C now a m s = Inr (m', s')" "R s' t'" "sr_data m' = body @ sr_padding m" "length body = 64"
    "so_fields (sr_options m') = so_fields (sr_options m)"
    "\<And>rest. rest = [] \<or> rest = sr_padding m \<Longrightarrow>
       \<exists>x. srq_Read L C now' a (q\<lparr>sr_data := body @ rest\<rparr>) t =
         Inr (q\<lparr>sr_data := x, sr_options := sr_options m', sr_ciphertext := sr_ciphertext m',
           sr_padding := (if rest = [] then sr_padding q else sr_padding m)\<rparr>, t')"
    by (rule srq_write_read [OF assms(1,2), of m now q now' a]) (use f q assms(4,7) in auto)
  have pn: "sr_padding m \<noteq> []" using f assms(4) by (auto simp: sr_sizes)
  show ?thesis
    using m(1-5) m(6) [of "sr_padding m"] m(6) [of "[]"] pn f v by (auto simp: so_fields_def)
qed

theorem request_message_travels_witness:
  "\<exists>m q m' s' x. sr_of_sizes 1000 demo_rng 1000 40 = Inr m \<and> sr_default 1000 32 demo_rng = Inr q
    \<and> srq_Write demo_hs (sl_aes demo_lib) 1000 (aes_new [] []) m 0 = Inr (m', s') \<and> s' = 1
    \<and> srq_Read demo_hs (sl_aes demo_lib) 1000 (aes_new [] []) (q\<lparr>sr_data := sr_data m'\<rparr>) 0 =
        Inr (q\<lparr>sr_data := x, sr_options := sr_options m', sr_ciphertext := sr_ciphertext m', sr_padding := sr_padding m\<rparr>, 1)"
proof -
  obtain m where m: "sr_of_sizes 1000 demo_rng 1000 40 = Inr m"
    by (rule sr_of_sizes_Inr [of 40 1000]) (auto simp: sr_sizes)
  obtain q where q: "sr_default 1000 32 demo_rng = Inr q" by (rule sr_default_Inr [of 32]) (auto simp: sr_sizes)
  show ?thesis
    using request_message_travels [OF demo_lib_ok(1) demo_messages(1) m _ q, of "aes_new [] []"] m q by (auto simp: sr_sizes)
qed

text \<open>
  C15. The same for a SessionCreated message, whose options are a padding length and a time.
\<close>
theorem created_message_travels:
  assumes "cbc_ok C" "hs_message L 48 R s t"
    and "sc_default now drawn r = Inr m" "MinPaddingSize \<le> unat drawn" "unat drawn \<le> MaxPaddingSize"
    and "sc_default now' drawn' r' = Inr q" "MinPaddingSize \<le> unat drawn'" "unat drawn' \<le> MaxPaddingSize" "check_lag_s now' now"
  shows "\<exists>m' s' t' body x y. scr_Write L C now a m s = Inr (m', s') \<and> R s' t'
    \<and> sc_data m' = body @ sc_padding m \<and> length body = 64
    \<and> co_fields (sc_options m') = (ucast drawn, now)
    \<and> scr_Read L C now' a (q\<lparr>sc_data := sc_data m'\<rparr>) t =
        Inr (q\<lparr>sc_data := x, sc_options := sc_options m', sc_ciphertext := sc_ciphertext m', sc_padding := sc_padding m\<rparr>, t')
    \<and> scr_Read L C now' a (q\<lparr>sc_data := body\<rparr>) t =
        Inr (q\<lparr>sc_data := y, sc_options := sc_options m', sc_ciphertext := sc_ciphertext m'\<rparr>, t')"
proof -
  have m: "sc_sized m" "co_ok now (sc_options m)" "length (sc_padding m) = unat (co_pad_len (sc_options m))"
    "MinPaddingSize \<le> unat (co_pad_len (sc_options m))" "co_timestamp (sc_options m) = now" "co_pad_len (sc_options m) = ucast drawn"
    by (rule sc_default_Inr [OF assms(4,5), of now r], use assms(3) in simp)+
  have q: "sc_sized q" by (rule sc_default_Inr [OF assms(7,8), of now' r'], use assms(6) in simp)
  obtain m' s' t' body where w: "scr_Write L C now a m s = Inr (m', s')" "R s' t'" "sc_data m' = body @ sc_padding m" "length body = 64"
    "co_fields (sc_options m') = co_fields (sc_options m)"
    "\<And>rest. rest = [] \<or> rest = sc_padding m \<Longrightarrow>
       \<exists>x. scr_Read L C now' a (q\<lparr>sc_data := body @ rest\<rparr>) t =
         Inr (q\<lparr>sc_data := x, sc_options := sc_options m', sc_ciphertext := sc_ciphertext m',
           sc_padding := (if rest = [] then sc_padding q else sc_padding m)\<rparr>, t')"
    by (rule scr_write_read [OF assms(1,2), of m now q now' a]) (use m q assms(9) in auto)
  have pn: "sc_padding m \<noteq> []" using m(3,4) by (auto simp: sr_sizes)
  show ?thesis
    using w(1-5) w(6) [of "sc_padding m"] w(6) [of "[]"] pn m(5,6) by (auto simp: co_fields_def)
qed

theorem created_message_travels_witness:
  "\<exists>m q m' s' x. sc_default 1000 40 demo_rng = Inr m \<and> sc_default 1000 32 demo_rng = Inr q
    \<and> scr_Write demo_hs (sl_aes demo_lib) 1000 (aes_new [] []) m 0 = Inr (m', s') \<and> s' = 1
    \<and> scr_Read demo_hs (sl_aes demo_lib) 1000 (aes_new [] []) (q\<lparr>sc_data := sc_data m'\<rparr>) 0 =
        Inr (q\<lparr>sc_data := x, sc_options := sc_options m', sc_ciphertext := sc_ciphertext m', sc_padding := sc_padding m\<rparr>, 1)"
proof -
  obtain m where m: "sc_default 1000 40 demo_rng = Inr m" by (rule sc_default_Inr [of 40 1000 demo_rng]) (auto simp: sr_sizes)
  obtain q where q: "sc_default 1000 32 demo_rng = Inr q" by (rule sc_default_Inr [of 32 1000 demo_rng]) (auto simp: sr_sizes)
  show ?thesis
    using created_message_travels [OF demo_lib_ok(1) demo_messages(1) m _ _ q, of "aes_new [] []"] m q by (auto simp: sr_sizes)
qed

text \<open>
  C16. A SessionConfirmed message that its constructor makes from a router info is written
  without an error when the request announced its size, it has the size that was announced, and
  a reader in step with the writer finds a router info with the same options in it.
\<close>
theorem confirmed_message_travels:
  assumes "hs_message L 64 R s t" "publishable J i" "conf_fits i (unat drawn)"
    and "\<forall>k. be_ident (U k) = J" "\<forall>k. be_ident (V k) = J"
    and "cf_of_info_drawn U V (Some i) drawn = Inr m" "so_m3p2_len opts = cf_payload_size m" "reads_infos J i W"
  shows "\<exists>m' s' t' y d. sco_Write L V opts m s = Inr (m', s') \<and> R s' t'
    \<and> length (cf_data m') = PartOneSize + unat (so_m3p2_len opts)
    \<and> sco_Read L W opts (r\<lparr>cf_data := cf_data m'\<rparr>) t = Inr (y, t')
    \<and> ib_info (cf_info y) = Some d \<and> kv (ri_options d) = kv (ri_options i)"
proof -
  have c: "conf_of J i (unat drawn) m" by (rule cf_of_info_of [OF assms(2-5)]) (use assms(6) in simp)
  show ?thesis
    by (rule confirmed_write_read [OF assms(1) c assms(3,5,7)]) (use assms(8) in blast)
qed

theorem confirmed_message_travels_witness:
  "\<exists>m opts m' y d. cf_of_info_drawn (\<lambda>_. demo_block_env) (\<lambda>_. demo_block_env) (Some (demo_router demo_key)) 32 = Inr m
    \<and> sco_Write demo_hs (\<lambda>_. demo_block_env) opts m 6 = Inr (m', 7)
    \<and> sco_Read demo_hs (\<lambda>_. demo_block_env) opts m' 6 = Inr (y, 7)
    \<and> ib_info (cf_info y) = Some d \<and> kv (ri_options d) = kv (ri_options (demo_router demo_key))"
proof -
  have k: "length demo_key = 32" by (simp add: demo_keys_def)
  have f: "conf_fits (demo_router demo_key) (unat (32 :: u32))" using demo_conf_fits [OF k] by (simp add: demo_sess_env_def)
  have e: "\<forall>k. be_ident ((\<lambda>_. demo_block_env) (k :: nat)) = demo_env" by (simp add: demo_block_env_def)
  obtain m where m: "cf_of_info_drawn (\<lambda>_. demo_block_env) (\<lambda>_. demo_block_env) (Some (demo_router demo_key)) 32 = Inr m"
    by (rule cf_of_info_of [OF demo_router_publishable [OF k] f e e])
  have o: "so_m3p2_len (so_blank\<lparr>so_m3p2_len := cf_payload_size m\<rparr>) = cf_payload_size m" by simp
  note t = confirmed_message_travels [OF demo_messages(2) demo_router_publishable [OF k] f e e m o demo_reads]
  obtain m' s' t' where "sco_Write demo_hs (\<lambda>_. demo_block_env) (so_blank\<lparr>so_m3p2_len := cf_payload_size m\<rparr>) m 6 = Inr (m', s')"
    using t by blast
  then show ?thesis using t [of m'] m by auto
qed

section \<open>Listening\<close>

text \<open>
  C17. Whatever connects, completes or is cleaned, the sessions of a listener satisfy their
  invariant, are responders, and no two of them have the same connection key.
\<close>
theorem listeners_keep_sessions_apart:
  "ls_ok (ls_runs L evs (ls_start (ls_new i)))"
  by (rule ls_runs_ok [OF ls_new_ok])

text \<open>
  C18. Two connections from one host: the second one is refused by an exception that ends the
  loop of the listener for good, and the host is blacklisted, whatever happens afterwards.
\<close>
theorem second_connection_ends_listening:
  assumes "ls_running l" "ls_accepting l" "ls_run L (Accepted E ec) l = (l1, Inr ())" "sn_host E' = sn_host E"
  shows "\<exists>host. sn_host E = Inr host \<and> \<not> ls_running (ls_runs L (Accepted E' None # evs) l1)
    \<and> ls_blacklisted (sl_sha L host) (ls_runs L (Accepted E' None # evs) l1)"
proof -
  have a: "ls_accept L E ec l = (l1, Inr ())" using assms(1-3) by (simp add: ls_run_def)
  have r: "ls_running l1" "ls_accepting l1" by (rule ls_accept_Inr [OF a], use assms(1) in simp)+
  obtain e l2 k where l2: "ls_accept L E' None l1 = (l2, Inl e)" "\<not> ls_running l2" "ls_blacklisted k l2"
    "\<exists>host. sn_host E = Inr host \<and> k = sl_sha L host"
    by (rule ls_accept_again [OF a assms(4)])
  have "ls_event L (Accepted E' None) l1 = l2" using r l2(1) by (simp add: ls_event_def ls_run_def)
  then have "ls_runs L (Accepted E' None # evs) l1 = l2"
    using ls_runs_halted [OF l2(2), of L evs] by (simp add: ls_runs_def)
  then show ?thesis using l2 by auto
qed

theorem second_connection_ends_listening_witness:
  "\<exists>l. ls_run demo_lib (Accepted demo_sess_env None) (ls_start (ls_new (demo_router demo_key))) = (l, Inr ())
     \<and> \<not> ls_running (ls_runs demo_lib [Accepted demo_sess_env None] l)"
proof -
  obtain l where l: "ls_run demo_lib (Accepted demo_sess_env None) (ls_start (ls_new (demo_router demo_key))) = (l, Inr ())"
    by (rule demo_accepts)
  have "ls_running (ls_start (ls_new (demo_router demo_key)))" "ls_accepting (ls_start (ls_new (demo_router demo_key)))"
    by (simp_all add: ls_start_def)
  then show ?thesis using second_connection_ends_listening [OF _ _ l refl, of "[]"] l by auto
qed



text \<open>
  C20. Cleaning a listener with a session to remove in front of one that is kept leaves a null
  pointer at the end of the vector, which the next cleaning, stopping the listener, and looking
  up any other key dereference.
\<close>
theorem cleaning_leaves_null:
  assumes "ls_sessions l = [Some s, Some t]" "to_remove l s" "\<not> to_remove l t" "ls_session_count l = []"
  shows "\<exists>l'. ls_clean held None l = (l', Inr ()) \<and> ls_sessions l' = [Some t, None]
    \<and> snd (ls_clean held' None l') = Inl (Undefined_behaviour ''null pointer'')
    \<and> snd (ls_stop l') = Inl (Undefined_behaviour ''null pointer'')
    \<and> (k \<noteq> ss_remote_key t \<longrightarrow> ls_session k l' = Inl (Undefined_behaviour ''null pointer''))"
proof -
  have ec: "check_ec (Ex ''SessionListener'' ''CleanSessions'') None = Inr ()" by (simp add: check_ec_def)
  obtain l' where l': "ls_clean held None l = (l', Inr ())" "ls_sessions l' = [Some t, None]"
    using clean_leaves_null [OF assms(1-3) ec assms(4)] by simp
  then have "deref_all (ls_sessions l') = Inl (Undefined_behaviour ''null pointer'')" by (simp add: deref_all_null del: deref_all.simps)
  then show ?thesis
    using l' ec by (simp add: ls_clean_def ls_stop_def ls_session_def) (simp add: deref_def)
qed

theorem cleaning_leaves_null_witness:
  "\<exists>l l' s t. ls_sessions l = [Some s, Some t] \<and> ss_ready t
     \<and> ls_clean (\<lambda>_. True) None (l :: (nat, nat) listener) = (l', Inr ()) \<and> snd (ls_stop l') = Inl (Undefined_behaviour ''null pointer'')"
proof -
  obtain s t where "paired demo_lib 0 s t" by (rule demo_connected)
  then have t: "ss_ready t" by (simp add: paired_def)
  let ?l = "(ls_start (ls_new demo_info))\<lparr>ls_sessions := [Some (t\<lparr>ss_ready := False\<rparr>), Some t]\<rparr>"
  have "\<exists>l'. ls_clean (\<lambda>_. True) None ?l = (l', Inr ()) \<and> snd (ls_stop l') = Inl (Undefined_behaviour ''null pointer'')"
    using cleaning_leaves_null [of ?l "t\<lparr>ss_ready := False\<rparr>" t "\<lambda>_. True" "\<lambda>_. True" "[]"] t
    by (auto simp: to_remove_def ls_blacklisted_def ls_start_def ls_new_def)
  then obtain l' where "ls_clean (\<lambda>_. True) None ?l = (l', Inr ())" "snd (ls_stop l') = Inl (Undefined_behaviour ''null pointer'')"
    by blast
  then show ?thesis
    using t by (intro exI [of _ ?l] exI [of _ l'] exI [of _ "t\<lparr>ss_ready := False\<rparr>"] exI [of _ t]) simp
qed





section \<open>Blocks\<close>

text \<open>
  C23. The loop that checks the order of the blocks of a message accepts exactly the lists in
  which padding comes last, a termination block comes last but for padding, and each of them
  comes at most once.
\<close>
theorem block_order_is_the_protocols:
  "CheckBlockOrder_data bs ex = Inr () \<longleftrightarrow>
     (\<exists>xs ys. map data_type bs = xs @ ys \<and> Padding \<notin> set xs \<and> Termination \<notin> set xs
       \<and> ys \<in> {[], [Padding], [Termination], [Termination, Padding]})"
  by (simp add: CheckBlockOrder_data_iff data_tails_def)

text \<open>
  C24. The check of the blocks of part two of the SessionConfirmed message accepts exactly the
  five lists of a router info followed by optional options and optional padding, and the empty
  list, which the protocol does not allow.
\<close>
theorem confirm_order_is_the_protocols:
  "CheckBlockOrder_confirm bs ex = Inr () \<longleftrightarrow> map confirm_type bs \<in>
     {[], [Info], [Info, Padding], [Info, Options], [Info, Options, Padding]}"
  by (rule CheckBlockOrder_confirm_iff)





text \<open>
  C27. A block of any of the six types that is written to a buffer with room for it is read back
  from the same position with its value, and the reader stops where the writer stopped.
\<close>
theorem block_written_is_read:
  assumes "WriteToBuffer data_buffer (data_serialize V) (written ys buf) b = Inr (b', w)" "data_sized V b"
    and "val_ok W (data_view b')" "length ys + length (val_frame (data_view b')) \<le> length buf"
  shows "\<exists>b''. ReadToBlock (TypeToBlock_data W) set_data_buffer (data_deserialize W)
      (reading ys (drop (length ys) (sbuf w))) c ex
     = Inr (b'', reading (ys @ val_frame (data_view b')) (drop (spos w) buf)) \<and> data_view b'' = data_view b'"
  by (rule data_blocks.write_read [OF assms])

theorem block_written_is_read_witness:
  "\<exists>b' w b'' r. WriteToBuffer data_buffer (data_serialize demo_block_env) (written [] (replicate 9 0)) (DDateTime demo_time_block) = Inr (b', w)
    \<and> ReadToBlock (TypeToBlock_data demo_block_env) set_data_buffer (data_deserialize demo_block_env)
      (reading [] (sbuf w)) b' (Ex ''DataPhase'' ''deserialize'') = Inr (b'', r) \<and> data_view b'' = DateTimeV 1000"
proof -
  obtain b' where b': "block_writes demo_block_env (DDateTime demo_time_block) b'" "data_view b' = DateTimeV 1000"
    using demo_blocks_write(1) by blast
  then have w: "WriteToBuffer data_buffer (data_serialize demo_block_env) (written [] (replicate 9 0)) (DDateTime demo_time_block)
      = Inr (b', written ([] @ val_frame (data_view b')) (replicate 9 0))"
    by (intro data_blocks.write_room) (simp_all add: block_writes_def)
  have s: "data_sized demo_block_env (DDateTime demo_time_block)" "val_ok demo_block_env (data_view b')"
    using b' by (simp_all add: block_writes_def demo_block_env_def)
  show ?thesis
    using block_written_is_read [OF w s, of b' "Ex ''DataPhase'' ''deserialize''"] w b'(2) by auto
qed

section \<open>Router infos and identities\<close>

text \<open>
  C28. A well-formed router info that serializes is deserialized by another router to the same
  identity, date, addresses, options and signature, and the reader's check of the signature
  succeeds.
\<close>
theorem router_info_travels:
  assumes ok: "info_ok i" "ri_options_ok (ri_options i)" "sign_len_ok (env_sign E)"
    and ser: "info_serialize E r now i = Inr i'" and d: "info_fresh (ri_identity i) d"
    and key: "\<And>sk. sk_ptr (sobj (signing (ri_identity i))) = Some sk \<Longrightarrow>
        sk_to_pk (env_sign E) sk = Some (pk_ptr (sobj (signing (ri_identity i))))"
    and law: "\<And>msg sk pk sig. sign_detached (env_sign E) msg sk = Some sig \<Longrightarrow>
        sk_to_pk (env_sign E) sk = Some pk \<Longrightarrow> verify_detached (env_sign E) sig msg pk"
  shows "\<exists>d'. info_deserialize E r1 r2 (d\<lparr>ri_buf := ri_buf i'\<rparr>) = Inr d'
    \<and> info_view d' = info_view i' \<and> info_verify E d' = Inr True"
proof -
  obtain d' where d': "info_deserialize E r1 r2 (d\<lparr>ri_buf := ri_buf i'\<rparr>) = Inr d'"
    "info_view d' = info_view i'" "ri_buf d' = ri_buf i'"
    using info_roundtrip [OF ok ser d] by blast
  have sk: "skind (signing (ri_identity d')) = skind (signing (ri_identity i))"
    using info_deserialize_kind [OF d'(1)] info_serialize_kind [OF ok(1,3) ser] d'(2)
    by (auto simp: info_view_def)
  have "info_verify E d' = Inr True" by (rule info_verify_read [OF ok(1,3) ser d'(2,3) sk key law])
  then show ?thesis using d'(1,2) by blast
qed

theorem router_info_travels_witness:
  "\<exists>i' d'. info_serialize demo_env demo_rng 5 demo_info = Inr i'
    \<and> info_deserialize demo_env demo_rng demo_rng (demo_info\<lparr>ri_options := empty_mapping, ri_buf := ri_buf i'\<rparr>) = Inr d'
    \<and> info_view d' = info_view i' \<and> info_verify demo_env d' = Inr True"
proof -
  have e: "env_sign demo_env = demo_sign" by (simp add: demo_env_def)
  obtain i' where i': "info_serialize demo_env demo_rng 5 demo_info = Inr i'"
    using demo_info_serializes by blast
  have "\<exists>d'. info_deserialize demo_env demo_rng demo_rng ((info_members demo_ident)\<lparr>ri_buf := ri_buf i'\<rparr>) = Inr d'
    \<and> info_view d' = info_view i' \<and> info_verify demo_env d' = Inr True"
  proof (rule router_info_travels [OF demo_info_ok _ i' demo_fresh])
    show "sk_to_pk (env_sign demo_env) sk = Some (pk_ptr (sobj (signing (ri_identity demo_info))))"
      if "sk_ptr (sobj (signing (ri_identity demo_info))) = Some sk" for sk
      using that by (auto simp: e demo_info_def info_members_def demo_ident_def demo_signer_def demo_sign_def)
  qed (simp_all add: e demo_sign_len demo_sign_verifies)
  moreover have "demo_info\<lparr>ri_options := empty_mapping, ri_buf := b\<rparr> = (info_members demo_ident)\<lparr>ri_buf := b\<rparr>" for b
    by (simp add: demo_info_def info_members_def)
  ultimately show ?thesis using i' by auto
qed

text \<open>
  C29. An identity serializes to 391 bytes, and a reader with the same key types deserializes
  them to the same encryption key, signing key, padding, certificate types and hash.
\<close>
theorem identity_travels:
  assumes j: "ident_ok j" and ser: "ident_serialize E r j = Inr j'"
    and d: "length (cert_buffer (cert d)) = 7" "\<not> locally_unreachable (cert d)"
      "ckind (crypto d) = ckind (crypto j)" "skind (signing d) = skind (signing j)"
  shows "length (id_buf j') = 391 \<and> (\<exists>d'. ident_deserialize E r1 r2 (d\<lparr>id_buf := id_buf j'\<rparr>) = Inr d'
    \<and> ident_view d' = ident_view j')"
  by (rule ident_roundtrip [OF assms])

theorem identity_travels_witness:
  "\<exists>j' d'. ident_serialize demo_env demo_rng demo_ident = Inr j' \<and> length (id_buf j') = 391
    \<and> ident_deserialize demo_env demo_rng demo_rng (demo_ident\<lparr>id_buf := id_buf j'\<rparr>) = Inr d'
    \<and> ident_view d' = ident_view j'"
proof -
  obtain j' where "ident_serialize demo_env demo_rng demo_ident = Inr j'"
    using ident_serialize_eq [OF demo_ident_ok(1)] by (auto simp: Let_def)
  then show ?thesis
    using identity_travels [OF demo_ident_ok(1), of demo_env demo_rng j' demo_ident demo_rng demo_rng] demo_ident_fresh
    by blast
qed

section \<open>Mappings, addresses and certificates\<close>

text \<open>
  C30. Adding an entry keeps the invariant of a mapping (sorted keys, valid entries, at most
  65535 bytes) and acts on the finite map it stands for as an insertion that keeps the old value
  of a key that is there already.
\<close>
theorem mapping_refines_map:
  assumes "mapping_ok m" "mapping_add k v m = Inr m'"
  shows "mapping_ok m' \<and> kv_lookup (kv m') = (kv_lookup (kv m))(k := Some (case kv_lookup (kv m) k of None \<Rightarrow> v | Some w \<Rightarrow> w))
    \<and> mapping_entry_at k m' = Inr (case kv_lookup (kv m) k of None \<Rightarrow> v | Some w \<Rightarrow> w)"
proof -
  have k: "k \<noteq> []" "length k \<le> 255" "kv m' = set_emplace (MappingEntry k v) (kv m)" "sorted_wrt (<) (kv m)"
    using assms by (auto simp: mapping_add_Inr_iff entry_ok_def mapping_ok_def)
  have l: "kv_lookup (kv m') = (kv_lookup (kv m))(k := Some (case kv_lookup (kv m) k of None \<Rightarrow> v | Some w \<Rightarrow> w))"
    by (rule ext) (auto simp: k(3) kv_lookup_emplace [OF k(4)] split: option.splits)
  then show ?thesis
    using mapping_ok_add [OF assms] mapping_entry_at_lookup [OF k(1,2), of m'] by simp
qed

theorem mapping_refines_map_witness:
  "\<exists>m'. mapping_add [1] [2] demo_options = Inr m' \<and> mapping_ok m' \<and> mapping_entry_at [1] m' = Inr [2]"
proof -
  obtain m' where m': "mapping_add [1] [2] demo_options = Inr m'"
    using demo_options_ok(1) by (auto simp: mapping_add_Inr_iff entry_ok_def entry_size_def mapping_sizes demo_options_def ascii_def)
  have "kv_lookup (kv demo_options) [1] = None" by (simp add: demo_options_def kv_lookup_def ascii_def)
  then show ?thesis using mapping_refines_map [OF demo_options_ok(1) m'] m' by simp
qed

text \<open>
  C31. A non-empty mapping that satisfies the invariant serializes without an error to as many
  bytes as its size says, and any mapping object deserializes them to the same entries.
\<close>
theorem mapping_travels:
  assumes "mapping_ok m" "kv m \<noteq> []"
  shows "\<exists>m'. mapping_serialize m = Inr m' \<and> length (map_buffer m') = unat (mapping_size m)
    \<and> mapping_deserialize (n\<lparr>map_buffer := map_buffer m'\<rparr>) = Inr (n\<lparr>map_buffer := map_buffer m', kv := kv m\<rparr>)"
  using mapping_serialize_eq [OF assms(1)] mapping_deserialize_bytes [OF assms, of "n\<lparr>map_buffer := mapping_bytes m\<rparr>"]
    length_mapping_bytes [OF assms(1)] by simp

theorem mapping_travels_witness:
  "\<exists>m'. mapping_serialize demo_options = Inr m' \<and> length (map_buffer m') = unat (mapping_size demo_options)
    \<and> mapping_deserialize (empty_mapping\<lparr>map_buffer := map_buffer m'\<rparr>) =
      Inr (empty_mapping\<lparr>map_buffer := map_buffer m', kv := kv demo_options\<rparr>)"
  by (rule mapping_travels [OF demo_options_ok(1)]) (simp add: demo_options_def)

text \<open>
  C32. An address made from a host and a port serializes, is deserialized by a fresh address
  from a longer buffer, and gives the endpoint of the same host and port.
\<close>
theorem address_travels:
  assumes "host \<noteq> []" "length host \<le> 255" and "kv (options b) = []"
  shows "\<exists>a b'. address_of_host host port = Inr a \<and> address_deserialize (b\<lparr>addr_buffer := addr_buffer a @ rest\<rparr>) = Inr b'
    \<and> ToEndpoint make_address b' = bindr (make_address host) (\<lambda>ip. Inr (ip, port))"
proof -
  obtain a where a: "address_of_host host port = Inr a" "address_ok a" "addr_buffer a = address_bytes a"
    "kv (options a) = [MappingEntry (ascii ''host'') host, MappingEntry (ascii ''port'') (to_string (unat port))]"
    using address_of_host_ok [OF assms(1,2)] by blast
  then show ?thesis
    using address_deserialize_bytes [OF a(2), of "b\<lparr>addr_buffer := addr_buffer a @ rest\<rparr>" rest]
    by (auto intro!: ToEndpoint_of_kv [OF _ assms(1)])
qed

theorem address_travels_witness:
  "\<exists>a b'. address_of_host [97] 80 = Inr a \<and> address_deserialize (address_fields\<lparr>addr_buffer := addr_buffer a @ [1]\<rparr>) = Inr b'
    \<and> ToEndpoint Inr b' = bindr (Inr [97]) (\<lambda>ip. Inr (ip, 80))"
  by (rule address_travels) (simp_all add: address_fields_def empty_mapping_def)



section \<open>Codecs, key derivation, nonces\<close>



text \<open>
  C35. The HKDF over HMAC-SHA256, with its reused buffer and its list of digests, computes the
  function of RFC 5869 for key material of 32 to 512 bytes and every output length between 32
  and 512 that is a multiple of 32.
\<close>
theorem hkdf_is_rfc5869:
  assumes "\<And>d k. length (hmac d k) = 32"
    and "32 \<le> length key_in" "length key_in \<le> 512" "32 \<le> length key_out" "length key_out \<le> 512"
    and "32 dvd length key_out"
  shows "Derive (HmacSha256 hmac) key_out key_in salt ctx = Inr (rfc_hkdf hmac key_in salt ctx (length key_out))"
  by (rule Derive_rfc [OF assms])

theorem hkdf_is_rfc5869_witness:
  "Derive (HmacSha256 demo_hmac) (replicate 64 0) (replicate 32 1) [] [] =
     Inr (rfc_hkdf demo_hmac (replicate 32 1) [] [] 64)"
  using hkdf_is_rfc5869 [of demo_hmac "replicate 32 1" "replicate 64 0" "[]" "[]"] by (simp add: demo_hmac_def)

text \<open>
  C36. The HKDF over Blake2b is undefined for every input it accepts: the default context of 8
  bytes is passed where the hash reads 16 bytes of personalisation.
\<close>
theorem blake_hkdf_is_undefined:
  assumes "32 \<le> length key_in" "length key_in \<le> 64" "32 \<le> length key_out" "length key_out \<le> 64"
  shows "is_ub (Derive (Blake2b blake) key_out key_in salt ctx)"
  by (rule Derive_blake_ub [OF assms])

theorem blake_hkdf_is_undefined_witness:
  "is_ub (Derive (Blake2b demo_blake) (replicate 32 0) (replicate 32 0) [] [])"
  by (rule blake_hkdf_is_undefined) simp_all

text \<open>
  C37. After i and after j increments a nonce has the same twelve bytes exactly when i and j
  agree modulo 65536: the first 65536 nonces are distinct, and then the counter silently wraps.
\<close>
theorem nonces_are_unique:
  assumes "nonce_ok x"
  shows "nonce_buf (nonce_incs i x) = nonce_buf (nonce_incs j x) \<longleftrightarrow> i mod 65536 = j mod 65536"
  by (rule nonce_incs_buf_eq_iff [OF assms])

theorem nonces_are_unique_witness:
  "nonce_buf (nonce_incs 65536 nonce_default) = nonce_buf (nonce_incs 0 nonce_default)"
  by (subst nonces_are_unique [OF nonce_ok_default]) simp

section \<open>ECIES-X25519\<close>



text \<open>
  C39. After one message was encrypted the state does not change any more: every later message
  is encrypted under the same key, nonce and associated data.
\<close>
theorem message_keys_are_reused:
  assumes "hmac_ok hmac" "ecies_ok s" "ecies_encrypt P (HmacSha256 hmac) m ct s = Inr (c, s')"
  shows "\<exists>key n ad. \<forall>m' ct'. ecies_encrypt P (HmacSha256 hmac) m' ct' s' =
      bindr (AEADEncrypt P key n m' ad ct') (\<lambda>c. Inr (c, s'))
    \<and> AEADEncrypt P key n m ad ct = Inr c"
proof -
  have s': "s' = after_ratchet hmac s" "\<not> requires_remote_key s"
    "AEADEncrypt P (msg_key s') (st_n s') m (msg_ad P s') ct = Inr c"
    using assms(3) unfolding ecies_encrypt_eq [OF assms(1,2)] by (auto simp: result_simps split: if_splits)
  then have a: "ecies_ok s'" "after_ratchet hmac s' = s'" "\<not> requires_remote_key s'"
    using after_ratchet_ok [OF assms(1,2)] by (simp_all add: after_ratchet_def [of hmac "after_ratchet hmac s"])
  show ?thesis
    using ecies_encrypt_eq [OF assms(1) a(1)] a(2,3) s'(3)
    by (intro exI [of _ "msg_key s'"] exI [of _ "st_n s'"] exI [of _ "msg_ad P s'"]) simp
qed

theorem message_keys_are_reused_witness:
  "\<exists>c s' key n ad. ecies_encrypt demo_prims (HmacSha256 demo_hmac) [1] [] (demo_ecies\<lparr>requires_remote_key := False\<rparr>) = Inr (c, s')
    \<and> ecies_encrypt demo_prims (HmacSha256 demo_hmac) [2] [] s' =
      bindr (AEADEncrypt demo_prims key n [2] ad []) (\<lambda>c. Inr (c, s'))"
proof -
  have ok: "ecies_ok (demo_ecies\<lparr>requires_remote_key := False\<rparr>)"
    using demo_ecies_ok by (simp add: ecies_ok_def)
  obtain c s' where "ecies_encrypt demo_prims (HmacSha256 demo_hmac) [1] [] (demo_ecies\<lparr>requires_remote_key := False\<rparr>) = Inr (c, s')"
    unfolding ecies_encrypt_eq [OF demo_hmac_ok ok]
    by (simp add: AEADEncrypt_def Let_def demo_prims_def) 
  then show ?thesis using message_keys_are_reused [OF demo_hmac_ok ok] by blast
qed

text \<open>
  C40. A state made from a key pair and given the remote keys afterwards encrypts its messages
  under a key that depends on no secret at all: the DH ratchet is never run, and the chain key
  is all zero bytes.
\<close>
theorem message_key_is_public:
  assumes "hmac_ok hmac" "prims_ok P" "keypair_ok k" "length rid = 32" "length rep = 32"
    and "state_of_keys P (HmacSha256 hmac) k = Inr s"
  shows "\<exists>s'. \<forall>m ct. ecies_encrypt P (HmacSha256 hmac) m ct (ecies_rekey_remote rid rep s) =
    bindr (AEADEncrypt P (zero_chain_key hmac) (st_n s') m (msg_ad P s') ct) (\<lambda>c. Inr (c, s'))"
proof -
  let ?s = "ecies_rekey_remote rid rep s"
  have ok: "ecies_ok ?s" by (intro rekey_ok keys_ok [OF assms(2,1,3,6)] assms(4,5))
  have r: "\<not> requires_remote_key ?s" by (simp add: ecies_rekey_remote_def)
  show ?thesis
    using ecies_encrypt_eq [OF assms(1) ok, of P] r zero_chain_message_key [OF assms(6), of rid rep]
    by (intro exI [of _ "after_ratchet hmac ?s"]) simp
qed

theorem message_key_is_public_witness:
  "\<exists>s s'. state_of_keys demo_prims (HmacSha256 demo_hmac) demo_keys = Inr s
    \<and> ecies_encrypt demo_prims (HmacSha256 demo_hmac) [1] [] (ecies_rekey_remote (replicate 32 0) (replicate 32 0) s) =
      bindr (AEADEncrypt demo_prims (zero_chain_key demo_hmac) (st_n s') [1] (msg_ad demo_prims s') []) (\<lambda>c. Inr (c, s'))"
proof -
  obtain s where "state_of_keys demo_prims (HmacSha256 demo_hmac) demo_keys = Inr s" using demo_state by blast
  then show ?thesis
    using message_key_is_public [OF demo_hmac_ok demo_prims_ok demo_keys_ok, of "replicate 32 0" "replicate 32 0" s]
    by auto
qed

end
